(* ===== verification/Prelude.thy ===== *)
theory Prelude
  imports Main "HOL-Library.Word" "HOL-Library.Monad_Syntax"
begin

text \<open>
  Shared vocabulary of the development: the machine integer types of the C sources, the
  arithmetic of ring buffers whose free-running 64-bit counters are reduced modulo a capacity
  (every ring under \<^verbatim>\<open>include/trace/\<close> is of this form), and the decimal and hexadecimal renderings
  that every protection domain carries a copy of.  The lemma collections \<open>ring_simps\<close> and
  \<open>text_simps\<close> gather what the component theories rewrite with.
\<close>

unbundle bit_operations_syntax

type_synonym u8 = "8 word"
type_synonym u16 = "16 word"
type_synonym u32 = "32 word"
type_synonym u64 = "64 word"

named_theorems ring_simps "facts on ring indices and ring contents"
named_theorems text_simps "facts on decimal and hexadecimal text"

section \<open>Ring buffers with free-running counters\<close>

text \<open>
  \<open>ring_idx cap h\<close> is the C expression \<open>h % CAPACITY\<close> on a \<open>uint64_t\<close>; \<open>ring_contents\<close> lists the
  live entries from \<open>tail\<close> up to \<open>head\<close>, whose number is the wrapping difference
  \<open>head - tail\<close>.  A window of counters is \<^emph>\<open>regular\<close> when its entries sit in distinct slots: always
  when the capacity divides \<open>2^64\<close>, and otherwise as long as the counters do not wrap inside it.
\<close>

definition ring_idx :: "nat \<Rightarrow> u64 \<Rightarrow> nat" where
  "ring_idx cap h = unat h mod cap"

definition ring_contents :: "nat \<Rightarrow> (nat \<Rightarrow> 'a) \<Rightarrow> u64 \<Rightarrow> u64 \<Rightarrow> 'a list" where
  "ring_contents cap buf t h = map (\<lambda>k. buf (ring_idx cap (t + of_nat k))) [0..<unat (h - t)]"

definition regular :: "nat \<Rightarrow> u64 \<Rightarrow> nat \<Rightarrow> bool" where
  "regular cap t n \<longleftrightarrow> 0 < cap \<and> cap < 2 ^ 64 \<and> (cap dvd 2 ^ 64 \<or> unat t + n \<le> 2 ^ 64)"

lemma ring_idx_less [ring_simps, intro]: "0 < cap \<Longrightarrow> ring_idx cap h < cap"
  by (simp add: ring_idx_def)

lemma ring_contents_length [ring_simps]: "length (ring_contents cap buf t h) = unat (h - t)"
  by (simp add: ring_contents_def)

lemma ring_contents_empty [ring_simps]: "ring_contents cap buf t t = []"
  by (simp add: ring_contents_def)

lemma ring_contents_nth:
  "k < unat (h - t) \<Longrightarrow> ring_contents cap buf t h ! k = buf (ring_idx cap (t + of_nat k))"
  by (simp add: ring_contents_def)

lemma ring_contents_Nil_iff [ring_simps]: "ring_contents cap buf t h = [] \<longleftrightarrow> h = t"
proof
  assume "ring_contents cap buf t h = []"
  then have "unat (h - t) = 0"
    by (metis ring_contents_length list.size(3))
  then have "h - t = 0" by (simp only: unat_eq_0)
  then show "h = t" by simp
qed (simp add: ring_contents_empty)

lemma unat_add_of_nat: "unat (t + of_nat k :: u64) = (unat t + k) mod 2 ^ 64"
proof -
  have "unat (t + of_nat k) = (unat t + k mod 2 ^ 64) mod 2 ^ 64"
    by (simp only: unat_word_ariths unat_of_nat) simp
  then show ?thesis by (simp only: mod_add_right_eq)
qed

lemma word_of_unat: "unat w = n \<Longrightarrow> w = of_nat n" for w :: "'a::len word"
  by auto

lemma unat_u64_less: "unat (w :: u64) < 2 ^ 64"
proof -
  have "unat w < 2 ^ LENGTH(64)" by (rule unsigned_less)
  then show ?thesis by simp
qed

lemma unat_diff_Suc:
  fixes t h :: u64
  assumes "unat (h - t) < n" and "n < 2 ^ 64"
  shows "unat (h + 1 - t) = Suc (unat (h - t))"
proof -
  have "h + 1 - t = (h - t) + 1" by simp
  then have "unat (h + 1 - t) = (unat (h - t) + 1) mod 2 ^ 64"
    by (simp only: unat_word_ariths) simp
  then show ?thesis using assms by simp
qed

lemma unat_diff_pop:
  fixes t h :: u64
  assumes "h \<noteq> t"
  shows "unat (h - t) = Suc (unat (h - (t + 1)))"
proof -
  have "h - t \<noteq> 0" using assms by simp
  then have "unat (h - t - 1) = unat (h - t) - 1" by (rule unat_minus_one)
  moreover have "0 < unat (h - t)" using \<open>h - t \<noteq> 0\<close> by (simp only: unat_gt_0 not_False_eq_True)
  moreover have "h - (t + 1) = h - t - 1" by (simp add: diff_diff_add)
  ultimately show ?thesis by (simp only:)
qed

lemma ring_contents_pop:
  assumes "h \<noteq> t"
  shows "ring_contents cap buf t h = buf (ring_idx cap t) # ring_contents cap buf (t + 1) h"
proof (rule nth_equalityI)
  have len: "unat (h - t) = Suc (unat (h - (t + 1)))" using assms by (rule unat_diff_pop)
  then show "length (ring_contents cap buf t h)
      = length (buf (ring_idx cap t) # ring_contents cap buf (t + 1) h)"
    by (simp add: ring_contents_length)
  fix i assume "i < length (ring_contents cap buf t h)"
  then show "ring_contents cap buf t h ! i
      = (buf (ring_idx cap t) # ring_contents cap buf (t + 1) h) ! i"
    by (cases i) (simp_all add: ring_contents_nth ring_contents_length len add.assoc)
qed

lemma ring_idx_neq:
  assumes reg: "regular cap t n" and "i < j" and "j - i < cap" and "j < n"
  shows "ring_idx cap (t + of_nat i) \<noteq> ring_idx cap (t + of_nat j)"
proof
  have mod_ne: "(a + i) mod cap \<noteq> (a + j) mod cap" for a
  proof
    assume "(a + i) mod cap = (a + j) mod cap"
    then have "cap dvd (a + j) - (a + i)"
      using \<open>i < j\<close> by (metis mod_eq_dvd_iff_nat add_le_cancel_left less_imp_le)
    then have "cap dvd j - i" by simp
    then show False using \<open>i < j\<close> \<open>j - i < cap\<close> by (auto dest: dvd_imp_le)
  qed
  assume eq: "ring_idx cap (t + of_nat i) = ring_idx cap (t + of_nat j)"
  have un: "unat (t + of_nat k) mod cap = (unat t + k) mod cap" if "k \<le> j" for k
  proof (cases "cap dvd 2 ^ 64")
    case True
    then show ?thesis by (simp only: unat_add_of_nat mod_mod_cancel)
  next
    case False
    then have "unat t + k < 2 ^ 64" using reg that \<open>j < n\<close> by (simp add: regular_def)
    then show ?thesis by (simp only: unat_add_of_nat mod_less)
  qed
  have "(unat t + i) mod cap = (unat t + j) mod cap"
    using eq un[of i] un[of j] \<open>i < j\<close> by (simp add: ring_idx_def)
  then show False using mod_ne by blast
qed

lemma ring_contents_upd_head:
  assumes reg: "regular cap t (Suc (unat (h - t)))" and room: "unat (h - t) < cap"
  shows "ring_contents cap (buf(ring_idx cap h := x)) t h = ring_contents cap buf t h"
proof (rule nth_equalityI)
  show "length (ring_contents cap (buf(ring_idx cap h := x)) t h) = length (ring_contents cap buf t h)"
    by (simp add: ring_contents_length)
  fix k assume "k < length (ring_contents cap (buf(ring_idx cap h := x)) t h)"
  then have k: "k < unat (h - t)" by (simp add: ring_contents_length)
  have h: "h = t + of_nat (unat (h - t))" by simp
  have "ring_idx cap (t + of_nat k) \<noteq> ring_idx cap (t + of_nat (unat (h - t)))"
    by (rule ring_idx_neq [OF reg k]) (use room in simp_all)
  then have "ring_idx cap (t + of_nat k) \<noteq> ring_idx cap h" using h by simp
  then show "ring_contents cap (buf(ring_idx cap h := x)) t h ! k = ring_contents cap buf t h ! k"
    using k by (simp add: ring_contents_nth)
qed

lemma ring_contents_push:
  assumes reg: "regular cap t (Suc (unat (h - t)))" and room: "unat (h - t) < cap"
  shows "ring_contents cap (buf(ring_idx cap h := x)) t (h + 1) = ring_contents cap buf t h @ [x]"
proof -
  let ?b = "buf(ring_idx cap h := x)"
  have capb: "cap < 2 ^ 64" using reg by (simp add: regular_def)
  have len: "unat (h + 1 - t) = Suc (unat (h - t))"
    using room capb by (rule unat_diff_Suc)
  have "ring_contents cap ?b t (h + 1)
      = map (\<lambda>k. ?b (ring_idx cap (t + of_nat k))) [0..<unat (h - t)] @ [?b (ring_idx cap h)]"
    by (simp add: ring_contents_def len)
  also have "\<dots> = ring_contents cap ?b t h @ [x]" by (simp add: ring_contents_def)
  also have "\<dots> = ring_contents cap buf t h @ [x]"
    using ring_contents_upd_head [OF reg room] by simp
  finally show ?thesis .
qed

text \<open>
  Popping shrinks the window of counters a ring holds live, so regularity survives it.
\<close>

lemma regular_mono: "regular cap t n \<Longrightarrow> m \<le> n \<Longrightarrow> regular cap t m"
  by (auto simp: regular_def)

lemma regular_dvd: "0 < cap \<Longrightarrow> cap < 2 ^ 64 \<Longrightarrow> cap dvd 2 ^ 64 \<Longrightarrow> regular cap t n"
  by (simp add: regular_def)

end
