(* ===== verification/Ring_Interface.thy ===== *)
theory Ring_Interface
  imports Prelude
begin

text \<open>
  What the clients of a shared ring rely on, as a locale: the live entries are a queue, a producer
  may push while there is \<open>room\<close>, a consumer pops from the front.  Console rings
  (\<^verbatim>\<open>include/trace/console_ring.h\<close>) and the command ring (\<^verbatim>\<open>include/trace/cmd_ring.h\<close>) provide it.  Proved once here: pushing a
  whole text, and the loop \<open>while (tail != head)\<close> every consumer runs.
\<close>

section \<open>The queue contract\<close>

locale ring_buffer =
  fixes ok :: "'r \<Rightarrow> bool"
    and live :: "'r \<Rightarrow> 'a list"
    and room :: "'r \<Rightarrow> nat"
    and push :: "'a \<Rightarrow> 'r \<Rightarrow> 'r"
    and front :: "'r \<Rightarrow> 'a"
    and pop :: "'r \<Rightarrow> 'r"
  assumes push_law: "ok r \<Longrightarrow> 0 < room r \<Longrightarrow>
      ok (push x r) \<and> live (push x r) = live r @ [x] \<and> room (push x r) = room r - 1"
    and front_law: "ok r \<Longrightarrow> live r \<noteq> [] \<Longrightarrow> front r = hd (live r)"
    and pop_law: "ok r \<Longrightarrow> live r \<noteq> [] \<Longrightarrow>
      ok (pop r) \<and> live (pop r) = tl (live r) \<and> room r \<le> room (pop r)"
begin

lemma push_list:
  assumes "ok r" and "length xs \<le> room r"
  shows "ok (foldl (\<lambda>r x. push x r) r xs) \<and> live (foldl (\<lambda>r x. push x r) r xs) = live r @ xs
    \<and> room (foldl (\<lambda>r x. push x r) r xs) = room r - length xs"
  using assms
proof (induction xs arbitrary: r)
  case (Cons x xs)
  then have "0 < room r" by simp
  with Cons.prems(1) have p: "ok (push x r)" "live (push x r) = live r @ [x]" "room (push x r) = room r - 1"
    using push_law by auto
  then show ?case using Cons.IH [OF p(1)] Cons.prems(2) by simp
qed simp

text \<open>
  Any loop \<open>D\<close> that processes the front and pops until the ring is empty runs \<open>f\<close> over exactly the live
  entries, in order, and leaves the ring empty.
\<close>

lemma drain_loop:
  assumes unf: "\<And>r s. D r s = (if live r = [] then (r, s) else D (pop r) (f (front r) s))"
    and "ok r"
  shows "snd (D r s) = fold f (live r) s \<and> live (fst (D r s)) = [] \<and> ok (fst (D r s))"
  using assms(2)
proof (induction "live r" arbitrary: r s)
  case Nil
  then show ?case using unf [of r s] by simp
next
  case (Cons x xs)
  then have p: "front r = x" "ok (pop r)" "live (pop r) = xs"
    using front_law [of r] pop_law [of r] by (metis list.distinct(1) list.sel(1) list.sel(3))+
  have "D r s = D (pop r) (f x s)" using unf [of r s] p Cons.hyps(2) by auto
  moreover have "snd (D (pop r) (f x s)) = fold f xs (f x s) \<and> live (fst (D (pop r) (f x s))) = []
      \<and> ok (fst (D (pop r) (f x s)))"
    using Cons.hyps(1) [of "pop r" "f x s"] p by simp
  ultimately show ?case using Cons.hyps(2) by (metis fold_simps(2))
qed

end

section \<open>Rings of free-running counters\<close>

text \<open>
  The counter arithmetic behind every provider: a ring of capacity \<open>cap\<close> whose counters have not been
  pushed past \<open>lim\<close> (which is irrelevant when \<open>cap\<close> divides \<open>2^64\<close>).
\<close>

definition counters_ok :: "nat \<Rightarrow> u64 \<Rightarrow> u64 \<Rightarrow> bool" where
  "counters_ok cap t h \<longleftrightarrow> 0 < cap \<and> cap < 2 ^ 64 \<and> unat (h - t) \<le> cap \<and> (cap dvd 2 ^ 64 \<or> t \<le> h)"

definition counters_room :: "nat \<Rightarrow> u64 \<Rightarrow> u64 \<Rightarrow> nat" where
  "counters_room cap t h =
     (if cap dvd 2 ^ 64 then cap - unat (h - t) else min (cap - unat (h - t)) (2 ^ 64 - 1 - unat h))"

lemma counters_room_pos:
  assumes "counters_ok cap t h" and "0 < counters_room cap t h"
  shows "unat (h - t) < cap" and "regular cap t (Suc (unat (h - t)))"
    and "unat (h + 1 - t) = Suc (unat (h - t))"
proof -
  show lt: "unat (h - t) < cap" using assms by (auto simp: counters_room_def split: if_splits)
  show "regular cap t (Suc (unat (h - t)))"
  proof (cases "cap dvd 2 ^ 64")
    case False
    then have "t \<le> h" and "unat h < 2 ^ 64 - 1" using assms by (auto simp: counters_ok_def counters_room_def)
    then have "unat t + unat (h - t) = unat h" by (simp add: unat_sub word_le_nat_alt)
    then show ?thesis using assms \<open>unat h < 2 ^ 64 - 1\<close> by (simp add: regular_def counters_ok_def)
  qed (use assms in \<open>simp add: regular_def counters_ok_def\<close>)
  show "unat (h + 1 - t) = Suc (unat (h - t))"
    using lt assms(1) by (intro unat_diff_Suc [of h t cap]) (simp_all add: counters_ok_def)
qed

lemma counters_push:
  assumes ok: "counters_ok cap t h" and room: "0 < counters_room cap t h"
  shows "counters_ok cap t (h + 1)" and "counters_room cap t (h + 1) = counters_room cap t h - 1"
proof -
  note pos = counters_room_pos [OF ok room]
  have up: "unat (h + 1) = Suc (unat h) \<and> t \<le> h + 1" if "\<not> cap dvd 2 ^ 64"
  proof -
    from that have "t \<le> h" and "unat h < 2 ^ 64 - 1"
      using ok room by (auto simp: counters_ok_def counters_room_def)
    then have "unat (h + 1) = Suc (unat h)" by (simp add: unat_word_ariths)
    with \<open>t \<le> h\<close> show ?thesis by (simp add: word_le_nat_alt)
  qed
  show "counters_ok cap t (h + 1)" using ok pos up by (auto simp: counters_ok_def)
  show "counters_room cap t (h + 1) = counters_room cap t h - 1"
    using pos up by (auto simp: counters_room_def)
qed

lemma counters_pop:
  assumes ok: "counters_ok cap t h" and ne: "h \<noteq> t"
  shows "counters_ok cap (t + 1) h" and "counters_room cap t h \<le> counters_room cap (t + 1) h"
proof -
  have d: "unat (h - t) = Suc (unat (h - (t + 1)))" using ne by (rule unat_diff_pop)
  have "t + 1 \<le> h" if "t \<le> h"
  proof -
    from that ne have "t < h" by (simp add: order_less_le)
    then have "unat t < unat h" by (simp add: word_less_nat_alt)
    moreover from this have "unat (t + 1) = Suc (unat t)"
      using unat_u64_less [of h] by (simp add: unat_word_ariths)
    ultimately show ?thesis by (simp add: word_le_nat_alt)
  qed
  then show "counters_ok cap (t + 1) h" using ok d by (auto simp: counters_ok_def)
  show "counters_room cap t h \<le> counters_room cap (t + 1) h" using d by (auto simp: counters_room_def)
qed

end
