(* ===== verification/Text_Render.thy ===== *)
theory Text_Render
  imports Prelude
begin

text \<open>
  The number rendering the protection domains share.  Every one of them (the tracer's
  \<open>put_decimal\<close> and \<open>mirror_report_dropped\<close>, \<open>uartrx\<close>'s \<open>console_putdec\<close>, the harness guest's
  \<open>uart_putdec\<close>) writes the decimal digits of a \<open>uint64_t\<close> backwards into a 21-byte buffer, and every
  hexadecimal printer indexes the same table of sixteen digits.  Here: the loops, that a
  rendering reads back as the number it came from, and that the buffers are large enough.
\<close>

section \<open>Characters and C strings\<close>

abbreviation (input) NUL :: char where "NUL \<equiv> CHR 0x00"
abbreviation (input) NL :: char where "NL \<equiv> CHR 0x0A"
abbreviation (input) CR :: char where "CR \<equiv> CHR 0x0D"

text \<open>The string a buffer holds: everything before its first terminator.\<close>

definition c_str :: "string \<Rightarrow> string" where
  "c_str buf = takeWhile (\<lambda>c. c \<noteq> NUL) buf"

lemma of_char_less: "(of_char c :: nat) < 256"
  using of_char_mod_256 [of c, where ?'a = nat] by (metis mod_less_divisor zero_less_numeral)

lemma char_of_u32 [simp]: "char_of (unat (of_nat (of_char c) :: u32)) = c"
proof -
  have "(of_char c :: nat) < 2 ^ LENGTH(32)" by (rule less_trans [OF of_char_less]) simp
  then have "unat (of_nat (of_char c) :: u32) = of_char c" by (simp only: unat_of_nat mod_less)
  then show ?thesis by simp
qed

section \<open>Decimal\<close>

text \<open>
  \<open>dec_loop val buf\<close> is the do-while loop \<open>buf[--pos] = '0' + val % 10; val /= 10\<close>; \<open>buf\<close> is the part of the
  C buffer from \<open>pos\<close> to its terminator, so \<open>--pos\<close> is a cons.
\<close>

definition digit_char :: "nat \<Rightarrow> char" where
  "digit_char d = char_of (48 + d)"

function dec_loop :: "u64 \<Rightarrow> string \<Rightarrow> string" where
  "dec_loop val buf =
     (let buf' = digit_char (unat (val mod 10)) # buf; val' = val div 10
      in if val' \<noteq> 0 then dec_loop val' buf' else buf')"
  by pat_completeness auto
termination
proof (relation "measure (\<lambda>(val, buf). unat val)", goal_cases)
  case 1
  show ?case by simp
next
  case (2 val buf x xa)
  then have "unat (val div 10) \<noteq> 0" by (metis unat_eq_0)
  then have "unat val div 10 \<noteq> 0" by (simp add: unat_div)
  then have "unat val div 10 < unat val" by (intro div_less_dividend) auto
  then show ?case using 2 by (simp add: unat_div)
qed

declare dec_loop.simps [simp del]

definition put_dec :: "u64 \<Rightarrow> string" where
  "put_dec val = dec_loop val []"

definition dec_value :: "string \<Rightarrow> nat" where
  "dec_value = foldl (\<lambda>v c. v * 10 + (of_char c - 48)) 0"

definition is_digit :: "char \<Rightarrow> bool" where
  "is_digit c \<longleftrightarrow> 48 \<le> (of_char c :: nat) \<and> (of_char c :: nat) \<le> 57"

lemma of_char_digit_char [text_simps]: "d < 10 \<Longrightarrow> of_char (digit_char d) = 48 + d"
  by (simp add: digit_char_def)

lemma digit_char_eval:
  "digit_char 0 = CHR ''0''" "digit_char (Suc 0) = CHR ''1''" "digit_char 2 = CHR ''2''" "digit_char 3 = CHR ''3''"
  "digit_char 4 = CHR ''4''" "digit_char 5 = CHR ''5''" "digit_char 6 = CHR ''6''" "digit_char 7 = CHR ''7''"
  "digit_char 8 = CHR ''8''" "digit_char 9 = CHR ''9''"
  by (simp_all add: digit_char_def char_of_def bit_0)

lemma is_digit_digit_char [text_simps]: "d < 10 \<Longrightarrow> is_digit (digit_char d)"
  by (simp add: is_digit_def of_char_digit_char)

lemma unat_mod_10 [text_simps]: "unat (v mod 10 :: u64) = unat v mod 10"
  by (simp add: unat_mod)

lemma unat_div_10 [text_simps]: "unat (v div 10 :: u64) = unat v div 10"
  by (simp add: unat_div)

lemma div_10_less: "v div 10 \<noteq> 0 \<Longrightarrow> unat (v div 10 :: u64) < unat v"
proof -
  assume "v div 10 \<noteq> 0"
  then have "unat v div 10 \<noteq> 0" by (metis unat_eq_0 unat_div_10)
  then show ?thesis by (simp add: unat_div_10)
qed

lemma dec_loop_append: "dec_loop v buf = dec_loop v [] @ buf"
proof (induction "unat v" arbitrary: v buf rule: less_induct)
  case less
  let ?d = "digit_char (unat (v mod 10))"
  show ?case
  proof (cases "v div 10 = 0")
    case True
    then show ?thesis by (simp add: dec_loop.simps [of v])
  next
    case False
    then have IH: "dec_loop (v div 10) b = dec_loop (v div 10) [] @ b" for b
      using less div_10_less by blast
    show ?thesis
      using False IH [of "?d # buf"] IH [of "[?d]"] by (simp add: dec_loop.simps [of v] Let_def)
  qed
qed

text \<open>The same digits, most significant first, of a natural number.\<close>

fun dec_digits :: "nat \<Rightarrow> string" where
  "dec_digits n = (if n < 10 then [digit_char n] else dec_digits (n div 10) @ [digit_char (n mod 10)])"

declare dec_digits.simps [simp del]

lemma put_dec_eq: "put_dec v = dec_digits (unat v)"
proof (induction "unat v" arbitrary: v rule: less_induct)
  case less
  show ?case
  proof (cases "v div 10 = 0")
    case True
    then have "unat v div 10 = 0" by (metis unat_div_10 unat_0)
    then have "unat v < 10" by (simp add: div_eq_0_iff)
    with True show ?thesis
      by (simp add: put_dec_def dec_loop.simps [of v] dec_digits.simps [of "unat v"] unat_mod_10)
  next
    case False
    then have small: "unat (v div 10) < unat v" by (rule div_10_less)
    from False have "unat v div 10 \<noteq> 0" by (metis unat_eq_0 unat_div_10)
    then have "\<not> unat v < 10" by auto
    moreover have "put_dec v = put_dec (v div 10) @ [digit_char (unat (v mod 10))]"
      using False dec_loop_append [of "v div 10" "[digit_char (unat (v mod 10))]"]
      by (simp add: put_dec_def dec_loop.simps [of v] Let_def)
    moreover have "put_dec (v div 10) = dec_digits (unat v div 10)"
      using less [OF small] by (simp add: unat_div_10)
    ultimately show ?thesis
      by (simp add: dec_digits.simps [of "unat v"] unat_mod_10)
  qed
qed

lemma dec_digits_not_Nil [text_simps]: "dec_digits n \<noteq> []"
  by (subst dec_digits.simps) simp

lemma dec_digits_digits: "c \<in> set (dec_digits n) \<Longrightarrow> is_digit c"
proof (induction n rule: dec_digits.induct)
  case (1 n)
  then show ?case
    by (cases "n < 10") (auto simp: dec_digits.simps [of n] is_digit_digit_char)
qed

lemma put_dec_plain: "\<not> is_digit c \<Longrightarrow> c \<notin> set (put_dec v)"
  using dec_digits_digits [of c "unat v"] by (auto simp: put_dec_eq)

lemma dec_value_snoc [text_simps]: "dec_value (s @ [c]) = dec_value s * 10 + (of_char c - 48)"
  by (simp add: dec_value_def)

lemma dec_value_digits [text_simps]: "dec_value (dec_digits n) = n"
proof (induction n rule: dec_digits.induct)
  case (1 n)
  show ?case
  proof (cases "n < 10")
    case True
    then show ?thesis
      by (subst dec_digits.simps) (simp add: dec_value_def of_char_digit_char)
  next
    case False
    with 1 show ?thesis
      by (subst dec_digits.simps) (simp add: dec_value_snoc of_char_digit_char)
  qed
qed

lemma dec_digits_length: "n < 10 ^ k \<Longrightarrow> 0 < k \<Longrightarrow> length (dec_digits n) \<le> k"
proof (induction n arbitrary: k rule: dec_digits.induct)
  case (1 n)
  show ?case
  proof (cases "n < 10")
    case True
    then show ?thesis using "1.prems" by (subst dec_digits.simps) simp
  next
    case False
    obtain j where k: "k = Suc j" using "1.prems" by (cases k) auto
    with False "1.prems" have "0 < j" by (cases j) auto
    moreover have "n div 10 < 10 ^ j" using "1.prems" k by (simp add: less_mult_imp_div_less mult.commute)
    ultimately have "length (dec_digits (n div 10)) \<le> j" using "1.IH" [OF False] by blast
    then show ?thesis using False k by (subst dec_digits.simps) simp
  qed
qed

lemma put_dec_length: "length (put_dec v) \<le> 20"
proof -
  have "unat v < 2 ^ 64" using unsigned_less [of v] by simp
  then have "unat v < 10 ^ 20" by simp
  then show ?thesis by (simp only: put_dec_eq) (rule dec_digits_length, simp_all)
qed

section \<open>Hexadecimal\<close>

text \<open>
  \<open>hex[]\<close> is the table \<open>0123456789abcdef\<close>; \<open>hex_nibbles val digits\<close> is the loop that prints \<open>digits\<close> nibbles of
  \<open>val\<close>, the most significant first.
\<close>

definition hex_chars :: string where
  "hex_chars = ''0123456789abcdef''"

definition hex_digit :: "nat \<Rightarrow> char" where
  "hex_digit n = hex_chars ! (n mod 16)"

definition hex_nibbles :: "u64 \<Rightarrow> nat \<Rightarrow> string" where
  "hex_nibbles val digits =
     map (\<lambda>i. hex_digit (unat (drop_bit (4 * (digits - 1 - i)) val AND 0xf))) [0..<digits]"

definition hex_val :: "char \<Rightarrow> nat option" where
  "hex_val c =
     (let n = (of_char c :: nat)
      in if 48 \<le> n \<and> n \<le> 57 then Some (n - 48)
         else if 97 \<le> n \<and> n \<le> 102 then Some (n - 87) else None)"

definition is_hex :: "char \<Rightarrow> bool" where
  "is_hex c \<longleftrightarrow> hex_val c \<noteq> None"

lemma hex_val_digit [text_simps]: "n < 16 \<Longrightarrow> hex_val (hex_digit n) = Some n"
proof -
  have "list_all (\<lambda>n. hex_val (hex_digit n) = Some n) [0..<16]"
    by (simp add: hex_digit_def hex_chars_def hex_val_def upt_rec)
  moreover assume "n < 16"
  ultimately show ?thesis by (simp add: list_all_iff)
qed

lemma is_hex_digit [text_simps]: "is_hex (hex_digit n)"
proof -
  have "hex_digit n = hex_digit (n mod 16)" by (simp add: hex_digit_def)
  then show ?thesis by (simp add: is_hex_def hex_val_digit)
qed

lemma hex_nibbles_length [text_simps]: "length (hex_nibbles v n) = n"
  by (simp add: hex_nibbles_def)

section \<open>The conversions of a format string\<close>

text \<open>\<open>%lu\<close>, \<open>%lx\<close> and \<open>%d\<close> (of a small non-negative value), and the padded forms \<open>%-14s\<close>, \<open>%10lu\<close>, \<open>%03lu\<close>.\<close>

fun hex_digits :: "nat \<Rightarrow> string" where
  "hex_digits n = (if n < 16 then [hex_digit n] else hex_digits (n div 16) @ [hex_digit (n mod 16)])"

declare hex_digits.simps [simp del]

definition fmt_lu :: "u64 \<Rightarrow> string" where
  "fmt_lu v = dec_digits (unat v)"

definition fmt_lx :: "u64 \<Rightarrow> string" where
  "fmt_lx v = hex_digits (unat v)"

definition fmt_d :: "u32 \<Rightarrow> string" where
  "fmt_d v = dec_digits (unat v)"

definition pad_left :: "nat \<Rightarrow> char \<Rightarrow> string \<Rightarrow> string" where
  "pad_left n c s = replicate (n - length s) c @ s"

definition pad_right :: "nat \<Rightarrow> char \<Rightarrow> string \<Rightarrow> string" where
  "pad_right n c s = s @ replicate (n - length s) c"

end
