(* ===== verification/Trace_Format.thy ===== *)
theory Trace_Format
  imports Text_Render
begin

text \<open>
  The trace format shared by the producers, the tracer and the host decoder
  (\<^verbatim>\<open>include/trace/trace.h\<close>, \<^verbatim>\<open>include/trace/trace_archive.h\<close>): constants, the record and the header as they are
  laid out in memory, and their little-endian byte images.  The two byte arrays of padding of
  \<open>struct trace_record\<close> are kept as words of the same width, so that every value of the record type has
  exactly 64 bytes.
\<close>

section \<open>Constants\<close>

abbreviation (input) TRACE_VERSION :: u16 where "TRACE_VERSION \<equiv> 9"
abbreviation (input) TRACE_MAGIC :: string where "TRACE_MAGIC \<equiv> ''SEL4TRC''"
abbreviation (input) TRACE_RECORD_SIZE :: nat where "TRACE_RECORD_SIZE \<equiv> 64"
abbreviation (input) TRACE_HEADER_SIZE :: nat where "TRACE_HEADER_SIZE \<equiv> 336"
abbreviation (input) TRACE_HEADER_INTERVAL :: nat where "TRACE_HEADER_INTERVAL \<equiv> 64"

definition TRACE_RING_CAPACITY :: nat where
  "TRACE_RING_CAPACITY = (0x10000 - 64) div TRACE_RECORD_SIZE"

definition TRACE_ARCHIVE_CAPACITY :: nat where
  "TRACE_ARCHIVE_CAPACITY = (0x800000 - 64) div TRACE_RECORD_SIZE"

lemma ring_capacity_value: "TRACE_RING_CAPACITY = 1023"
  by (simp add: TRACE_RING_CAPACITY_def)

lemma archive_capacity_value: "TRACE_ARCHIVE_CAPACITY = 131071"
  by (simp add: TRACE_ARCHIVE_CAPACITY_def)

abbreviation (input) TRACE_KIND_MMIO :: u8 where "TRACE_KIND_MMIO \<equiv> 1"
abbreviation (input) TRACE_KIND_SMC_ENTER :: u8 where "TRACE_KIND_SMC_ENTER \<equiv> 2"
abbreviation (input) TRACE_KIND_SMC_REGS :: u8 where "TRACE_KIND_SMC_REGS \<equiv> 3"
abbreviation (input) TRACE_KIND_SMC_EXIT :: u8 where "TRACE_KIND_SMC_EXIT \<equiv> 4"
abbreviation (input) TRACE_KIND_CMD :: u8 where "TRACE_KIND_CMD \<equiv> 5"
abbreviation (input) TRACE_KIND_GUEST :: u8 where "TRACE_KIND_GUEST \<equiv> 6"

abbreviation (input) TRACE_MMIO_WRITE :: u8 where "TRACE_MMIO_WRITE \<equiv> 1"
abbreviation (input) TRACE_MMIO_FORWARDED :: u8 where "TRACE_MMIO_FORWARDED \<equiv> 2"
abbreviation (input) TRACE_MMIO_UNHANDLED :: u8 where "TRACE_MMIO_UNHANDLED \<equiv> 4"

abbreviation (input) TRACE_SMC_REGS_EXIT :: u8 where "TRACE_SMC_REGS_EXIT \<equiv> 1"
abbreviation (input) TRACE_SMC_FORWARDED :: u8 where "TRACE_SMC_FORWARDED \<equiv> 2"
abbreviation (input) TRACE_SMC_UNHANDLED :: u8 where "TRACE_SMC_UNHANDLED \<equiv> 4"

abbreviation (input) TRACE_CMD_ACCEPTED :: u8 where "TRACE_CMD_ACCEPTED \<equiv> 1"
abbreviation (input) TRACE_CMD_REJECTED_ARGS :: u8 where "TRACE_CMD_REJECTED_ARGS \<equiv> 2"
abbreviation (input) TRACE_CMD_REJECTED_VERB :: u8 where "TRACE_CMD_REJECTED_VERB \<equiv> 4"

abbreviation (input) TRACE_CMD_VERB_NONE :: u64 where "TRACE_CMD_VERB_NONE \<equiv> 0"
abbreviation (input) TRACE_CMD_VERB_PING :: u64 where "TRACE_CMD_VERB_PING \<equiv> 1"
abbreviation (input) TRACE_CMD_VERB_TRACE_DUMP :: u64 where "TRACE_CMD_VERB_TRACE_DUMP \<equiv> 2"
abbreviation (input) TRACE_CMD_VERB_HELP :: u64 where "TRACE_CMD_VERB_HELP \<equiv> 3"
abbreviation (input) TRACE_CMD_VERB_GUEST_START :: u64 where "TRACE_CMD_VERB_GUEST_START \<equiv> 4"
abbreviation (input) TRACE_CMD_VERB_GUEST_STOP :: u64 where "TRACE_CMD_VERB_GUEST_STOP \<equiv> 5"
abbreviation (input) TRACE_CMD_VERB_STATUS :: u64 where "TRACE_CMD_VERB_STATUS \<equiv> 6"
abbreviation (input) TRACE_CMD_VERB_GUEST_REGS :: u64 where "TRACE_CMD_VERB_GUEST_REGS \<equiv> 7"
abbreviation (input) TRACE_CMD_VERB_GIC_DUMP :: u64 where "TRACE_CMD_VERB_GIC_DUMP \<equiv> 8"
abbreviation (input) TRACE_CMD_VERB_PC_SAMPLE :: u64 where "TRACE_CMD_VERB_PC_SAMPLE \<equiv> 9"
abbreviation (input) TRACE_CMD_VERB_TLBI_STRESS :: u64 where "TRACE_CMD_VERB_TLBI_STRESS \<equiv> 10"

abbreviation (input) TRACE_GUEST_STARTED :: u64 where "TRACE_GUEST_STARTED \<equiv> 1"
abbreviation (input) TRACE_GUEST_STOPPED_BY_COMMAND :: u64 where "TRACE_GUEST_STOPPED_BY_COMMAND \<equiv> 2"
abbreviation (input) TRACE_GUEST_STOPPED_BY_FAULT :: u64 where "TRACE_GUEST_STOPPED_BY_FAULT \<equiv> 3"

abbreviation (input) TRACE_PRODUCER_VMM :: u8 where "TRACE_PRODUCER_VMM \<equiv> 0"
abbreviation (input) TRACE_PRODUCER_UARTRX :: u8 where "TRACE_PRODUCER_UARTRX \<equiv> 1"

section \<open>Records and headers\<close>

record trace_record =
  tr_seq :: u64
  tr_time :: u64
  tr_pc :: u64
  tr_addr :: u64
  tr_value :: u64
  tr_esr :: u32
  tr_vcpu :: u16
  tr_producer :: u8
  tr_kind :: u8
  tr_size :: u8
  tr_flags :: u8
  tr_reserved0 :: "48 word"
  tr_reserved1 :: u64

text \<open>A C initialiser zeroes the members it does not name.\<close>

definition zero_record :: trace_record where
  "zero_record = \<lparr>tr_seq = 0, tr_time = 0, tr_pc = 0, tr_addr = 0, tr_value = 0, tr_esr = 0,
     tr_vcpu = 0, tr_producer = 0, tr_kind = 0, tr_size = 0, tr_flags = 0,
     tr_reserved0 = 0, tr_reserved1 = 0\<rparr>"

record trace_header =
  th_magic :: string
  th_version :: u16
  th_record_size :: u16
  th_cntfrq :: u32
  th_codename :: string
  th_build_id :: string
  th_bootloader :: string
  th_baseband :: string
  th_git_sha :: string
  th_toolchain_sha256 :: string
  th_dtb_sha256 :: string

section \<open>Little-endian images\<close>

definition le_bytes :: "nat \<Rightarrow> 'a::len word \<Rightarrow> u8 list" where
  "le_bytes n w = map (\<lambda>i. ucast (drop_bit (8 * i) w)) [0..<n]"

definition le_nat :: "u8 list \<Rightarrow> nat" where
  "le_nat bs = foldr (\<lambda>b a. unat b + 256 * a) bs 0"

definition le_word :: "u8 list \<Rightarrow> 'a::len word" where
  "le_word bs = of_nat (le_nat bs)"

definition byte_of :: "char \<Rightarrow> u8" where
  "byte_of c = of_nat (of_char c)"

definition char_of_byte :: "u8 \<Rightarrow> char" where
  "char_of_byte b = char_of (unat b)"

definition record_bytes :: "trace_record \<Rightarrow> u8 list" where
  "record_bytes r =
     le_bytes 8 (tr_seq r) @ le_bytes 8 (tr_time r) @ le_bytes 8 (tr_pc r) @
     le_bytes 8 (tr_addr r) @ le_bytes 8 (tr_value r) @ le_bytes 4 (tr_esr r) @
     le_bytes 2 (tr_vcpu r) @ le_bytes 1 (tr_producer r) @ le_bytes 1 (tr_kind r) @
     le_bytes 1 (tr_size r) @ le_bytes 1 (tr_flags r) @ le_bytes 6 (tr_reserved0 r) @
     le_bytes 8 (tr_reserved1 r)"

definition header_bytes :: "trace_header \<Rightarrow> u8 list" where
  "header_bytes h =
     map byte_of (th_magic h) @ le_bytes 2 (th_version h) @ le_bytes 2 (th_record_size h) @
     le_bytes 4 (th_cntfrq h) @ map byte_of (th_codename h) @ map byte_of (th_build_id h) @
     map byte_of (th_bootloader h) @ map byte_of (th_baseband h) @ map byte_of (th_git_sha h) @
     map byte_of (th_toolchain_sha256 h) @ map byte_of (th_dtb_sha256 h)"

definition header_wf :: "trace_header \<Rightarrow> bool" where
  "header_wf h \<longleftrightarrow> length (th_magic h) = 8 \<and> length (th_codename h) = 16 \<and>
     length (th_build_id h) = 32 \<and> length (th_bootloader h) = 48 \<and> length (th_baseband h) = 48 \<and>
     length (th_git_sha h) = 48 \<and> length (th_toolchain_sha256 h) = 64 \<and> length (th_dtb_sha256 h) = 64"

lemma le_bytes_length [simp]: "length (le_bytes n w) = n"
  by (simp add: le_bytes_def)

lemma record_bytes_length [simp]: "length (record_bytes r) = TRACE_RECORD_SIZE"
  by (simp add: record_bytes_def)

lemma header_bytes_length: "header_wf h \<Longrightarrow> length (header_bytes h) = TRACE_HEADER_SIZE"
  by (simp add: header_bytes_def header_wf_def)

lemma char_of_byte_of [simp]: "char_of_byte (byte_of c) = c"
  by (simp add: char_of_byte_def byte_of_def unat_of_nat)

lemma unat_byte: "unat (ucast (drop_bit (8 * i) w) :: u8) = unat w div 256 ^ i mod 256"
  for w :: "'a::len word"
proof -
  have "unat (ucast (drop_bit (8 * i) w) :: u8) = take_bit 8 (unat (drop_bit (8 * i) w))"
    by (simp add: unsigned_ucast_eq)
  also have "\<dots> = take_bit 8 (drop_bit (8 * i) (unat w))" by (simp only: unat_drop_bit_eq)
  also have "\<dots> = unat w div 256 ^ i mod 256"
    by (simp add: take_bit_eq_mod drop_bit_eq_div power_mult)
  finally show ?thesis .
qed

lemma le_nat_le_bytes_nat:
  "foldr (\<lambda>b a. unat b + 256 * a) (map (\<lambda>i. ucast (drop_bit (8 * i) w) :: u8) [k..<k + n]) 0
     = unat w div 256 ^ k mod 256 ^ n" for w :: "'a::len word"
proof (induction n arbitrary: k)
  case 0
  then show ?case by simp
next
  case (Suc n)
  have "[k..<k + Suc n] = k # [Suc k..<Suc k + n]" by (simp add: upt_rec)
  moreover have "unat w div 256 ^ k mod 256 ^ Suc n
      = unat w div 256 ^ k mod 256 + 256 * (unat w div 256 ^ k div 256 mod 256 ^ n)"
    by (simp add: mod_mult2_eq)
  moreover have "unat w div 256 ^ Suc k = unat w div 256 ^ k div 256"
    by (simp only: power_Suc2 div_mult2_eq)
  ultimately show ?case using Suc.IH [of "Suc k"] by (simp add: unat_byte del: upt_Suc)
qed

lemma le_nat_le_bytes: "le_nat (le_bytes n w) = unat w mod 256 ^ n"
  using le_nat_le_bytes_nat [of w 0 n] by (simp add: le_nat_def le_bytes_def)

lemma le_word_le_bytes: "LENGTH('a) = 8 * n \<Longrightarrow> le_word (le_bytes n w) = (w :: 'a::len word)"
proof -
  assume n: "LENGTH('a) = 8 * n"
  have "unat w < 2 ^ LENGTH('a)" by (rule unsigned_less)
  then have "unat w < 256 ^ n" by (simp add: n power_mult)
  then show ?thesis by (simp add: le_word_def le_nat_le_bytes)
qed

end
