(* ===== verification/Console_Ring.thy ===== *)
theory Console_Ring
  imports Ring_Interface Trace_Format
begin

text \<open>
  The console rings (\<^verbatim>\<open>include/trace/console_ring.h\<close>).  First the ring as a queue of characters, which is what
  the tracer, the panel driver and their drain loops use it as; then the two writers that block
  until there is room (\<open>_sddf_putchar\<close> in \<^verbatim>\<open>vmm/console_putchar.c\<close>, \<open>console_putc\<close> in \<^verbatim>\<open>uartrx/uartrx.c\<close>) running concurrently
  with the tracer's \<open>drain_console\<close>, one step per shared access, over all interleavings.
\<close>

section \<open>The ring as a queue\<close>

record console_ring =
  cr_head :: u64
  cr_tail :: u64
  cr_buf :: "nat \<Rightarrow> char"

definition CONSOLE_RING_CAPACITY :: nat where
  "CONSOLE_RING_CAPACITY = 0x4000 - 2 * 8"

lemma console_capacity_value: "CONSOLE_RING_CAPACITY = 16368"
  by (simp add: CONSOLE_RING_CAPACITY_def)

definition empty_console :: console_ring where
  "empty_console = \<lparr>cr_head = 0, cr_tail = 0, cr_buf = (\<lambda>_. CHR 0x00)\<rparr>"

definition console_slot :: "u64 \<Rightarrow> nat" where
  "console_slot h = ring_idx CONSOLE_RING_CAPACITY h"

definition console_full :: "console_ring \<Rightarrow> u64 \<Rightarrow> bool" where
  "console_full r h \<longleftrightarrow> of_nat CONSOLE_RING_CAPACITY \<le> h - cr_tail r"

definition console_push :: "char \<Rightarrow> console_ring \<Rightarrow> console_ring" where
  "console_push c r = r\<lparr>cr_buf := (cr_buf r)(console_slot (cr_head r) := c), cr_head := cr_head r + 1\<rparr>"

definition console_front :: "console_ring \<Rightarrow> char" where
  "console_front r = cr_buf r (console_slot (cr_tail r))"

definition console_pop :: "console_ring \<Rightarrow> console_ring" where
  "console_pop r = r\<lparr>cr_tail := cr_tail r + 1\<rparr>"

definition console_live :: "console_ring \<Rightarrow> string" where
  "console_live r = ring_contents CONSOLE_RING_CAPACITY (cr_buf r) (cr_tail r) (cr_head r)"

definition console_ok :: "console_ring \<Rightarrow> bool" where
  "console_ok r \<longleftrightarrow> counters_ok CONSOLE_RING_CAPACITY (cr_tail r) (cr_head r)"

definition console_room :: "console_ring \<Rightarrow> nat" where
  "console_room r = counters_room CONSOLE_RING_CAPACITY (cr_tail r) (cr_head r)"

lemma console_capacity_dvd: "\<not> CONSOLE_RING_CAPACITY dvd 2 ^ 64"
  by (simp add: console_capacity_value dvd_eq_mod_eq_0)

lemma console_ok_empty: "console_ok empty_console"
  by (simp add: console_ok_def counters_ok_def empty_console_def console_capacity_value)

lemma console_full_iff: "console_full r h \<longleftrightarrow> CONSOLE_RING_CAPACITY \<le> unat (h - cr_tail r)"
  by (simp add: console_full_def word_le_nat_alt console_capacity_value)

lemma console_live_Nil: "console_live r = [] \<longleftrightarrow> cr_tail r = cr_head r"
  by (auto simp: console_live_def ring_contents_Nil_iff)

interpretation console: ring_buffer console_ok console_live console_room console_push console_front console_pop
proof
  fix r :: console_ring and x
  assume ok: "console_ok r" and room: "0 < console_room r"
  note a = ok [unfolded console_ok_def] and b = room [unfolded console_room_def]
  show "console_ok (console_push x r) \<and> console_live (console_push x r) = console_live r @ [x]
      \<and> console_room (console_push x r) = console_room r - 1"
    using counters_push [OF a b] ring_contents_push [OF counters_room_pos(2,1) [OF a b]]
    by (simp add: console_ok_def console_room_def console_live_def console_push_def console_slot_def)
next
  fix r :: console_ring
  assume ok: "console_ok r" and ne: "console_live r \<noteq> []"
  then have ne': "cr_head r \<noteq> cr_tail r" using console_live_Nil [of r] by metis
  note pop = ring_contents_pop [OF ne', of CONSOLE_RING_CAPACITY "cr_buf r"]
  show "console_front r = hd (console_live r)"
    using pop by (simp add: console_front_def console_live_def console_slot_def)
  show "console_ok (console_pop r) \<and> console_live (console_pop r) = tl (console_live r)
      \<and> console_room r \<le> console_room (console_pop r)"
    using counters_pop [OF ok [unfolded console_ok_def] ne'] pop
    by (simp add: console_ok_def console_room_def console_live_def console_pop_def)
qed

section \<open>Blocking writers\<close>

text \<open>The points of \<open>_sddf_putchar\<close> and of \<open>console_putc\<close> between two shared accesses, with the live locals.\<close>

datatype wctl =
    WIdle
  | WHead char           \<comment> \<open>about to load \<open>head\<close>\<close>
  | WTest char u64       \<comment> \<open>the VMM's first test, which counts a wait\<close>
  | WSpin char u64       \<comment> \<open>the waiting loop's test\<close>
  | WYield char u64      \<comment> \<open>notify the tracer and yield\<close>
  | WStore char u64      \<comment> \<open>about to store the character\<close>
  | WPublish char u64    \<comment> \<open>about to store \<open>head\<close>\<close>
  | WNotify              \<comment> \<open>a newline: about to notify the tracer\<close>

text \<open>
  A step gives the next point, the ring, whether the tracer is notified and by how much the
  breadcrumb's \<open>console_waits\<close> grows.
\<close>

type_synonym writer_step = "wctl \<Rightarrow> console_ring \<Rightarrow> wctl \<times> console_ring \<times> bool \<times> nat"

fun sddf_putchar_step :: "wctl \<Rightarrow> console_ring \<Rightarrow> wctl \<times> console_ring \<times> bool \<times> nat" where
  "sddf_putchar_step WIdle r = (WIdle, r, False, 0)"
| "sddf_putchar_step (WHead c) r = (WTest c (cr_head r), r, False, 0)"
| "sddf_putchar_step (WTest c h) r = (WSpin c h, r, False, if console_full r h then 1 else 0)"
| "sddf_putchar_step (WSpin c h) r = (if console_full r h then WYield c h else WStore c h, r, False, 0)"
| "sddf_putchar_step (WYield c h) r = (WSpin c h, r, True, 0)"
| "sddf_putchar_step (WStore c h) r = (WPublish c h, r\<lparr>cr_buf := (cr_buf r)(console_slot h := c)\<rparr>, False, 0)"
| "sddf_putchar_step (WPublish c h) r =
     (if c = CHR 0x0A then WNotify else WIdle, r\<lparr>cr_head := h + 1\<rparr>, False, 0)"
| "sddf_putchar_step WNotify r = (WIdle, r, True, 0)"

fun uartrx_putc_step :: "wctl \<Rightarrow> console_ring \<Rightarrow> wctl \<times> console_ring \<times> bool \<times> nat" where
  "uartrx_putc_step (WHead c) r = (WSpin c (cr_head r), r, False, 0)"
| "uartrx_putc_step (WSpin c h) r = (if console_full r h then WYield c h else WStore c h, r, False, 0)"
| "uartrx_putc_step (WYield c h) r = (WSpin c h, r, True, 0)"
| "uartrx_putc_step (WStore c h) r = (WPublish c h, r\<lparr>cr_buf := (cr_buf r)(console_slot h := c)\<rparr>, False, 0)"
| "uartrx_putc_step (WPublish c h) r = (WIdle, r\<lparr>cr_head := h + 1\<rparr>, False, 0)"
| "uartrx_putc_step (WTest c h) r = (WSpin c h, r, False, 0)"   \<comment> \<open>not a point of this function\<close>
| "uartrx_putc_step WNotify r = (WIdle, r, False, 0)"           \<comment> \<open>not a point of this function\<close>
| "uartrx_putc_step WIdle r = (WIdle, r, False, 0)"

section \<open>The tracer's reader\<close>

datatype rctl =
    RIdle
  | RTail             \<comment> \<open>about to load \<open>tail\<close>\<close>
  | RHead u64         \<comment> \<open>about to load \<open>head\<close> and compare\<close>
  | RPut u64          \<comment> \<open>about to print the character at \<open>tail\<close>\<close>
  | RStore u64        \<comment> \<open>about to store the advanced \<open>tail\<close>\<close>

fun drain_console_step :: "rctl \<Rightarrow> console_ring \<Rightarrow> rctl \<times> console_ring \<times> string" where
  "drain_console_step RIdle r = (RIdle, r, [])"
| "drain_console_step RTail r = (RHead (cr_tail r), r, [])"
| "drain_console_step (RHead t) r = (if t \<noteq> cr_head r then RPut t else RIdle, r, [])"
| "drain_console_step (RPut t) r = (RStore (t + 1), r, [cr_buf r (console_slot t)])"
| "drain_console_step (RStore t) r = (RHead t, r\<lparr>cr_tail := t\<rparr>, [])"

record csys =
  cs_ring :: console_ring
  cs_writer :: wctl
  cs_todo :: string         \<comment> \<open>what the writing domain still has to print\<close>
  cs_reader :: rctl
  cs_printed :: string      \<comment> \<open>what the tracer handed to \<open>console_putc\<close>\<close>
  cs_written :: string      \<comment> \<open>characters published so far (read by no step)\<close>
  cs_signal :: bool
  cs_waits :: nat

datatype cthread = Writer | Reader

fun csys_step :: "writer_step \<Rightarrow> cthread \<Rightarrow> csys \<Rightarrow> csys" where
  "csys_step W Writer s =
     (if cs_writer s = WIdle
      then (case cs_todo s of [] \<Rightarrow> s | c # cs \<Rightarrow> s\<lparr>cs_writer := WHead c, cs_todo := cs\<rparr>)
      else (let (w, r, b, n) = W (cs_writer s) (cs_ring s)
            in s\<lparr>cs_writer := w, cs_ring := r, cs_signal := (cs_signal s \<or> b), cs_waits := cs_waits s + n,
                 cs_written := (case cs_writer s of WPublish c h \<Rightarrow> cs_written s @ [c] | _ \<Rightarrow> cs_written s)\<rparr>))"
| "csys_step W Reader s =
     (if cs_reader s = RIdle
      then (if cs_signal s then s\<lparr>cs_signal := False, cs_reader := RTail\<rparr> else s)
      else (let (d, r, out) = drain_console_step (cs_reader s) (cs_ring s)
            in s\<lparr>cs_reader := d, cs_ring := r, cs_printed := cs_printed s @ out\<rparr>))"

definition csys_init :: "string \<Rightarrow> csys" where
  "csys_init msg = \<lparr>cs_ring = empty_console, cs_writer = WIdle, cs_todo = msg, cs_reader = RIdle,
     cs_printed = [], cs_written = [], cs_signal = False, cs_waits = 0\<rparr>"

inductive creach :: "writer_step \<Rightarrow> string \<Rightarrow> csys \<Rightarrow> bool"
  for W :: writer_step and msg :: string where
  creach_init: "creach W msg (csys_init msg)"
| creach_step: "creach W msg s \<Longrightarrow> creach W msg (csys_step W th s)"

definition csys_run :: "writer_step \<Rightarrow> cthread list \<Rightarrow> csys \<Rightarrow> csys" where
  "csys_run W ths s = foldl (\<lambda>s th. csys_step W th s) s ths"

lemma creach_run: "creach W msg (csys_run W ths (csys_init msg))"
  by (induction ths rule: rev_induct) (simp_all add: csys_run_def creach_init creach_step)

section \<open>Nothing is lost, nothing is overwritten\<close>

text \<open>What a writer may do in one step; both writers of the system satisfy it.\<close>

fun wmove :: "wctl \<Rightarrow> console_ring \<Rightarrow> wctl \<Rightarrow> console_ring \<Rightarrow> bool" where
  "wmove WIdle r w' r' \<longleftrightarrow> False"
| "wmove (WHead c) r w' r' \<longleftrightarrow> r' = r \<and> (w' = WTest c (cr_head r) \<or> w' = WSpin c (cr_head r))"
| "wmove (WTest c h) r w' r' \<longleftrightarrow> r' = r \<and> w' = WSpin c h"
| "wmove (WSpin c h) r w' r' \<longleftrightarrow> r' = r \<and> w' = (if console_full r h then WYield c h else WStore c h)"
| "wmove (WYield c h) r w' r' \<longleftrightarrow> r' = r \<and> w' = WSpin c h"
| "wmove (WStore c h) r w' r' \<longleftrightarrow> w' = WPublish c h \<and> r' = r\<lparr>cr_buf := (cr_buf r)(console_slot h := c)\<rparr>"
| "wmove (WPublish c h) r w' r' \<longleftrightarrow> (w' = WNotify \<or> w' = WIdle) \<and> r' = r\<lparr>cr_head := h + 1\<rparr>"
| "wmove WNotify r w' r' \<longleftrightarrow> r' = r \<and> w' = WIdle"

fun wpending :: "wctl \<Rightarrow> string" where
  "wpending (WHead c) = [c]"
| "wpending (WTest c h) = [c]"
| "wpending (WSpin c h) = [c]"
| "wpending (WYield c h) = [c]"
| "wpending (WStore c h) = [c]"
| "wpending (WPublish c h) = [c]"
| "wpending w = []"

definition ring_of :: "console_ring \<Rightarrow> string \<Rightarrow> bool" where
  "ring_of r xs \<longleftrightarrow> cr_head r = of_nat (length xs) \<and> unat (cr_tail r) \<le> length xs
     \<and> length xs - unat (cr_tail r) \<le> CONSOLE_RING_CAPACITY \<and> console_live r = drop (unat (cr_tail r)) xs"

fun w_ok :: "wctl \<Rightarrow> console_ring \<Rightarrow> bool" where
  "w_ok (WTest c h) r \<longleftrightarrow> h = cr_head r"
| "w_ok (WSpin c h) r \<longleftrightarrow> h = cr_head r"
| "w_ok (WYield c h) r \<longleftrightarrow> h = cr_head r"
| "w_ok (WStore c h) r \<longleftrightarrow> h = cr_head r \<and> unat (h - cr_tail r) < CONSOLE_RING_CAPACITY"
| "w_ok (WPublish c h) r \<longleftrightarrow> h = cr_head r \<and> unat (h - cr_tail r) < CONSOLE_RING_CAPACITY
     \<and> cr_buf r (console_slot h) = c"
| "w_ok w r \<longleftrightarrow> True"

fun r_ok :: "rctl \<Rightarrow> console_ring \<Rightarrow> bool" where
  "r_ok (RHead t) r \<longleftrightarrow> t = cr_tail r"
| "r_ok (RPut t) r \<longleftrightarrow> t = cr_tail r \<and> t \<noteq> cr_head r"
| "r_ok (RStore t) r \<longleftrightarrow> t = cr_tail r + 1 \<and> cr_tail r \<noteq> cr_head r"
| "r_ok d r \<longleftrightarrow> True"

definition taken :: "csys \<Rightarrow> nat" where
  "taken s = unat (cr_tail (cs_ring s)) + (case cs_reader s of RStore t \<Rightarrow> 1 | _ \<Rightarrow> 0)"

definition console_inv :: "string \<Rightarrow> csys \<Rightarrow> bool" where
  "console_inv msg s \<longleftrightarrow> ring_of (cs_ring s) (cs_written s) \<and> w_ok (cs_writer s) (cs_ring s)
     \<and> r_ok (cs_reader s) (cs_ring s) \<and> cs_printed s = take (taken s) (cs_written s)
     \<and> cs_written s @ wpending (cs_writer s) @ cs_todo s = msg"

lemma ring_of_count:
  assumes "ring_of r xs" and "length xs < 2 ^ 64"
  shows "unat (cr_head r) = length xs" and "unat (cr_head r - cr_tail r) = length xs - unat (cr_tail r)"
    and "cr_tail r \<noteq> cr_head r \<longleftrightarrow> unat (cr_tail r) < length xs"
proof -
  show h: "unat (cr_head r) = length xs" using assms by (simp add: ring_of_def unat_of_nat)
  then have le: "cr_tail r \<le> cr_head r" using assms by (simp add: ring_of_def word_le_nat_alt)
  then show "unat (cr_head r - cr_tail r) = length xs - unat (cr_tail r)" using h by (simp add: unat_sub)
  show "cr_tail r \<noteq> cr_head r \<longleftrightarrow> unat (cr_tail r) < length xs"
    using h le by (metis order_less_le word_less_nat_alt)
qed

lemma ring_of_pop:
  assumes "ring_of r xs" and "length xs < 2 ^ 64" and "cr_tail r \<noteq> cr_head r"
  shows "ring_of (r\<lparr>cr_tail := cr_tail r + 1\<rparr>) xs" and "unat (cr_tail r + 1) = Suc (unat (cr_tail r))"
    and "cr_buf r (console_slot (cr_tail r)) = xs ! unat (cr_tail r)"
proof -
  have lt: "unat (cr_tail r) < length xs" using ring_of_count(3) [OF assms(1,2)] assms(3) by simp
  then show suc: "unat (cr_tail r + 1) = Suc (unat (cr_tail r))"
    using assms(2) by (simp add: unat_word_ariths)
  have live: "console_live r = xs ! unat (cr_tail r) # drop (Suc (unat (cr_tail r))) xs"
    using assms(1) lt by (simp add: ring_of_def Cons_nth_drop_Suc)
  have pop: "console_live r = cr_buf r (console_slot (cr_tail r)) # console_live (r\<lparr>cr_tail := cr_tail r + 1\<rparr>)"
    unfolding console_live_def console_slot_def using ring_contents_pop [OF assms(3) [symmetric]] by simp
  from live pop show "cr_buf r (console_slot (cr_tail r)) = xs ! unat (cr_tail r)" by simp
  have "length xs - Suc (unat (cr_tail r)) \<le> CONSOLE_RING_CAPACITY" using assms(1) by (auto simp: ring_of_def)
  with live pop suc lt assms(1) show "ring_of (r\<lparr>cr_tail := cr_tail r + 1\<rparr>) xs"
    by (simp add: ring_of_def)
qed

lemma ring_of_regular:
  assumes "ring_of r xs" and "length xs < 2 ^ 64"
  shows "regular CONSOLE_RING_CAPACITY (cr_tail r) (Suc (unat (cr_head r - cr_tail r)))"
  using assms ring_of_count [OF assms] by (simp add: regular_def console_capacity_value ring_of_def)

lemma ring_of_store:
  assumes "ring_of r xs" and "length xs < 2 ^ 64" and "unat (cr_head r - cr_tail r) < CONSOLE_RING_CAPACITY"
  shows "ring_of (r\<lparr>cr_buf := (cr_buf r)(console_slot (cr_head r) := c)\<rparr>) xs"
proof -
  let ?r = "r\<lparr>cr_buf := (cr_buf r)(console_slot (cr_head r) := c)\<rparr>"
  have "console_live ?r = console_live r"
    using ring_contents_upd_head [OF ring_of_regular [OF assms(1,2)] assms(3)]
    by (simp add: console_live_def console_slot_def)
  then show ?thesis using assms(1) by (simp add: ring_of_def)
qed

lemma ring_of_publish:
  assumes "ring_of r xs" and "length xs < 2 ^ 64" and "unat (cr_head r - cr_tail r) < CONSOLE_RING_CAPACITY"
    and "cr_buf r (console_slot (cr_head r)) = c"
  shows "ring_of (r\<lparr>cr_head := cr_head r + 1\<rparr>) (xs @ [c])"
proof -
  have "(cr_buf r)(console_slot (cr_head r) := c) = cr_buf r" using assms(4) by auto
  then have "console_live (r\<lparr>cr_head := cr_head r + 1\<rparr>) = console_live r @ [c]"
    using ring_contents_push [OF ring_of_regular [OF assms(1,2)] assms(3), of "cr_buf r" c]
    by (simp add: console_live_def console_slot_def)
  then show ?thesis using assms ring_of_count [OF assms(1,2)] by (simp add: ring_of_def)
qed

lemma taken_le:
  assumes "ring_of (cs_ring s) (cs_written s)" and "r_ok (cs_reader s) (cs_ring s)"
    and "length (cs_written s) < 2 ^ 64"
  shows "taken s \<le> length (cs_written s)"
  using assms(1,2) ring_of_count(3) [OF assms(1,3)]
  by (cases "cs_reader s") (auto simp: taken_def ring_of_def)

lemma publish_not_empty:
  "unat (cr_head r - cr_tail r) < CONSOLE_RING_CAPACITY \<Longrightarrow> cr_tail r \<noteq> cr_head r + 1"
  by (auto simp: console_capacity_value unsigned_minus_1_eq_mask mask_eq_exp_minus_1)

locale console_writer =
  fixes W :: writer_step
  assumes W_move: "w \<noteq> WIdle \<Longrightarrow> w_ok w r \<Longrightarrow> wmove w r (fst (W w r)) (fst (snd (W w r)))"
begin

lemma writer_step_inv:
  assumes inv: "console_inv msg s" and len: "length (cs_written s) < 2 ^ 64"
  shows "console_inv msg (csys_step W Writer s)"
proof (cases "cs_writer s = WIdle")
  case True
  then show ?thesis
    using inv by (cases "cs_todo s") (auto simp: console_inv_def taken_def)
next
  case False
  obtain w' r' b n where W: "W (cs_writer s) (cs_ring s) = (w', r', b, n)" by (metis prod_cases4)
  from inv have rg: "ring_of (cs_ring s) (cs_written s)" and wk: "w_ok (cs_writer s) (cs_ring s)"
    and rk: "r_ok (cs_reader s) (cs_ring s)" and out: "cs_printed s = take (taken s) (cs_written s)"
    and all: "cs_written s @ wpending (cs_writer s) @ cs_todo s = msg" by (simp_all add: console_inv_def)
  have mv: "wmove (cs_writer s) (cs_ring s) w' r'" using W_move [OF False wk] W by simp
  let ?hist = "case cs_writer s of WPublish c h \<Rightarrow> cs_written s @ [c] | _ \<Rightarrow> cs_written s"
  have step: "csys_step W Writer s = s\<lparr>cs_writer := w', cs_ring := r', cs_signal := (cs_signal s \<or> b),
      cs_waits := cs_waits s + n, cs_written := ?hist\<rparr>" using False W by simp
  have "ring_of r' ?hist" and wk': "w_ok w' r'"
    using mv wk rg len ring_of_store [OF rg len] ring_of_publish [OF rg len]
    by (cases "cs_writer s"; auto simp: console_full_iff split: if_splits)+
  moreover have "r_ok (cs_reader s) r'"
    using mv rk wk publish_not_empty [of "cs_ring s"]
    by (cases "cs_writer s"; cases "cs_reader s") (auto split: if_splits)
  moreover have "wpending (cs_writer s) = (case cs_writer s of WPublish c h \<Rightarrow> [c] | _ \<Rightarrow> wpending w')"
    using mv False by (cases "cs_writer s") auto
  moreover have "cr_tail r' = cr_tail (cs_ring s)" using mv False by (cases "cs_writer s") auto
  ultimately show ?thesis
    using out all mv taken_le [OF rg rk len] unfolding step console_inv_def taken_def
    by (cases "cs_writer s") auto
qed

lemma reader_step_inv:
  assumes inv: "console_inv msg s" and len: "length (cs_written s) < 2 ^ 64"
  shows "console_inv msg (csys_step W Reader s)"
proof -
  from inv have rg: "ring_of (cs_ring s) (cs_written s)" and wk: "w_ok (cs_writer s) (cs_ring s)"
    and rk: "r_ok (cs_reader s) (cs_ring s)" by (simp_all add: console_inv_def)
  show ?thesis
  proof (cases "cs_reader s")
    case (RPut t)
    then have t: "t = cr_tail (cs_ring s)" and ne: "cr_tail (cs_ring s) \<noteq> cr_head (cs_ring s)" using rk by auto
    have "unat (cr_tail (cs_ring s)) < length (cs_written s)" using ring_of_count(3) [OF rg len] ne by simp
    then show ?thesis
      using inv RPut t ne ring_of_pop(3) [OF rg len ne]
      by (simp add: console_inv_def taken_def take_Suc_conv_app_nth)
  next
    case (RStore t)
    then have t: "t = cr_tail (cs_ring s) + 1" and ne: "cr_tail (cs_ring s) \<noteq> cr_head (cs_ring s)" using rk by auto
    have "unat (cr_head (cs_ring s) - (cr_tail (cs_ring s) + 1)) < unat (cr_head (cs_ring s) - cr_tail (cs_ring s))"
      using unat_diff_pop [OF ne [symmetric]] by simp
    then have "w_ok (cs_writer s) (cs_ring s\<lparr>cr_tail := t\<rparr>)" using wk t by (cases "cs_writer s") auto
    then show ?thesis
      using inv RStore t ring_of_pop(1,2) [OF rg len ne] by (simp add: console_inv_def taken_def)
  qed (use inv in \<open>auto simp: console_inv_def taken_def\<close>)
qed

lemma written_grows: "\<exists>xs. cs_written (csys_step W th s) = cs_written s @ xs"
proof (cases th)
  case Writer
  then show ?thesis
    by (cases "cs_writer s = WIdle"; cases "cs_todo s"; cases "W (cs_writer s) (cs_ring s)")
      (auto split: wctl.splits)
next
  case Reader
  then show ?thesis
    by (cases "cs_reader s = RIdle"; cases "drain_console_step (cs_reader s) (cs_ring s)") auto
qed

lemma creach_inv: "creach W msg s \<Longrightarrow> length msg < 2 ^ 64 \<Longrightarrow> console_inv msg s"
proof (induction rule: creach.induct)
  case creach_init
  show ?case
    by (simp add: console_inv_def csys_init_def ring_of_def console_live_def empty_console_def
        ring_contents_empty taken_def)
next
  case (creach_step s th)
  then have inv: "console_inv msg s" by simp
  then have "length (cs_written s) \<le> length msg" by (auto simp: console_inv_def)
  with inv creach_step.prems show ?case
    using writer_step_inv [OF inv] reader_step_inv [OF inv] by (cases th) auto
qed

lemma console_stream:
  assumes "creach W msg s" and "length msg < 2 ^ 64"
  shows "cs_printed s @ drop (taken s) (cs_written s) @ wpending (cs_writer s) @ cs_todo s = msg
    \<and> length (console_live (cs_ring s)) \<le> CONSOLE_RING_CAPACITY"
proof -
  have inv: "console_inv msg s" using assms by (rule creach_inv)
  then have "length (console_live (cs_ring s)) \<le> CONSOLE_RING_CAPACITY"
    by (simp add: console_inv_def ring_of_def)
  then show ?thesis using inv unfolding console_inv_def by (metis append.assoc append_take_drop_id)
qed

end

text \<open>Both writers meet the contract.\<close>

interpretation vmm_console: console_writer sddf_putchar_step
proof
  fix w r
  assume "w \<noteq> WIdle" and "w_ok w r"
  then show "wmove w r (fst (sddf_putchar_step w r)) (fst (snd (sddf_putchar_step w r)))"
    by (cases w) auto
qed

interpretation uartrx_console: console_writer uartrx_putc_step
proof
  fix w r
  assume "w \<noteq> WIdle" and "w_ok w r"
  then show "wmove w r (fst (uartrx_putc_step w r)) (fst (snd (uartrx_putc_step w r)))"
    by (cases w) auto
qed

section \<open>Properties\<close>

lemma console_done:
  assumes "console_inv msg s" and "length msg < 2 ^ 64" and "cs_writer s = WIdle" and "cs_todo s = []"
    and "cr_tail (cs_ring s) = cr_head (cs_ring s)"
  shows "cs_printed s = msg"
proof -
  have w: "cs_written s = msg" using assms by (simp add: console_inv_def)
  have "unat (cr_tail (cs_ring s)) = length msg"
    using assms ring_of_count(1) [of "cs_ring s" msg] w by (simp add: console_inv_def)
  then have "length msg \<le> taken s" by (simp add: taken_def)
  then show ?thesis using assms(1) w by (simp add: console_inv_def)
qed

text \<open>
  C11. Console text survives the ring: whatever the interleaving of a blocking writer (the VMM's
  \<open>_sddf_putchar\<close> or \<open>uartrx\<close>'s \<open>console_putc\<close>) with the tracer's \<open>drain_console\<close>, the characters the tracer has printed,
  the ones in the ring, the one in flight and the ones not yet written are the text, in order; the
  ring never holds more than its capacity; and once the writer is done and the ring is empty,
  exactly the text has been printed.
\<close>

theorem console_text_in_order:
  assumes "W = sddf_putchar_step \<or> W = uartrx_putc_step" and "creach W msg s" and "length msg < 2 ^ 64"
  shows "cs_printed s @ drop (taken s) (cs_written s) @ wpending (cs_writer s) @ cs_todo s = msg
    \<and> length (console_live (cs_ring s)) \<le> CONSOLE_RING_CAPACITY
    \<and> (cs_writer s = WIdle \<and> cs_todo s = [] \<and> cr_tail (cs_ring s) = cr_head (cs_ring s)
        \<longrightarrow> cs_printed s = msg)"
  using assms(1)
proof
  assume W: "W = sddf_putchar_step"
  show ?thesis
    using vmm_console.console_stream [of msg s] vmm_console.creach_inv [of msg s] assms(2,3)
      console_done [of msg s] unfolding W by blast
next
  assume W: "W = uartrx_putc_step"
  show ?thesis
    using uartrx_console.console_stream [of msg s] uartrx_console.creach_inv [of msg s] assms(2,3)
      console_done [of msg s] unfolding W by blast
qed

definition console_demo :: csys where
  "console_demo = csys_run sddf_putchar_step
     [Writer, Writer, Writer, Writer, Writer, Writer, Writer, Reader, Reader, Reader, Reader, Reader, Reader]
     (csys_init [CHR 0x0A])"

theorem console_text_in_order_witness:
  "cs_printed console_demo = [CHR 0x0A] \<and> cs_reader console_demo = RIdle"
proof -
  have r: "creach sddf_putchar_step [CHR 0x0A] console_demo" unfolding console_demo_def by (rule creach_run)
  have "cs_writer console_demo = WIdle \<and> cs_todo console_demo = []
      \<and> cr_tail (cs_ring console_demo) = cr_head (cs_ring console_demo) \<and> cs_reader console_demo = RIdle"
    by (simp add: console_demo_def csys_run_def csys_init_def empty_console_def console_full_iff
        console_capacity_value console_slot_def ring_idx_def)
  then show ?thesis using console_text_in_order [OF disjI1 [OF refl] r] by simp
qed

end
