(* ===== verification/Trace_Archive.thy ===== *)
theory Trace_Archive
  imports Trace_Format
begin

text \<open>
  The tracer's archive (\<open>struct trace_archive\<close> and \<open>archive_record\<close>): records are appended until the
  8 MiB region is full and counted from then on, so the archive is always a prefix of what the
  tracer took from the ring.
\<close>

record trace_archive =
  ar_count :: u64
  ar_not_archived :: u64
  ar_records :: "nat \<Rightarrow> trace_record"

definition empty_archive :: trace_archive where
  "empty_archive = \<lparr>ar_count = 0, ar_not_archived = 0, ar_records = (\<lambda>_. zero_record)\<rparr>"

definition archive_record :: "trace_archive \<Rightarrow> trace_record \<Rightarrow> trace_archive" where
  "archive_record a rec =
     (if ar_count a = of_nat TRACE_ARCHIVE_CAPACITY
      then a\<lparr>ar_not_archived := ar_not_archived a + 1\<rparr>
      else a\<lparr>ar_records := (ar_records a)(unat (ar_count a) := rec), ar_count := ar_count a + 1\<rparr>)"

text \<open>What a dump prints: the records below \<open>count\<close>.\<close>

definition archived :: "trace_archive \<Rightarrow> trace_record list" where
  "archived a = map (ar_records a) [0..<unat (ar_count a)]"

definition archive_ok :: "trace_archive \<Rightarrow> bool" where
  "archive_ok a \<longleftrightarrow> unat (ar_count a) \<le> TRACE_ARCHIVE_CAPACITY"

lemma archive_ok_empty: "archive_ok empty_archive"
  by (simp add: archive_ok_def empty_archive_def)

lemma archive_not_full:
  assumes "archive_ok a" and "ar_count a \<noteq> of_nat TRACE_ARCHIVE_CAPACITY"
  shows "unat (ar_count a) < TRACE_ARCHIVE_CAPACITY" and "unat (ar_count a + 1) = Suc (unat (ar_count a))"
proof -
  have "unat (ar_count a) \<noteq> TRACE_ARCHIVE_CAPACITY"
  proof
    assume "unat (ar_count a) = TRACE_ARCHIVE_CAPACITY"
    then have "ar_count a = of_nat TRACE_ARCHIVE_CAPACITY" by (rule word_of_unat)
    with assms show False by simp
  qed
  with assms show lt: "unat (ar_count a) < TRACE_ARCHIVE_CAPACITY" by (simp add: archive_ok_def)
  then have "unat (ar_count a) + 1 < 2 ^ 64" by (simp add: archive_capacity_value)
  then show "unat (ar_count a + 1) = Suc (unat (ar_count a))"
    by (simp add: unat_word_ariths)
qed

lemma archive_record_cases:
  assumes "archive_ok a"
  shows "archive_ok (archive_record a r)"
    and "archived (archive_record a r)
      = (if ar_count a = of_nat TRACE_ARCHIVE_CAPACITY then archived a else archived a @ [r])"
  using archive_not_full [OF assms] assms
  by (auto simp: archive_record_def archive_ok_def archived_def)

lemma archive_full_length:
  assumes "archive_ok a"
  shows "ar_count a = of_nat TRACE_ARCHIVE_CAPACITY \<longleftrightarrow> length (archived a) = TRACE_ARCHIVE_CAPACITY"
proof
  assume "ar_count a = of_nat TRACE_ARCHIVE_CAPACITY"
  then show "length (archived a) = TRACE_ARCHIVE_CAPACITY"
    by (simp add: archived_def archive_capacity_value)
next
  assume "length (archived a) = TRACE_ARCHIVE_CAPACITY"
  then show "ar_count a = of_nat TRACE_ARCHIVE_CAPACITY"
    by (intro word_of_unat) (simp add: archived_def)
qed

text \<open>Archiving a sequence keeps its first 131071 records and counts the rest.\<close>

lemma archive_fold:
  assumes "length xs < 2 ^ 64"
  shows "archive_ok (foldl archive_record empty_archive xs)
    \<and> archived (foldl archive_record empty_archive xs) = take TRACE_ARCHIVE_CAPACITY xs
    \<and> unat (ar_not_archived (foldl archive_record empty_archive xs)) = length xs - TRACE_ARCHIVE_CAPACITY"
  using assms
proof (induction xs rule: rev_induct)
  case Nil
  then show ?case by (simp add: archive_ok_empty archived_def) (simp add: empty_archive_def)
next
  case (snoc x xs)
  let ?a = "foldl archive_record empty_archive xs"
  from snoc have ok: "archive_ok ?a" and ar: "archived ?a = take TRACE_ARCHIVE_CAPACITY xs"
    and na: "unat (ar_not_archived ?a) = length xs - TRACE_ARCHIVE_CAPACITY" by simp_all
  have full: "ar_count ?a = of_nat TRACE_ARCHIVE_CAPACITY \<longleftrightarrow> TRACE_ARCHIVE_CAPACITY \<le> length xs"
    using archive_full_length [OF ok] by (auto simp: ar)
  show ?case
  proof (cases "TRACE_ARCHIVE_CAPACITY \<le> length xs")
    case True
    have "unat (ar_not_archived ?a + 1) = Suc (unat (ar_not_archived ?a))"
      using na snoc.prems by (simp add: unat_word_ariths)
    moreover have "ar_not_archived (archive_record ?a x) = ar_not_archived ?a + 1"
      using True full by (simp add: archive_record_def)
    ultimately show ?thesis
      using True full ar na archive_record_cases [OF ok, of x] by (simp add: Suc_diff_le)
  next
    case False
    then have "ar_not_archived (archive_record ?a x) = ar_not_archived ?a"
      using full by (simp add: archive_record_def)
    then show ?thesis
      using False full ar na archive_record_cases [OF ok, of x] by simp
  qed
qed

end
