(* ===== verification/Trace_Producer.thy ===== *)
theory Trace_Producer
  imports Trace_Archive
begin

text \<open>
  The trace ring and everything that runs on it concurrently: any number of producers inside
  \<open>trace_emit\<close> (\<^verbatim>\<open>vmm/trace_producer.c\<close>, linked into the VMM and into \<open>uartrx\<close>) and the tracer inside
  \<open>drain_trace\<close> (\<^verbatim>\<open>tracer/tracer.c\<close>).  A step is one atomic access of the C code, taken by any thread, so a
  run is any interleaving on a sequentially consistent memory; the acquire and release orderings of
  the sources give exactly the visibility this needs.  The copy of the 64-byte record into its slot
  is one step: nobody else touches the slot between the claim of \<open>head\<close> and its publication.
\<close>

section \<open>The shared ring\<close>

record trace_ring =
  rg_head :: u64
  rg_tail :: u64
  rg_next_seq :: u64
  rg_producer_lock :: u32
  rg_records :: "nat \<Rightarrow> trace_record"

definition empty_ring :: trace_ring where
  "empty_ring = \<lparr>rg_head = 0, rg_tail = 0, rg_next_seq = 0, rg_producer_lock = 0,
     rg_records = (\<lambda>_. zero_record)\<rparr>"

definition ring_slot :: "u64 \<Rightarrow> nat" where
  "ring_slot h = ring_idx TRACE_RING_CAPACITY h"

definition pending_records :: "trace_ring \<Rightarrow> u64 \<Rightarrow> trace_record list" where
  "pending_records g t = ring_contents TRACE_RING_CAPACITY (rg_records g) t (rg_head g)"

section \<open>A producer inside trace\_emit\<close>

text \<open>
  One constructor per point of \<open>trace_emit\<close> between two shared accesses, carrying the locals that are live
  there (the caller's record and the loaded \<open>head\<close>).
\<close>

datatype pctl =
    PIdle                        \<comment> \<open>not inside \<open>trace_emit\<close>\<close>
  | PLock trace_record           \<comment> \<open>\<open>producer_lock\<close>: about to exchange\<close>
  | PSpin trace_record           \<comment> \<open>\<open>producer_lock\<close>: relaxed load loop\<close>
  | PHead trace_record           \<comment> \<open>about to load \<open>head\<close>\<close>
  | PWait trace_record u64       \<comment> \<open>\<open>wait_for_space\<close>: about to load \<open>tail\<close>\<close>
  | PFull trace_record u64       \<comment> \<open>\<open>wait_for_space\<close>: notify and yield\<close>
  | PSeq trace_record u64        \<comment> \<open>about to fetch and add \<open>next_seq\<close>\<close>
  | PTime trace_record u64       \<comment> \<open>about to read the counter\<close>
  | PStore trace_record u64      \<comment> \<open>about to store the record\<close>
  | PPublish trace_record u64    \<comment> \<open>about to store \<open>head\<close>\<close>
  | PUnlock                      \<comment> \<open>\<open>producer_unlock\<close>\<close>
  | PNotify                      \<comment> \<open>about to notify the tracer\<close>

text \<open>\<open>trace_emit_step pid now c g\<close>: the next point, the ring, and whether the tracer was notified.\<close>

fun trace_emit_step :: "u8 \<Rightarrow> u64 \<Rightarrow> pctl \<Rightarrow> trace_ring \<Rightarrow> pctl \<times> trace_ring \<times> bool" where
  "trace_emit_step pid now PIdle g = (PIdle, g, False)"
| "trace_emit_step pid now (PLock r) g =
     (if rg_producer_lock g \<noteq> 0 then PSpin r else PHead r, g\<lparr>rg_producer_lock := 1\<rparr>, False)"
| "trace_emit_step pid now (PSpin r) g =
     (if rg_producer_lock g \<noteq> 0 then PSpin r else PLock r, g, False)"
| "trace_emit_step pid now (PHead r) g = (PWait r (rg_head g), g, False)"
| "trace_emit_step pid now (PWait r h) g =
     (if of_nat TRACE_RING_CAPACITY \<le> h - rg_tail g then PFull r h else PSeq r h, g, False)"
| "trace_emit_step pid now (PFull r h) g = (PWait r h, g, True)"
| "trace_emit_step pid now (PSeq r h) g =
     (PTime (r\<lparr>tr_seq := rg_next_seq g\<rparr>) h, g\<lparr>rg_next_seq := rg_next_seq g + 1\<rparr>, False)"
| "trace_emit_step pid now (PTime r h) g = (PStore (r\<lparr>tr_time := now\<rparr>) h, g, False)"
| "trace_emit_step pid now (PStore r h) g =
     (PPublish (r\<lparr>tr_producer := pid\<rparr>) h,
      g\<lparr>rg_records := (rg_records g)(ring_slot h := r\<lparr>tr_producer := pid\<rparr>)\<rparr>, False)"
| "trace_emit_step pid now (PPublish r h) g = (PUnlock, g\<lparr>rg_head := h + 1\<rparr>, False)"
| "trace_emit_step pid now PUnlock g = (PNotify, g\<lparr>rg_producer_lock := 0\<rparr>, False)"
| "trace_emit_step pid now PNotify g = (PIdle, g, True)"

section \<open>The tracer inside drain\_trace\<close>

datatype cctl =
    CIdle              \<comment> \<open>in its event loop\<close>
  | CTail              \<comment> \<open>about to load \<open>tail\<close>\<close>
  | CHead u64          \<comment> \<open>about to load \<open>head\<close> and compare\<close>
  | CArchive u64       \<comment> \<open>about to archive the record at \<open>tail\<close>\<close>
  | CStore u64         \<comment> \<open>about to store the advanced \<open>tail\<close>\<close>

fun drain_trace_step :: "cctl \<Rightarrow> trace_ring \<Rightarrow> trace_archive \<Rightarrow> cctl \<times> trace_ring \<times> trace_archive" where
  "drain_trace_step CIdle g a = (CIdle, g, a)"
| "drain_trace_step CTail g a = (CHead (rg_tail g), g, a)"
| "drain_trace_step (CHead t) g a = (if t \<noteq> rg_head g then CArchive t else CIdle, g, a)"
| "drain_trace_step (CArchive t) g a =
     (CStore (t + 1), g, archive_record a (rg_records g (ring_slot t)))"
| "drain_trace_step (CStore t) g a = (CHead t, g\<lparr>rg_tail := t\<rparr>, a)"

section \<open>The whole system\<close>

text \<open>
  Each producer has the list of records its program still hands to \<open>trace_emit\<close>.  \<open>s_signal\<close> is the tracer's
  Microkit notification word; \<open>s_history\<close> records publications in order and is read by no step.
\<close>

record prod =
  p_ctl :: pctl
  p_todo :: "trace_record list"

record sys =
  s_ring :: trace_ring
  s_prods :: "u8 \<Rightarrow> prod"
  s_cons :: cctl
  s_archive :: trace_archive
  s_clock :: u64
  s_signal :: bool
  s_history :: "trace_record list"

datatype thread = Producer u8 | Tracer | Tick nat

definition prod_step :: "u8 \<Rightarrow> sys \<Rightarrow> sys" where
  "prod_step pid s =
     (let p = s_prods s pid in
      if p_ctl p = PIdle
      then (case p_todo p of
              [] \<Rightarrow> s
            | r # rs \<Rightarrow> s\<lparr>s_prods := (s_prods s)(pid := p\<lparr>p_ctl := PLock r, p_todo := rs\<rparr>)\<rparr>)
      else (let (c, g, notify) = trace_emit_step pid (s_clock s) (p_ctl p) (s_ring s)
            in s\<lparr>s_ring := g, s_prods := (s_prods s)(pid := p\<lparr>p_ctl := c\<rparr>),
                 s_signal := (s_signal s \<or> notify),
                 s_history := (case p_ctl p of PPublish r h \<Rightarrow> s_history s @ [r] | _ \<Rightarrow> s_history s)\<rparr>))"

definition cons_step :: "sys \<Rightarrow> sys" where
  "cons_step s =
     (if s_cons s = CIdle
      then (if s_signal s then s\<lparr>s_signal := False, s_cons := CTail\<rparr> else s)
      else (let (c, g, a) = drain_trace_step (s_cons s) (s_ring s) (s_archive s)
            in s\<lparr>s_cons := c, s_ring := g, s_archive := a\<rparr>))"

fun sys_step :: "thread \<Rightarrow> sys \<Rightarrow> sys" where
  "sys_step (Producer pid) s = prod_step pid s"
| "sys_step Tracer s = cons_step s"
| "sys_step (Tick d) s =
     (if unat (s_clock s) + d < 2 ^ 64 then s\<lparr>s_clock := s_clock s + of_nat d\<rparr> else s)"

definition sys_init :: "(u8 \<Rightarrow> trace_record list) \<Rightarrow> u64 \<Rightarrow> sys" where
  "sys_init progs t0 = \<lparr>s_ring = empty_ring,
     s_prods = (\<lambda>pid. \<lparr>p_ctl = PIdle, p_todo = progs pid\<rparr>), s_cons = CIdle,
     s_archive = empty_archive, s_clock = t0, s_signal = False, s_history = []\<rparr>"

inductive reach :: "(u8 \<Rightarrow> trace_record list) \<Rightarrow> u64 \<Rightarrow> sys \<Rightarrow> bool" for progs t0 where
  reach_init: "reach progs t0 (sys_init progs t0)"
| reach_step: "reach progs t0 s \<Longrightarrow> reach progs t0 (sys_step th s)"

definition sys_run :: "thread list \<Rightarrow> sys \<Rightarrow> sys" where
  "sys_run ths s = foldl (\<lambda>s th. sys_step th s) s ths"

lemma reach_run: "reach progs t0 (sys_run ths (sys_init progs t0))"
  by (induction ths rule: rev_induct) (simp_all add: sys_run_def reach_init reach_step)

section \<open>Mutual exclusion and the shape of the ring\<close>

fun crit :: "pctl \<Rightarrow> bool" where
  "crit PIdle = False"
| "crit (PLock r) = False"
| "crit (PSpin r) = False"
| "crit PNotify = False"
| "crit c = True"

fun has_seq :: "pctl \<Rightarrow> bool" where
  "has_seq (PTime r h) = True"
| "has_seq (PStore r h) = True"
| "has_seq (PPublish r h) = True"
| "has_seq c = False"

abbreviation ctl :: "sys \<Rightarrow> u8 \<Rightarrow> pctl" where
  "ctl s pid \<equiv> p_ctl (s_prods s pid)"

definition mutex_inv :: "sys \<Rightarrow> bool" where
  "mutex_inv s \<longleftrightarrow> (rg_producer_lock (s_ring s) \<noteq> 0 \<longleftrightarrow> (\<exists>p. crit (ctl s p)))
     \<and> (\<forall>p q. crit (ctl s p) \<longrightarrow> crit (ctl s q) \<longrightarrow> p = q)"

lemma mutex_init: "mutex_inv (sys_init progs t0)"
  by (simp add: mutex_inv_def sys_init_def empty_ring_def)

lemma trace_emit_step_lock:
  assumes "trace_emit_step pid now c g = (c', g', b)" and "c \<noteq> PIdle"
  shows "(crit c' = crit c \<and> rg_producer_lock g' = rg_producer_lock g)
    \<or> (\<not> crit c \<and> \<not> crit c' \<and> rg_producer_lock g \<noteq> 0 \<and> rg_producer_lock g' \<noteq> 0)
    \<or> (\<not> crit c \<and> crit c' \<and> rg_producer_lock g = 0 \<and> rg_producer_lock g' \<noteq> 0)
    \<or> (crit c \<and> \<not> crit c' \<and> rg_producer_lock g' = 0)"
  using assms by (cases c) (auto simp: Let_def split: if_splits)

lemma drain_trace_step_lock:
  "drain_trace_step c g a = (c', g', a') \<Longrightarrow> rg_producer_lock g' = rg_producer_lock g"
  by (cases c) auto

text \<open>What one step of the system can be; every invariant below is proved over these cases.\<close>

lemma sys_step_cases [case_names stutter call emit wake drain tick]:
  obtains "sys_step th s = s"
  | p r rs where "ctl s p = PIdle" "p_todo (s_prods s p) = r # rs"
      "sys_step th s = s\<lparr>s_prods := (s_prods s)(p := (s_prods s p)\<lparr>p_ctl := PLock r, p_todo := rs\<rparr>)\<rparr>"
  | p c g b where "ctl s p \<noteq> PIdle" "trace_emit_step p (s_clock s) (ctl s p) (s_ring s) = (c, g, b)"
      "sys_step th s = s\<lparr>s_ring := g, s_prods := (s_prods s)(p := (s_prods s p)\<lparr>p_ctl := c\<rparr>),
         s_signal := (s_signal s \<or> b),
         s_history := (case ctl s p of PPublish r h \<Rightarrow> s_history s @ [r] | _ \<Rightarrow> s_history s)\<rparr>"
  | "s_cons s = CIdle" "s_signal s" "sys_step th s = s\<lparr>s_signal := False, s_cons := CTail\<rparr>"
  | c g a where "s_cons s \<noteq> CIdle" "drain_trace_step (s_cons s) (s_ring s) (s_archive s) = (c, g, a)"
      "sys_step th s = s\<lparr>s_cons := c, s_ring := g, s_archive := a\<rparr>"
  | d where "unat (s_clock s) + d < 2 ^ 64" "sys_step th s = s\<lparr>s_clock := s_clock s + of_nat d\<rparr>"
proof (cases th)
  case (Producer p)
  obtain c g b where "trace_emit_step p (s_clock s) (ctl s p) (s_ring s) = (c, g, b)"
    by (metis prod_cases3)
  then have st: "trace_emit_step p (s_clock s) (ctl s p) (s_ring s) = (c, g, b)" .
  show ?thesis
  proof (cases "ctl s p = PIdle")
    case True
    then show ?thesis
      using Producer that(1) that(2) [of p] by (cases "p_todo (s_prods s p)") (simp_all add: prod_step_def)
  next
    case False
    show ?thesis
      by (rule that(3) [OF False st]) (use Producer False st in \<open>simp add: prod_step_def Let_def\<close>)
  qed
next
  case Tracer
  obtain c g a where "drain_trace_step (s_cons s) (s_ring s) (s_archive s) = (c, g, a)"
    by (metis prod_cases3)
  then show ?thesis
    using Tracer that(1,4) that(5) [of c g a] by (cases "s_cons s = CIdle"; cases "s_signal s") (simp_all add: cons_step_def)
next
  case (Tick d)
  then show ?thesis using that(1) that(6) [of d] by (cases "unat (s_clock s) + d < 2 ^ 64") simp_all
qed

lemma mutex_upd:
  assumes "mutex_inv s" and "s_prods s' = (s_prods s)(p := x)"
    and "(crit (p_ctl x) = crit (ctl s p) \<and> rg_producer_lock (s_ring s') = rg_producer_lock (s_ring s))
    \<or> (\<not> crit (ctl s p) \<and> \<not> crit (p_ctl x) \<and> rg_producer_lock (s_ring s) \<noteq> 0 \<and> rg_producer_lock (s_ring s') \<noteq> 0)
    \<or> (\<not> crit (ctl s p) \<and> crit (p_ctl x) \<and> rg_producer_lock (s_ring s) = 0 \<and> rg_producer_lock (s_ring s') \<noteq> 0)
    \<or> (crit (ctl s p) \<and> \<not> crit (p_ctl x) \<and> rg_producer_lock (s_ring s') = 0)"
  shows "mutex_inv s'"
proof -
  have upd: "crit (ctl s' q) = (if q = p then crit (p_ctl x) else crit (ctl s q))" for q
    using assms(2) by simp
  have lock: "rg_producer_lock (s_ring s) \<noteq> 0 \<longleftrightarrow> (\<exists>q. crit (ctl s q))"
    and one: "\<And>q q'. crit (ctl s q) \<Longrightarrow> crit (ctl s q') \<Longrightarrow> q = q'"
    using assms(1) by (auto simp: mutex_inv_def)
  show ?thesis
    using assms(3) lock one unfolding mutex_inv_def upd by (elim disjE conjE) (metis+)
qed

lemma mutex_step: "mutex_inv s \<Longrightarrow> mutex_inv (sys_step th s)"
proof (cases th s rule: sys_step_cases)
  case (call p r rs)
  assume "mutex_inv s"
  then show ?thesis by (rule mutex_upd [where p = p and x = "(s_prods s p)\<lparr>p_ctl := PLock r, p_todo := rs\<rparr>"])
      (use call in simp_all)
next
  case (emit p c g b)
  assume "mutex_inv s"
  then show ?thesis
    by (rule mutex_upd [where p = p and x = "(s_prods s p)\<lparr>p_ctl := c\<rparr>"]) (use emit trace_emit_step_lock [OF emit(2,1)] in simp_all)
next
  case (drain c g a)
  assume "mutex_inv s"
  then show ?thesis using drain drain_trace_step_lock [OF drain(2)] by (simp add: mutex_inv_def)
qed (simp_all add: mutex_inv_def)

lemma reach_mutex: "reach progs t0 s \<Longrightarrow> mutex_inv s"
  by (induction rule: reach.induct) (simp_all add: mutex_init mutex_step)

section \<open>Contents, sequence numbers and timestamps\<close>

definition room :: "trace_ring \<Rightarrow> bool" where
  "room g \<longleftrightarrow> unat (rg_head g - rg_tail g) < TRACE_RING_CAPACITY"

text \<open>A record that has its timestamp is not older than anything published.\<close>

definition fresh :: "trace_record list \<Rightarrow> u64 \<Rightarrow> trace_record \<Rightarrow> bool" where
  "fresh hist now r \<longleftrightarrow> tr_time r \<le> now \<and> (\<forall>x \<in> set hist. tr_time x \<le> tr_time r)"

text \<open>What the locals of a producer in the critical section agree with.\<close>

fun p_ok :: "u8 \<Rightarrow> u64 \<Rightarrow> trace_ring \<Rightarrow> trace_record list \<Rightarrow> pctl \<Rightarrow> bool" where
  "p_ok p now g hist (PWait r h) \<longleftrightarrow> h = rg_head g"
| "p_ok p now g hist (PFull r h) \<longleftrightarrow> h = rg_head g"
| "p_ok p now g hist (PSeq r h) \<longleftrightarrow> h = rg_head g \<and> room g"
| "p_ok p now g hist (PTime r h) \<longleftrightarrow> h = rg_head g \<and> room g \<and> tr_seq r = rg_head g"
| "p_ok p now g hist (PStore r h) \<longleftrightarrow> h = rg_head g \<and> room g \<and> tr_seq r = rg_head g \<and> fresh hist now r"
| "p_ok p now g hist (PPublish r h) \<longleftrightarrow> h = rg_head g \<and> room g \<and> tr_seq r = rg_head g \<and> fresh hist now r
     \<and> tr_producer r = p \<and> rg_records g (ring_slot h) = r"
| "p_ok p now g hist c \<longleftrightarrow> True"

fun c_ok :: "trace_ring \<Rightarrow> cctl \<Rightarrow> bool" where
  "c_ok g (CHead t) \<longleftrightarrow> t = rg_tail g"
| "c_ok g (CArchive t) \<longleftrightarrow> t = rg_tail g \<and> t \<noteq> rg_head g"
| "c_ok g (CStore t) \<longleftrightarrow> t = rg_tail g + 1 \<and> rg_tail g \<noteq> rg_head g"
| "c_ok g c \<longleftrightarrow> True"

definition ring_ok :: "trace_ring \<Rightarrow> trace_record list \<Rightarrow> bool" where
  "ring_ok g hist \<longleftrightarrow> unat (rg_head g) = length hist \<and> unat (rg_tail g) \<le> length hist
     \<and> length hist \<le> unat (rg_tail g) + TRACE_RING_CAPACITY
     \<and> pending_records g (rg_tail g) = drop (unat (rg_tail g)) hist"

definition hist_ok :: "u64 \<Rightarrow> trace_record list \<Rightarrow> bool" where
  "hist_ok now hist \<longleftrightarrow> map tr_seq hist = map of_nat [0..<length hist]
     \<and> sorted (map tr_time hist) \<and> (\<forall>x \<in> set hist. tr_time x \<le> now)"

definition seq_ok :: "sys \<Rightarrow> bool" where
  "seq_ok s \<longleftrightarrow> rg_next_seq (s_ring s)
     = rg_head (s_ring s) + (if \<exists>p. has_seq (ctl s p) then 1 else 0)"

definition core_inv :: "sys \<Rightarrow> bool" where
  "core_inv s \<longleftrightarrow> ring_ok (s_ring s) (s_history s) \<and> hist_ok (s_clock s) (s_history s) \<and> seq_ok s
     \<and> (\<forall>p. p_ok p (s_clock s) (s_ring s) (s_history s) (ctl s p)) \<and> c_ok (s_ring s) (s_cons s)"

lemma has_seq_crit: "has_seq c \<Longrightarrow> crit c"
  by (cases c) auto

lemma p_ok_not_crit: "\<not> crit c \<Longrightarrow> p_ok p now g hist c"
  by (cases c) auto

lemma ring_ok_count:
  assumes "ring_ok g hist"
  shows "unat (rg_head g - rg_tail g) = length hist - unat (rg_tail g)"
proof -
  have "rg_tail g \<le> rg_head g" using assms by (simp add: ring_ok_def word_le_nat_alt)
  then show ?thesis using assms by (simp add: ring_ok_def unat_sub)
qed

lemma ring_ok_room:
  assumes "ring_ok g hist" shows "room g \<longleftrightarrow> length hist < unat (rg_tail g) + TRACE_RING_CAPACITY"
  using assms ring_ok_count [OF assms] by (auto simp: room_def ring_ok_def)

lemma ring_ok_publish:
  assumes ok: "ring_ok g hist" and "room g" and len: "length hist + 1 < 2 ^ 64"
    and rec: "rg_records g (ring_slot (rg_head g)) = r"
  shows "ring_ok (g\<lparr>rg_head := rg_head g + 1\<rparr>) (hist @ [r])"
proof -
  have cnt: "unat (rg_head g - rg_tail g) = length hist - unat (rg_tail g)"
    using ok by (rule ring_ok_count)
  have reg: "regular TRACE_RING_CAPACITY (rg_tail g) (Suc (unat (rg_head g - rg_tail g)))"
    using ok len by (simp add: regular_def ring_capacity_value ring_ok_def cnt)
  have upd: "(rg_records g)(ring_idx TRACE_RING_CAPACITY (rg_head g) := r) = rg_records g"
    using rec by (auto simp: ring_slot_def)
  have "pending_records (g\<lparr>rg_head := rg_head g + 1\<rparr>) (rg_tail g) = pending_records g (rg_tail g) @ [r]"
    using ring_contents_push [OF reg, of "rg_records g" r] \<open>room g\<close>
    by (simp add: upd pending_records_def room_def)
  moreover have "unat (rg_head g + 1) = length hist + 1"
    using ok len by (simp add: ring_ok_def unat_word_ariths)
  ultimately show ?thesis
    using ok \<open>room g\<close> ring_ok_room [OF ok] by (auto simp: ring_ok_def)
qed

lemma ring_ok_store:
  assumes ok: "ring_ok g hist" and "room g" and len: "length hist < 2 ^ 64"
  shows "ring_ok (g\<lparr>rg_records := (rg_records g)(ring_slot (rg_head g) := r)\<rparr>) hist"
proof -
  have cnt: "unat (rg_head g - rg_tail g) = length hist - unat (rg_tail g)"
    using ok by (rule ring_ok_count)
  have reg: "regular TRACE_RING_CAPACITY (rg_tail g) (Suc (unat (rg_head g - rg_tail g)))"
    using ok len by (simp add: regular_def ring_capacity_value ring_ok_def cnt)
  show ?thesis
    using ok ring_contents_upd_head [OF reg, of "rg_records g" r] \<open>room g\<close>
    by (simp add: ring_ok_def pending_records_def ring_slot_def room_def)
qed

lemma ring_ok_pop:
  assumes ok: "ring_ok g hist" and ne: "rg_tail g \<noteq> rg_head g"
  shows "ring_ok (g\<lparr>rg_tail := rg_tail g + 1\<rparr>) hist" and "unat (rg_tail g + 1) = Suc (unat (rg_tail g))"
    and "unat (rg_tail g) < length hist" and "rg_records g (ring_slot (rg_tail g)) = hist ! unat (rg_tail g)"
    and "room (g\<lparr>rg_tail := rg_tail g + 1\<rparr>)"
proof -
  have ne_nat: "unat (rg_tail g) \<noteq> unat (rg_head g)" using ne by (metis word_of_unat)
  with ok show lt: "unat (rg_tail g) < length hist" by (simp add: ring_ok_def)
  have "length hist < 2 ^ 64" using ok unat_u64_less [of "rg_head g"] by (simp add: ring_ok_def)
  with lt show suc: "unat (rg_tail g + 1) = Suc (unat (rg_tail g))"
    by (simp add: unat_word_ariths)
  have pop: "pending_records g (rg_tail g)
      = rg_records g (ring_slot (rg_tail g)) # pending_records g (rg_tail g + 1)"
    using ne by (simp add: pending_records_def ring_slot_def ring_contents_pop)
  have dr: "drop (unat (rg_tail g)) hist = hist ! unat (rg_tail g) # drop (Suc (unat (rg_tail g))) hist"
    using lt by (simp add: Cons_nth_drop_Suc)
  from pop dr ok show "rg_records g (ring_slot (rg_tail g)) = hist ! unat (rg_tail g)"
    by (simp add: ring_ok_def)
  from pop dr ok suc lt show ok': "ring_ok (g\<lparr>rg_tail := rg_tail g + 1\<rparr>) hist"
    by (simp add: ring_ok_def pending_records_def)
  have "length hist < unat (rg_tail g + 1) + TRACE_RING_CAPACITY"
    using ok suc by (simp add: ring_ok_def)
  then show "room (g\<lparr>rg_tail := rg_tail g + 1\<rparr>)"
    by (simp add: ring_ok_room [OF ok'])
qed

lemma hist_ok_snoc:
  assumes "hist_ok now hist" and "fresh hist now r" and "tr_seq r = of_nat (length hist)"
  shows "hist_ok now (hist @ [r])"
  using assms by (auto simp: hist_ok_def fresh_def sorted_append)

lemma core_init: "core_inv (sys_init progs t0)"
  by (simp add: core_inv_def sys_init_def ring_ok_def empty_ring_def hist_ok_def seq_ok_def
      pending_records_def ring_contents_empty)

lemma p_ok_cong:
  assumes "rg_head g' = rg_head g" and "rg_tail g' = rg_tail g" and "rg_records g' = rg_records g"
  shows "p_ok p now g' hist c \<longleftrightarrow> p_ok p now g hist c"
  by (cases c) (simp_all add: assms room_def)

text \<open>One step of a producer: its own locals, the ring, the published history.\<close>

definition hist_after :: "pctl \<Rightarrow> trace_record list \<Rightarrow> trace_record list" where
  "hist_after c hist = (case c of PPublish r h \<Rightarrow> hist @ [r] | _ \<Rightarrow> hist)"

lemma room_check: "\<not> of_nat TRACE_RING_CAPACITY \<le> rg_head g - rg_tail g \<Longrightarrow> room g"
  by (simp add: room_def word_le_nat_alt ring_capacity_value)

lemma emit_core:
  assumes st: "trace_emit_step p now c g = (c', g', b)"
    and rk: "ring_ok g hist" and hk: "hist_ok now hist" and pk: "p_ok p now g hist c"
    and nseq: "rg_next_seq g = rg_head g + (if has_seq c then 1 else 0)"
    and len: "length (hist_after c hist) < 2 ^ 64" and "crit c"
  shows "ring_ok g' (hist_after c hist) \<and> hist_ok now (hist_after c hist)
    \<and> p_ok p now g' (hist_after c hist) c' \<and> rg_next_seq g' = rg_head g' + (if has_seq c' then 1 else 0)"
proof -
  have seq: "rg_head g = of_nat (length hist)"
    using rk by (intro word_of_unat) (simp add: ring_ok_def)
  show ?thesis
  proof (cases c)
    case (PWait r h)
    then show ?thesis
      using st rk hk pk nseq room_check by (auto simp: hist_after_def split: if_splits)
  next
    case (PTime r h)
    then show ?thesis
      using st rk hk pk nseq by (auto simp: hist_after_def fresh_def hist_ok_def)
  next
    case (PStore r h)
    let ?r = "r\<lparr>tr_producer := p\<rparr>"
    have "ring_ok (g\<lparr>rg_records := (rg_records g)(ring_slot (rg_head g) := ?r)\<rparr>) hist"
      by (rule ring_ok_store) (use PStore pk rk len in \<open>simp_all add: hist_after_def\<close>)
    then show ?thesis
      using PStore st hk pk nseq by (auto simp: hist_after_def fresh_def room_def Let_def)
  next
    case (PPublish r h)
    have "ring_ok (g\<lparr>rg_head := rg_head g + 1\<rparr>) (hist @ [r])"
      by (rule ring_ok_publish) (use PPublish pk rk len in \<open>auto simp: hist_after_def\<close>)
    moreover have "hist_ok now (hist @ [r])"
      by (rule hist_ok_snoc) (use PPublish pk hk seq in simp_all)
    ultimately show ?thesis
      using PPublish st pk nseq by (auto simp: hist_after_def)
  qed (use st rk hk pk nseq \<open>crit c\<close> in \<open>auto simp: hist_after_def ring_ok_def pending_records_def room_def\<close>)
qed

lemma emit_other:
  assumes st: "trace_emit_step p now c g = (c', g', b)" and "\<not> crit c" and "c \<noteq> PIdle"
  shows "rg_head g' = rg_head g \<and> rg_tail g' = rg_tail g \<and> rg_records g' = rg_records g
    \<and> rg_next_seq g' = rg_next_seq g \<and> hist_after c hist = hist \<and> \<not> has_seq c' \<and> p_ok p now g' hist c'"
  using assms by (cases c) (auto simp: hist_after_def split: if_splits)

lemma emit_tail: "trace_emit_step p now c g = (c', g', b) \<Longrightarrow> rg_tail g' = rg_tail g"
  by (cases c) (auto simp: Let_def split: if_splits)

lemma emit_head: "trace_emit_step p now c g = (c', g', b) \<Longrightarrow> p_ok p now g hist c
    \<Longrightarrow> c_ok g k \<Longrightarrow> ring_ok g hist \<Longrightarrow> length (hist_after c hist) < 2 ^ 64 \<Longrightarrow> c_ok g' k"
proof (cases c)
  case (PPublish r h)
  assume st: "trace_emit_step p now c g = (c', g', b)" and "p_ok p now g hist c" "c_ok g k"
    "ring_ok g hist" "length (hist_after c hist) < 2 ^ 64"
  then have g': "g' = g\<lparr>rg_head := rg_head g + 1\<rparr>" and len: "length hist + 1 < 2 ^ 64"
    using PPublish by (auto simp: hist_after_def)
  have "unat (rg_head g + 1) = Suc (length hist)"
    using \<open>ring_ok g hist\<close> len by (simp add: ring_ok_def unat_word_ariths)
  then have "rg_tail g \<noteq> rg_head g + 1" using \<open>ring_ok g hist\<close> by (auto simp: ring_ok_def)
  then show ?thesis using \<open>c_ok g k\<close> g' by (cases k) auto
qed (cases k; auto simp: Let_def split: if_splits)+

lemma core_emit:
  assumes mx: "mutex_inv s" and inv: "core_inv s" and "ctl s p \<noteq> PIdle"
    and st: "trace_emit_step p (s_clock s) (ctl s p) (s_ring s) = (c, g, b)"
    and s': "s' = s\<lparr>s_ring := g, s_prods := (s_prods s)(p := (s_prods s p)\<lparr>p_ctl := c\<rparr>),
         s_signal := x, s_history := hist_after (ctl s p) (s_history s)\<rparr>"
    and len: "length (s_history s') < 2 ^ 64"
  shows "core_inv s'"
proof -
  let ?now = "s_clock s" and ?hist = "s_history s" and ?hist' = "hist_after (ctl s p) (s_history s)"
  from inv have pk: "\<And>q. p_ok q ?now (s_ring s) ?hist (ctl s q)" and rk: "ring_ok (s_ring s) ?hist"
    and hk: "hist_ok ?now ?hist" and sk: "seq_ok s" and ck: "c_ok (s_ring s) (s_cons s)"
    by (simp_all add: core_inv_def)
  have len': "length ?hist' < 2 ^ 64" using len s' by simp
  have ck': "c_ok g (s_cons s)" by (rule emit_head [OF st pk ck rk len'])
  have ctl': "ctl s' q = (if q = p then c else ctl s q)" for q by (simp add: s')
  show ?thesis
  proof (cases "crit (ctl s p)")
    case True
    have others: "\<not> crit (ctl s q)" if "q \<noteq> p" for q
      using mx True that by (auto simp: mutex_inv_def)
    then have hs: "(\<exists>q. has_seq (ctl s q)) = has_seq (ctl s p)" "(\<exists>q. has_seq (ctl s' q)) = has_seq c"
      using has_seq_crit by (metis, metis ctl')
    from sk hs have "rg_next_seq (s_ring s) = rg_head (s_ring s) + (if has_seq (ctl s p) then 1 else 0)"
      by (simp add: seq_ok_def)
    from emit_core [OF st rk hk pk this len' True] ck' others hs s' show ?thesis
      by (auto simp: core_inv_def seq_ok_def p_ok_not_crit)
  next
    case False
    note o = emit_other [OF st False \<open>ctl s p \<noteq> PIdle\<close>, of ?hist]
    then have hs: "(\<exists>q. has_seq (ctl s' q)) = (\<exists>q. has_seq (ctl s q))"
      using False has_seq_crit by (metis ctl')
    have "p_ok q ?now g ?hist (ctl s q)" for q using pk o p_ok_cong by metis
    then show ?thesis
      using o hs rk hk sk ck' s'
      by (auto simp: core_inv_def seq_ok_def ring_ok_def pending_records_def)
  qed
qed

lemma core_drain:
  assumes inv: "core_inv s" and st: "drain_trace_step (s_cons s) (s_ring s) (s_archive s) = (c, g, a)"
  shows "core_inv (s\<lparr>s_cons := c, s_ring := g, s_archive := a\<rparr>)"
proof (cases "s_cons s")
  case (CStore t)
  from inv have rk: "ring_ok (s_ring s) (s_history s)" and ne: "rg_tail (s_ring s) \<noteq> rg_head (s_ring s)"
    and t: "t = rg_tail (s_ring s) + 1" using CStore by (auto simp: core_inv_def)
  have pk: "p_ok q now (g0\<lparr>rg_tail := rg_tail g0 + 1\<rparr>) hist k"
    if "p_ok q now g0 hist k" and "room (g0\<lparr>rg_tail := rg_tail g0 + 1\<rparr>)" for q now g0 hist k
    using that by (cases k) auto
  from CStore st t inv pk ring_ok_pop(1,5) [OF rk ne] show ?thesis
    by (auto simp: core_inv_def seq_ok_def)
qed (use inv st in \<open>auto simp: core_inv_def seq_ok_def\<close>)

lemma core_tick:
  assumes "core_inv s" and le: "s_clock s \<le> now"
  shows "core_inv (s\<lparr>s_clock := now\<rparr>)"
proof -
  have "p_ok q now g hist k" if "p_ok q (s_clock s) g hist k" for q g hist k
    using that le by (cases k) (auto simp: fresh_def)
  then show ?thesis
    using assms by (auto simp: core_inv_def hist_ok_def seq_ok_def)
qed

lemma history_step: "\<exists>xs. s_history (sys_step th s) = s_history s @ xs"
  by (cases th s rule: sys_step_cases) (auto split: pctl.splits)

lemma core_step:
  assumes mx: "mutex_inv s" and inv: "core_inv s" and len: "length (s_history (sys_step th s)) < 2 ^ 64"
  shows "core_inv (sys_step th s)"
proof (cases th s rule: sys_step_cases)
  case (call p r rs)
  have "has_seq (p_ctl (((s_prods s)(p := (s_prods s p)\<lparr>p_ctl := PLock r, p_todo := rs\<rparr>)) q)) = has_seq (ctl s q)" for q
    using call by simp
  then show ?thesis using call inv by (auto simp: core_inv_def seq_ok_def)
next
  case (emit p c g b)
  from emit(1,2) show ?thesis
    by (rule core_emit [OF mx inv]) (use emit len in \<open>simp_all add: hist_after_def\<close>)
next
  case (drain c g a)
  then show ?thesis using core_drain [OF inv drain(2)] by simp
next
  case (tick d)
  have "s_clock s \<le> s_clock s + of_nat d"
    using tick(1) by (simp add: word_le_nat_alt unat_add_of_nat)
  then show ?thesis using tick core_tick [OF inv] by simp
qed (use inv in \<open>simp_all add: core_inv_def seq_ok_def\<close>)

lemma reach_core: "reach progs t0 s \<Longrightarrow> length (s_history s) < 2 ^ 64 \<Longrightarrow> core_inv s"
proof (induction rule: reach.induct)
  case reach_init
  show ?case by (rule core_init)
next
  case (reach_step s th)
  obtain xs where "s_history (sys_step th s) = s_history s @ xs" using history_step by blast
  then have "length (s_history s) < 2 ^ 64" using reach_step.prems by simp
  with reach_step show ?case using core_step reach_mutex by blast
qed

section \<open>Nothing lost, nothing reordered\<close>

text \<open>
  \<open>eff_tail\<close> is the tracer's own view of \<open>tail\<close>: between archiving a record and storing the advanced counter it
  is one ahead of the ring.
\<close>

definition eff_tail :: "sys \<Rightarrow> u64" where
  "eff_tail s = (case s_cons s of CStore t \<Rightarrow> t | _ \<Rightarrow> rg_tail (s_ring s))"

definition archive_inv :: "sys \<Rightarrow> bool" where
  "archive_inv s \<longleftrightarrow> s_archive s
     = foldl archive_record empty_archive (take (unat (eff_tail s)) (s_history s))"

lemma eff_tail_le:
  assumes "core_inv s" shows "unat (eff_tail s) \<le> length (s_history s)"
proof (cases "s_cons s")
  case (CStore t)
  from assms have rk: "ring_ok (s_ring s) (s_history s)" and ne: "rg_tail (s_ring s) \<noteq> rg_head (s_ring s)"
    and t: "t = rg_tail (s_ring s) + 1" using CStore by (auto simp: core_inv_def)
  from ring_ok_pop(2,3) [OF rk ne] CStore t show ?thesis by (simp add: eff_tail_def)
qed (use assms in \<open>simp_all add: eff_tail_def core_inv_def ring_ok_def\<close>)

lemma archive_drain:
  assumes core: "core_inv s" and inv: "archive_inv s"
    and st: "drain_trace_step (s_cons s) (s_ring s) (s_archive s) = (c, g, a)"
  shows "archive_inv (s\<lparr>s_cons := c, s_ring := g, s_archive := a\<rparr>)"
proof (cases "s_cons s")
  case (CArchive t)
  from core have rk: "ring_ok (s_ring s) (s_history s)" and ne: "rg_tail (s_ring s) \<noteq> rg_head (s_ring s)"
    and t: "t = rg_tail (s_ring s)" using CArchive by (auto simp: core_inv_def)
  note pop = ring_ok_pop [OF rk ne]
  have "take (Suc (unat t)) (s_history s) = take (unat t) (s_history s) @ [rg_records (s_ring s) (ring_slot t)]"
    using pop(3,4) t by (simp add: take_Suc_conv_app_nth)
  then show ?thesis
    using CArchive st inv t pop(2) by (auto simp: archive_inv_def eff_tail_def)
qed (use inv st in \<open>auto simp: archive_inv_def eff_tail_def\<close>)

lemma archive_step:
  assumes core: "core_inv s" and inv: "archive_inv s"
  shows "archive_inv (sys_step th s)"
proof (cases th s rule: sys_step_cases)
  case (emit p c g b)
  obtain xs where "s_history (sys_step th s) = s_history s @ xs" using history_step by blast
  then show ?thesis
    using emit inv eff_tail_le [OF core] emit_tail [OF emit(2)]
    by (auto simp: archive_inv_def eff_tail_def split: cctl.splits)
next
  case (drain c g a)
  then show ?thesis using archive_drain [OF core inv drain(2)] by simp
qed (use inv in \<open>auto simp: archive_inv_def eff_tail_def split: cctl.splits\<close>)

lemma reach_archive: "reach progs t0 s \<Longrightarrow> length (s_history s) < 2 ^ 64 \<Longrightarrow> archive_inv s"
proof (induction rule: reach.induct)
  case reach_init
  show ?case by (simp add: archive_inv_def sys_init_def eff_tail_def empty_ring_def)
next
  case (reach_step s th)
  obtain xs where "s_history (sys_step th s) = s_history s @ xs" using history_step by blast
  then have "length (s_history s) < 2 ^ 64" using reach_step.prems by simp
  with reach_step show ?case using archive_step reach_core by blast
qed

text \<open>
  What a producer has published, is holding, and still has to emit is its program: \<open>strip\<close> drops the three
  fields \<open>trace_emit\<close> fills in.
\<close>

definition strip :: "trace_record \<Rightarrow> trace_record" where
  "strip r = r\<lparr>tr_seq := 0, tr_time := 0, tr_producer := 0\<rparr>"

fun inflight :: "pctl \<Rightarrow> trace_record list" where
  "inflight PIdle = []"
| "inflight PUnlock = []"
| "inflight PNotify = []"
| "inflight (PLock r) = [r]"
| "inflight (PSpin r) = [r]"
| "inflight (PHead r) = [r]"
| "inflight (PWait r h) = [r]"
| "inflight (PFull r h) = [r]"
| "inflight (PSeq r h) = [r]"
| "inflight (PTime r h) = [r]"
| "inflight (PStore r h) = [r]"
| "inflight (PPublish r h) = [r]"

definition published :: "u8 \<Rightarrow> sys \<Rightarrow> trace_record list" where
  "published p s = map strip (filter (\<lambda>r. tr_producer r = p) (s_history s))"

definition remaining :: "u8 \<Rightarrow> sys \<Rightarrow> trace_record list" where
  "remaining p s = map strip (inflight (ctl s p) @ p_todo (s_prods s p))"

definition order_inv :: "(u8 \<Rightarrow> trace_record list) \<Rightarrow> sys \<Rightarrow> bool" where
  "order_inv progs s \<longleftrightarrow> (\<forall>p. published p s @ remaining p s = map strip (progs p))
     \<and> (\<forall>p r h. ctl s p = PPublish r h \<longrightarrow> tr_producer r = p)"

lemma emit_inflight:
  assumes "trace_emit_step p now c g = (c', g', b)" and "\<And>r h. c = PPublish r h \<Longrightarrow> tr_producer r = p"
  shows "map strip (filter (\<lambda>r. tr_producer r = q) (hist_after c hist))
      @ (if q = p then map strip (inflight c') else xs)
    = map strip (filter (\<lambda>r. tr_producer r = q) hist) @ (if q = p then map strip (inflight c) else xs)"
  using assms by (cases c) (auto simp: hist_after_def strip_def Let_def split: if_splits)

lemma emit_publish_producer:
  "trace_emit_step p now c g = (PPublish r h, g', b) \<Longrightarrow> tr_producer r = p"
  by (cases c) (auto simp: Let_def split: if_splits)

lemma order_step: "order_inv progs s \<Longrightarrow> order_inv progs (sys_step th s)"
proof (cases th s rule: sys_step_cases)
  case (call p r rs)
  assume inv: "order_inv progs s"
  have "remaining q (sys_step th s) = remaining q s" for q
    using call by (simp add: remaining_def)
  then show ?thesis using call inv by (auto simp: order_inv_def published_def)
next
  case (emit p c g b)
  assume inv: "order_inv progs s"
  then have pub: "\<And>r h. ctl s p = PPublish r h \<Longrightarrow> tr_producer r = p" by (simp add: order_inv_def)
  have "published q (sys_step th s) @ remaining q (sys_step th s) = published q s @ remaining q s" for q
    using emit_inflight [OF emit(2) pub, where q = q and hist = "s_history s" and xs = "map strip (inflight (ctl s q))"] emit
    by (auto simp: published_def remaining_def hist_after_def)
  then show ?thesis
    using inv emit emit_publish_producer by (auto simp: order_inv_def)
qed (auto simp: order_inv_def published_def remaining_def)

lemma reach_order: "reach progs t0 s \<Longrightarrow> order_inv progs s"
  by (induction rule: reach.induct)
    (simp_all add: order_step, simp add: order_inv_def published_def remaining_def sys_init_def)

section \<open>Progress\<close>

text \<open>
  No wakeup is lost: if records are waiting while the tracer sits in its event loop without a
  pending notification, some producer has published and is about to notify.
\<close>

definition wake_inv :: "sys \<Rightarrow> bool" where
  "wake_inv s \<longleftrightarrow> rg_tail (s_ring s) \<noteq> rg_head (s_ring s) \<and> s_cons s = CIdle \<and> \<not> s_signal s
     \<longrightarrow> (\<exists>p. ctl s p = PUnlock \<or> ctl s p = PNotify)"

lemma emit_wake:
  assumes "trace_emit_step p now c g = (c', g', b)" and "c \<noteq> PIdle"
  shows "c' = PUnlock \<or> c' = PNotify \<or> b \<or> (rg_head g' = rg_head g \<and> c \<noteq> PUnlock \<and> c \<noteq> PNotify)"
  using assms by (cases c) (auto simp: Let_def split: if_splits)

lemma wake_step: "core_inv s \<Longrightarrow> wake_inv s \<Longrightarrow> wake_inv (sys_step th s)"
proof (cases th s rule: sys_step_cases)
  case (call p r rs)
  assume "wake_inv s"
  then show ?thesis using call by (auto simp: wake_inv_def) (metis pctl.distinct)+
next
  case (emit p c g b)
  assume inv: "wake_inv s"
  from emit_wake [OF emit(2,1)] consider (now) "c = PUnlock \<or> c = PNotify" | (sig) b
    | (old) "rg_head g = rg_head (s_ring s)" "ctl s p \<noteq> PUnlock" "ctl s p \<noteq> PNotify" by blast
  then show ?thesis
  proof cases
    case now
    then show ?thesis using emit by (auto simp: wake_inv_def)
  next
    case sig
    then show ?thesis using emit by (auto simp: wake_inv_def)
  next
    case old
    have "(ctl s q = PUnlock \<or> ctl s q = PNotify) \<Longrightarrow> q \<noteq> p" for q using old by auto
    then show ?thesis
      using inv emit old emit_tail [OF emit(2)] unfolding wake_inv_def by simp metis
  qed
next
  case (drain c g a)
  assume "core_inv s" "wake_inv s"
  then show ?thesis using drain by (cases "s_cons s") (auto simp: wake_inv_def core_inv_def split: if_splits)
qed (auto simp: wake_inv_def)

lemma reach_wake: "reach progs t0 s \<Longrightarrow> length (s_history s) < 2 ^ 64 \<Longrightarrow> wake_inv s"
proof (induction rule: reach.induct)
  case reach_init
  show ?case by (simp add: wake_inv_def sys_init_def empty_ring_def)
next
  case (reach_step s th)
  obtain xs where "s_history (sys_step th s) = s_history s @ xs" using history_step by blast
  then have "length (s_history s) < 2 ^ 64" using reach_step.prems by simp
  with reach_step show ?case using wake_step reach_core by blast
qed

text \<open>The work left: ten units per producer step, four per record the tracer has not taken.\<close>

fun pweight :: "pctl \<Rightarrow> nat" where
  "pweight PIdle = 0"
| "pweight PNotify = 1"
| "pweight PUnlock = 2"
| "pweight (PPublish r h) = 3"
| "pweight (PStore r h) = 4"
| "pweight (PTime r h) = 5"
| "pweight (PSeq r h) = 6"
| "pweight (PWait r h) = 7"
| "pweight (PFull r h) = 8"
| "pweight (PHead r) = 9"
| "pweight (PLock r) = 10"
| "pweight (PSpin r) = 11"

fun cweight :: "cctl \<Rightarrow> nat" where
  "cweight CIdle = 0"
| "cweight CTail = 2"
| "cweight (CHead t) = 1"
| "cweight (CArchive t) = 0"
| "cweight (CStore t) = 2"

definition pwork :: "prod \<Rightarrow> nat" where
  "pwork p = pweight (p_ctl p) + 11 * length (p_todo p)"

definition work :: "sys \<Rightarrow> nat" where
  "work s = 10 * (\<Sum>p\<in>UNIV. pwork (s_prods s p))
     + 4 * (length (s_history s) - unat (eff_tail s)) + cweight (s_cons s) + (if s_signal s then 3 else 0)"

lemma sum_upd:
  fixes f :: "prod \<Rightarrow> nat" and m :: "u8 \<Rightarrow> prod"
  shows "(\<Sum>q\<in>UNIV. f ((m(p := x)) q)) + f (m p) = (\<Sum>q\<in>UNIV. f (m q)) + f x"
proof -
  have "(\<Sum>q\<in>UNIV. f ((m(p := x)) q)) = f x + (\<Sum>q\<in>UNIV - {p}. f ((m(p := x)) q))"
    by (subst sum.remove [of _ p]) simp_all
  also have "(\<Sum>q\<in>UNIV - {p}. f ((m(p := x)) q)) = (\<Sum>q\<in>UNIV - {p}. f (m q))"
    by (rule sum.cong) auto
  finally show ?thesis by (subst (2) sum.remove [of _ p]) simp_all
qed

lemma work_emit:
  assumes core: "core_inv s"
    and st: "trace_emit_step p (s_clock s) (ctl s p) (s_ring s) = (c, g, b)" and ni: "ctl s p \<noteq> PIdle"
    and dec: "pweight c < pweight (ctl s p)"
  shows "work (sys_step (Producer p) s) < work s"
proof -
  let ?s = "sys_step (Producer p) s"
  have s': "?s = s\<lparr>s_ring := g, s_prods := (s_prods s)(p := (s_prods s p)\<lparr>p_ctl := c\<rparr>),
         s_signal := (s_signal s \<or> b), s_history := hist_after (ctl s p) (s_history s)\<rparr>"
    using st ni by (simp add: prod_step_def Let_def hist_after_def)
  have "eff_tail ?s = eff_tail s"
    using s' emit_tail [OF st] by (simp add: eff_tail_def split: cctl.splits)
  moreover have "length (s_history ?s) \<le> Suc (length (s_history s))"
    using s' by (simp add: hist_after_def split: pctl.splits)
  moreover have "(\<Sum>q\<in>UNIV. pwork (s_prods ?s q)) < (\<Sum>q\<in>UNIV. pwork (s_prods s q))"
    using sum_upd [of pwork "s_prods s" p "(s_prods s p)\<lparr>p_ctl := c\<rparr>"] dec s'
    by (simp add: pwork_def)
  moreover have "cweight (s_cons ?s) = cweight (s_cons s)" using s' by simp
  moreover have "(if s_signal ?s then 3 else 0) \<le> (3::nat)" by simp
  ultimately show ?thesis unfolding work_def by (simp split: if_splits) 
qed

lemma work_cons:
  assumes core: "core_inv s" and act: "s_cons s \<noteq> CIdle \<or> s_signal s"
  shows "work (sys_step Tracer s) < work s"
proof (cases "s_cons s")
  case CIdle
  with act show ?thesis by (simp add: cons_step_def work_def eff_tail_def)
next
  case (CArchive t)
  from core have rk: "ring_ok (s_ring s) (s_history s)" and ne: "rg_tail (s_ring s) \<noteq> rg_head (s_ring s)"
    and t: "t = rg_tail (s_ring s)" using CArchive by (auto simp: core_inv_def)
  from ring_ok_pop(2,3) [OF rk ne] CArchive t show ?thesis
    by (simp add: cons_step_def work_def eff_tail_def)
next
  case (CStore t)
  with core show ?thesis by (simp add: cons_step_def work_def eff_tail_def)
qed (simp_all add: cons_step_def work_def eff_tail_def)

definition finished :: "sys \<Rightarrow> bool" where
  "finished s \<longleftrightarrow> (\<forall>p. ctl s p = PIdle \<and> p_todo (s_prods s p) = []) \<and> s_cons s = CIdle
     \<and> rg_tail (s_ring s) = rg_head (s_ring s)"

lemma work_call:
  assumes "ctl s p = PIdle" and "p_todo (s_prods s p) = r # rs"
  shows "work (sys_step (Producer p) s) < work s"
proof -
  let ?x = "(s_prods s p)\<lparr>p_ctl := PLock r, p_todo := rs\<rparr>"
  have "sys_step (Producer p) s = s\<lparr>s_prods := (s_prods s)(p := ?x)\<rparr>"
    using assms by (simp add: prod_step_def)
  then show ?thesis
    using assms sum_upd [of pwork "s_prods s" p ?x]
    by (simp add: work_def eff_tail_def pwork_def split: cctl.splits)
qed

lemma work_producer:
  assumes core: "core_inv s" and ni: "ctl s p \<noteq> PIdle"
    and dec: "pweight (fst (trace_emit_step p (s_clock s) (ctl s p) (s_ring s))) < pweight (ctl s p)"
  shows "\<exists>th. work (sys_step th s) < work s"
  using work_emit [OF core _ ni, of "fst (trace_emit_step p (s_clock s) (ctl s p) (s_ring s))"] dec
  by (metis prod.collapse)

lemma progress:
  assumes mx: "mutex_inv s" and core: "core_inv s" and wake: "wake_inv s" and nf: "\<not> finished s"
  shows "\<exists>th. work (sys_step th s) < work s"
proof (cases "s_cons s \<noteq> CIdle \<or> s_signal s")
  case True
  then show ?thesis using work_cons [OF core] by blast
next
  case idle: False
  have waiting: "\<exists>th. work (sys_step th s) < work s" if "ctl s p = PNotify" for p
    by (rule work_producer [OF core, of p]) (use that in simp_all)
  show ?thesis
  proof (cases "\<exists>p. crit (ctl s p)")
    case True
    then obtain p where p: "crit (ctl s p)" by blast
    show ?thesis
    proof (cases "\<exists>r h. ctl s p = PWait r h \<and> of_nat TRACE_RING_CAPACITY \<le> h - rg_tail (s_ring s)")
      case True
      then obtain r h where pw: "ctl s p = PWait r h" and full: "of_nat TRACE_RING_CAPACITY \<le> h - rg_tail (s_ring s)"
        by blast
      then have "h = rg_head (s_ring s)" using core by (auto simp: core_inv_def dest: spec [of _ p])
      with full have "rg_tail (s_ring s) \<noteq> rg_head (s_ring s)"
        by (auto simp: word_le_nat_alt ring_capacity_value)
      with wake idle obtain q where q: "ctl s q = PUnlock \<or> ctl s q = PNotify" by (auto simp: wake_inv_def)
      have "ctl s q \<noteq> PUnlock"
      proof
        assume "ctl s q = PUnlock"
        then have "q = p" using mx p by (auto simp: mutex_inv_def)
        with \<open>ctl s q = PUnlock\<close> pw show False by simp
      qed
      with q waiting show ?thesis by blast
    next
      case False
      show ?thesis
        by (rule work_producer [OF core, of p])
          (use p False in \<open>cases "ctl s p"; auto simp: Let_def\<close>)+
    qed
  next
    case False
    then have lock: "rg_producer_lock (s_ring s) = 0" using mx by (simp add: mutex_inv_def)
    show ?thesis
    proof (cases "\<exists>p. ctl s p \<noteq> PIdle")
      case True
      then obtain p where p: "ctl s p \<noteq> PIdle" by blast
      moreover have "\<not> crit (ctl s p)" using \<open>\<not> (\<exists>p. crit (ctl s p))\<close> by blast
      ultimately show ?thesis
        by (intro work_producer [OF core, of p]) (use lock in \<open>cases "ctl s p"; auto\<close>)+
    next
      case all_idle: False
      show ?thesis
      proof (cases "\<exists>p. p_todo (s_prods s p) \<noteq> []")
        case True
        then obtain p r rs where "p_todo (s_prods s p) = r # rs" by (meson neq_Nil_conv)
        then show ?thesis using work_call all_idle by blast
      next
        case False
        with nf all_idle idle have "rg_tail (s_ring s) \<noteq> rg_head (s_ring s)" by (auto simp: finished_def)
        with wake idle all_idle show ?thesis by (auto simp: wake_inv_def)
      qed
    qed
  qed
qed

lemma take_upt_min: "take n [0..<m] = [0..<min m n]"
  by (cases "n \<le> m") (simp_all add: min_def)

lemma length_partition: "length xs = (\<Sum>p\<in>UNIV. length (filter (\<lambda>r. f r = p) xs))"
  for f :: "'a \<Rightarrow> u8"
proof (induction xs)
  case (Cons x xs)
  have "(\<Sum>p\<in>UNIV. length (filter (\<lambda>r. f r = p) (x # xs)))
      = (\<Sum>p\<in>UNIV. (if f x = p then 1 else 0) + length (filter (\<lambda>r. f r = p) xs))"
    by (rule sum.cong) simp_all
  also have "\<dots> = (\<Sum>p\<in>UNIV. if f x = p then 1 else 0) + (\<Sum>p\<in>UNIV. length (filter (\<lambda>r. f r = p) xs))"
    by (rule sum.distrib)
  also have "(\<Sum>p\<in>UNIV. if f x = p then 1 else 0) = (1::nat)"
    by (simp add: sum.delta)
  finally show ?case using Cons by simp
qed simp

lemma history_bound:
  assumes "reach progs t0 s"
  shows "length (s_history s) \<le> (\<Sum>p\<in>UNIV. length (progs p))"
proof -
  have "length (published p s) \<le> length (progs p)" for p
    using reach_order [OF assms] unfolding order_inv_def by (metis le_add1 length_append length_map)
  then have "(\<Sum>p\<in>UNIV. length (published p s)) \<le> (\<Sum>p\<in>UNIV. length (progs p))" by (intro sum_mono)
  then show ?thesis using length_partition [of "s_history s" tr_producer] by (simp add: published_def)
qed

lemma completes:
  assumes "reach progs t0 s" and "(\<Sum>p\<in>UNIV. length (progs p)) < 2 ^ 64"
  shows "\<exists>ths. finished (sys_run ths s)"
  using assms(1)
proof (induction "work s" arbitrary: s rule: less_induct)
  case less
  have len: "length (s_history s) < 2 ^ 64" using history_bound [OF less.prems] assms(2) by simp
  show ?case
  proof (cases "finished s")
    case True
    then have "finished (sys_run [] s)" by (simp add: sys_run_def)
    then show ?thesis by blast
  next
    case False
    obtain th where "work (sys_step th s) < work s"
      using progress [OF reach_mutex reach_core reach_wake False] less.prems len by blast
    then obtain ths where "finished (sys_run ths (sys_step th s))"
      using less.hyps reach_step [OF less.prems] by blast
    then have "finished (sys_run (th # ths) s)" by (simp add: sys_run_def)
    then show ?thesis by blast
  qed
qed

lemma reach_sys_run: "reach progs t0 s \<Longrightarrow> reach progs t0 (sys_run ths s)"
  by (induction ths rule: rev_induct) (simp_all add: sys_run_def reach_step)

section \<open>Properties\<close>

text \<open>A concrete run for the witnesses: the VMM emits a record while \<open>uartrx\<close> waits for the lock; the tracer archives it.\<close>

definition demo_progs :: "u8 \<Rightarrow> trace_record list" where
  "demo_progs p = (if p = 0 then [zero_record\<lparr>tr_kind := 6, tr_addr := 1\<rparr>]
     else if p = 1 then [zero_record\<lparr>tr_kind := 5, tr_value := 1\<rparr>] else [])"

definition demo_sched :: "thread list" where
  "demo_sched = [Producer 0, Producer 1, Producer 0, Producer 1, Producer 0, Producer 0, Producer 0,
     Tick 3, Producer 0, Producer 0, Producer 0, Producer 0, Producer 0, Tracer, Tracer, Tracer, Tracer]"

definition demo :: sys where
  "demo = sys_run demo_sched (sys_init demo_progs 100)"

lemmas run_simps = demo_def demo_sched_def demo_progs_def sys_run_def sys_init_def empty_ring_def
  prod_step_def cons_step_def ring_slot_def ring_idx_def ring_capacity_value archive_record_def
  empty_archive_def archive_capacity_value zero_record_def eff_tail_def

lemma demo_reach: "reach demo_progs 100 demo"
  unfolding demo_def by (rule reach_run)

lemma demo_history: "map (\<lambda>r. (tr_seq r, tr_time r, tr_producer r, tr_kind r)) (s_history demo)
    = [(0, 103, 0, 6)]"
  by (simp add: run_simps)

lemma demo_length: "length (s_history demo) < 2 ^ 64"
proof -
  have "length (s_history demo) = 1" using arg_cong [OF demo_history, of length] by simp
  then show ?thesis by simp
qed

lemma archive_prefix:
  assumes "reach progs t0 s" and "length (s_history s) < 2 ^ 64"
  shows "archived (s_archive s) = take TRACE_ARCHIVE_CAPACITY (take (unat (eff_tail s)) (s_history s))"
    and "unat (ar_not_archived (s_archive s)) = unat (eff_tail s) - TRACE_ARCHIVE_CAPACITY"
proof -
  have "unat (eff_tail s) \<le> length (s_history s)" by (rule eff_tail_le [OF reach_core [OF assms]])
  moreover have "s_archive s = foldl archive_record empty_archive (take (unat (eff_tail s)) (s_history s))"
    using reach_archive [OF assms] by (simp add: archive_inv_def)
  ultimately show "archived (s_archive s) = take TRACE_ARCHIVE_CAPACITY (take (unat (eff_tail s)) (s_history s))"
    and "unat (ar_not_archived (s_archive s)) = unat (eff_tail s) - TRACE_ARCHIVE_CAPACITY"
    using archive_fold [of "take (unat (eff_tail s)) (s_history s)"] assms(2) by simp_all
qed

lemma ring_holds_rest:
  assumes "reach progs t0 s" and "length (s_history s) < 2 ^ 64"
  shows "pending_records (s_ring s) (eff_tail s) = drop (unat (eff_tail s)) (s_history s)"
proof -
  from assms have core: "core_inv s" by (rule reach_core)
  show ?thesis
  proof (cases "s_cons s")
    case (CStore t)
    with core have rk: "ring_ok (s_ring s) (s_history s)" and ne: "rg_tail (s_ring s) \<noteq> rg_head (s_ring s)"
      and "t = rg_tail (s_ring s) + 1" by (auto simp: core_inv_def)
    with ring_ok_pop(1) [OF rk ne] CStore show ?thesis
      by (simp add: eff_tail_def ring_ok_def pending_records_def)
  qed (use core in \<open>simp_all add: eff_tail_def core_inv_def ring_ok_def\<close>)
qed

text \<open>
  C1. Nothing is lost without a trace: at every moment of every interleaving, the records published so far are those the tracer
  has taken from the ring, in the order of publication, followed by those still in it.  Of the records taken, the archive holds the
  first, up to its capacity, and counts each of the others in \<open>not_archived\<close>.  (Publications are counted by a 64-bit
  counter; the bound says it has not wrapped.)
\<close>

theorem trace_nothing_lost:
  assumes "reach progs t0 s" and "length (s_history s) < 2 ^ 64"
  shows "\<exists>taken. s_history s = taken @ pending_records (s_ring s) (eff_tail s)
    \<and> length taken = unat (eff_tail s)
    \<and> archived (s_archive s) = take TRACE_ARCHIVE_CAPACITY taken
    \<and> unat (ar_not_archived (s_archive s)) = length taken - TRACE_ARCHIVE_CAPACITY"
  using archive_prefix [OF assms] ring_holds_rest [OF assms] eff_tail_le [OF reach_core [OF assms]]
  by (intro exI [of _ "take (unat (eff_tail s)) (s_history s)"]) simp

theorem trace_nothing_lost_witness:
  "archived (s_archive demo) = s_history demo \<and> length (s_history demo) = 1 \<and> ar_not_archived (s_archive demo) = 0
    \<and> pending_records (s_ring demo) (eff_tail demo) = []"
proof -
  have len: "length (s_history demo) = 1" using arg_cong [OF demo_history, of length] by simp
  have t: "unat (eff_tail demo) = 1" by (simp add: run_simps)
  from trace_nothing_lost [OF demo_reach demo_length] obtain taken where
    h: "s_history demo = taken @ pending_records (s_ring demo) (eff_tail demo)" "length taken = 1"
    and ar: "archived (s_archive demo) = take TRACE_ARCHIVE_CAPACITY taken"
      "unat (ar_not_archived (s_archive demo)) = length taken - TRACE_ARCHIVE_CAPACITY" unfolding t by blast
  have "pending_records (s_ring demo) (eff_tail demo) = []" using arg_cong [OF h(1), of length] h(2) len by simp
  then show ?thesis using h ar len by (simp add: archive_capacity_value unat_eq_0)
qed

text \<open>
  C8. The global sequence: the published records carry \<open>seq\<close> 0, 1, 2, \<dots> without a gap, across all producers,
  and their timestamps never decrease as \<open>seq\<close> increases.
\<close>

theorem trace_seq_gapless:
  assumes "reach progs t0 s" and "length (s_history s) < 2 ^ 64"
  shows "map tr_seq (s_history s) = map of_nat [0..<length (s_history s)]
    \<and> sorted (map tr_time (s_history s))"
  using reach_core [OF assms] by (simp add: core_inv_def hist_ok_def)

theorem trace_seq_gapless_witness:
  "map tr_seq (s_history demo) = [0] \<and> sorted (map tr_time (s_history demo))"
proof -
  have "length (s_history demo) = 1" using arg_cong [OF demo_history, of length] by simp
  then show ?thesis using trace_seq_gapless [OF demo_reach demo_length] by simp
qed

text \<open>
  Mutual exclusion: at most one producer is between taking and releasing \<open>producer_lock\<close>, and the lock word
  is non-zero exactly while one is.
\<close>

theorem producer_mutual_exclusion:
  assumes "reach progs t0 s" and "crit (ctl s p)" and "crit (ctl s q)"
  shows "p = q \<and> rg_producer_lock (s_ring s) \<noteq> 0"
  using reach_mutex [OF assms(1)] assms(2,3) by (auto simp: mutex_inv_def)

definition demo_crit :: sys where
  "demo_crit = sys_run [Producer 0, Producer 1, Producer 0, Producer 1] (sys_init demo_progs 100)"

theorem producer_mutual_exclusion_witness:
  "crit (ctl demo_crit 0) \<and> \<not> crit (ctl demo_crit 1) \<and> rg_producer_lock (s_ring demo_crit) \<noteq> 0"
proof -
  have c: "crit (ctl demo_crit 0)" and n: "\<not> crit (ctl demo_crit 1)"
    by (simp_all add: demo_crit_def run_simps)
  have "reach demo_progs 100 demo_crit" unfolding demo_crit_def by (rule reach_run)
  from producer_mutual_exclusion [OF this c c] c n show ?thesis by simp
qed

text \<open>
  Each producer's records appear in the trace in the order its program emitted them, unchanged but for
  the three fields \<open>trace_emit\<close> fills in: published, in-flight and future records together are the program.
\<close>

theorem producer_order_preserved:
  assumes "reach progs t0 s"
  shows "published p s @ remaining p s = map strip (progs p)"
  using reach_order [OF assms] by (simp add: order_inv_def)

theorem producer_order_preserved_witness:
  "published 0 demo = map strip (demo_progs 0) \<and> remaining 1 demo = map strip (demo_progs 1)"
  using producer_order_preserved [OF demo_reach, of 0] producer_order_preserved [OF demo_reach, of 1]
  by (simp add: run_simps published_def remaining_def)

text \<open>
  C9. The ring never holds more than its capacity, and a producer about to store its record writes a slot
  that holds none of the records the tracer has not yet taken.
\<close>

theorem ring_never_overwritten:
  assumes "reach progs t0 s" and "length (s_history s) + 1 < 2 ^ 64" and "ctl s p = PStore r h"
  shows "unat (rg_head (s_ring s) - rg_tail (s_ring s)) < TRACE_RING_CAPACITY
    \<and> ring_slot h \<notin> (\<lambda>k. ring_slot (rg_tail (s_ring s) + of_nat k)) ` {..<unat (rg_head (s_ring s) - rg_tail (s_ring s))}"
proof -
  let ?g = "s_ring s"
  let ?n = "unat (rg_head ?g - rg_tail ?g)"
  have core: "core_inv s" using assms(1,2) reach_core by simp
  have pk: "p_ok p (s_clock s) ?g (s_history s) (PStore r h)"
    using core assms(3) by (auto simp: core_inv_def dest: spec [of _ p])
  from core have rk: "ring_ok ?g (s_history s)" by (simp add: core_inv_def)
  have cnt: "?n = length (s_history s) - unat (rg_tail ?g)" using rk by (rule ring_ok_count)
  have reg: "regular TRACE_RING_CAPACITY (rg_tail ?g) (Suc ?n)"
    using rk assms(2) by (simp add: regular_def ring_capacity_value ring_ok_def cnt)
  have h: "h = rg_tail ?g + of_nat ?n" using pk by simp
  have "ring_slot h \<noteq> ring_slot (rg_tail ?g + of_nat k)" if "k < ?n" for k
    unfolding h ring_slot_def
    by (rule ring_idx_neq [OF reg that, THEN not_sym]) (use pk in \<open>simp_all add: room_def less_imp_diff_less\<close>)
  then have "ring_slot h \<notin> (\<lambda>k. ring_slot (rg_tail ?g + of_nat k)) ` {..<?n}" by blast
  then show ?thesis using pk by (simp add: room_def)
qed

definition demo_store :: sys where
  "demo_store = sys_run [Producer 0, Producer 0, Producer 0, Producer 0, Producer 0, Producer 0] (sys_init demo_progs 100)"

theorem ring_never_overwritten_witness:
  "\<exists>r h. ctl demo_store 0 = PStore r h
    \<and> unat (rg_head (s_ring demo_store) - rg_tail (s_ring demo_store)) < TRACE_RING_CAPACITY"
proof -
  have "\<exists>r h. ctl demo_store 0 = PStore r h" and len: "length (s_history demo_store) + 1 < 2 ^ 64"
    by (simp_all add: demo_store_def run_simps)
  then obtain r h where st: "ctl demo_store 0 = PStore r h" by blast
  have "reach demo_progs 100 demo_store" unfolding demo_store_def by (rule reach_run)
  from ring_never_overwritten [OF this len st] st show ?thesis by blast
qed

lemma finished_archive:
  assumes "finished s" and "reach progs t0 s" and "length (s_history s) < 2 ^ 64"
  shows "archived (s_archive s) = take TRACE_ARCHIVE_CAPACITY (s_history s)"
    and "unat (ar_not_archived (s_archive s)) = length (s_history s) - TRACE_ARCHIVE_CAPACITY"
proof -
  have "s_cons s = CIdle" "rg_tail (s_ring s) = rg_head (s_ring s)" using assms(1) by (simp_all add: finished_def)
  then have "unat (eff_tail s) = length (s_history s)"
    using reach_core [OF assms(2,3)] by (simp add: eff_tail_def core_inv_def ring_ok_def)
  then show "archived (s_archive s) = take TRACE_ARCHIVE_CAPACITY (s_history s)"
    and "unat (ar_not_archived (s_archive s)) = length (s_history s) - TRACE_ARCHIVE_CAPACITY"
    using archive_prefix [OF assms(2,3)] by simp_all
qed

lemma finished_published: "finished s \<Longrightarrow> reach progs t0 s \<Longrightarrow> published p s = map strip (progs p)"
  using reach_order [of progs t0 s] by (simp add: finished_def order_inv_def remaining_def)

text \<open>
  C12. The ring does not deadlock: from every reachable state the producers and the tracer can run on until every record of every
  program is published, in its producer's order, and the ring is empty; the archive then holds the first of them, up to its
  capacity, and counts the others in \<open>not_archived\<close>.
\<close>

theorem trace_system_completes:
  assumes "reach progs t0 s" and "(\<Sum>p\<in>UNIV. length (progs p)) < 2 ^ 64"
  shows "\<exists>ths s'. s' = sys_run ths s \<and> finished s' \<and> (\<forall>p. published p s' = map strip (progs p))
    \<and> archived (s_archive s') = take TRACE_ARCHIVE_CAPACITY (s_history s')
    \<and> unat (ar_not_archived (s_archive s')) = length (s_history s') - TRACE_ARCHIVE_CAPACITY"
proof -
  obtain ths where fin: "finished (sys_run ths s)" using completes [OF assms] by blast
  have r: "reach progs t0 (sys_run ths s)" by (rule reach_sys_run [OF assms(1)])
  have "length (s_history (sys_run ths s)) < 2 ^ 64" using history_bound [OF r] assms(2) by simp
  from finished_archive [OF fin r this] finished_published [OF fin r] fin show ?thesis by blast
qed

theorem trace_system_completes_witness:
  "\<exists>ths s'. s' = sys_run ths demo \<and> finished s' \<and> (\<forall>p. published p s' = map strip (demo_progs p))
    \<and> archived (s_archive s') = s_history s'"
proof -
  have "length (demo_progs p) = (if p = 0 then 1 else 0) + (if p = 1 then 1 else 0)" for p
    by (simp add: demo_progs_def)
  then have two: "(\<Sum>p\<in>UNIV. length (demo_progs p)) = 2" by (simp add: sum.distrib)
  then obtain ths where t: "finished (sys_run ths demo)" "\<forall>p. published p (sys_run ths demo) = map strip (demo_progs p)"
    "archived (s_archive (sys_run ths demo)) = take TRACE_ARCHIVE_CAPACITY (s_history (sys_run ths demo))"
    using trace_system_completes [OF demo_reach] by auto
  moreover have "length (s_history (sys_run ths demo)) \<le> 2"
    using history_bound [OF reach_sys_run [OF demo_reach]] two by metis
  ultimately show ?thesis by (auto simp: archive_capacity_value)
qed

end
