(* ===== verification/Tracer.thy ===== *)
theory Tracer
  imports Console_Ring Trace_Producer
begin

text \<open>
  The tracer protection domain (\<^verbatim>\<open>tracer/tracer.c\<close>), the only writer of trace dumps on the serial line.  Its
  state is the static variables of the file and the rings it maps; \<open>tc_out\<close> is what it has sent to the
  kernel's debug console, \<open>tc_fbcon_signals\<close> how often it has notified the panel driver.  Writing past
  the end of the static \<open>line\<close> buffer is the value \<open>None\<close>.  The build stamp comes from a generated header
  and is a parameter.
\<close>

section \<open>Lines of a dump\<close>

abbreviation (input) HEADER_PREFIX :: string where "HEADER_PREFIX \<equiv> ''TRH9 ''"
abbreviation (input) RECORD_PREFIX :: string where "RECORD_PREFIX \<equiv> ''TRC9 ''"
abbreviation (input) LINE_PREFIX_LEN :: nat where "LINE_PREFIX_LEN \<equiv> 5"
abbreviation (input) LINE_MAX :: nat where "LINE_MAX \<equiv> LINE_PREFIX_LEN + 2 * TRACE_HEADER_SIZE + 2"

record stamp =
  st_codename :: string
  st_build_id :: string
  st_bootloader :: string
  st_baseband :: string
  st_git_sha :: string
  st_toolchain_sha256 :: string
  st_dtb_sha256 :: string

text \<open>\<open>copy_field n src\<close>: the \<open>n\<close> bytes of the destination; \<open>src\<close> is the literal without its terminator.\<close>

fun copy_field :: "nat \<Rightarrow> string \<Rightarrow> string" where
  "copy_field 0 src = []"
| "copy_field (Suc n) [] = NUL # copy_field n []"
| "copy_field (Suc n) (c # src) = (if c \<noteq> NUL then c # copy_field n src else NUL # copy_field n [])"

text \<open>\<open>line[pos++] = c\<close> for a run of characters; \<open>None\<close> is a write outside the buffer.\<close>

fun line_put :: "string \<Rightarrow> nat \<Rightarrow> string \<Rightarrow> (string \<times> nat) option" where
  "line_put line pos [] = Some (line, pos)"
| "line_put line pos (c # cs) =
     (if pos < length line then line_put (line[pos := c]) (pos + 1) cs else None)"

definition byte_hex :: "u8 \<Rightarrow> string" where
  "byte_hex b = [hex_digit (unat (drop_bit 4 b)), hex_digit (unat (b AND 0xf))]"

definition emit_line :: "string \<Rightarrow> u8 list \<Rightarrow> string \<Rightarrow> (string \<times> string) option" where
  "emit_line prefix bytes line = do {
     (line1, pos1) \<leftarrow> line_put line 0 (take LINE_PREFIX_LEN prefix);
     (line2, pos2) \<leftarrow> line_put line1 pos1 (concat (map byte_hex bytes));
     (line3, pos3) \<leftarrow> line_put line2 pos2 [NL];
     (line4, pos4) \<leftarrow> line_put line3 pos3 [NUL];
     Some (line4, c_str line4)
   }"

definition trace_header_of :: "stamp \<Rightarrow> u32 \<Rightarrow> trace_header" where
  "trace_header_of st cntfrq = \<lparr>th_magic = copy_field 8 TRACE_MAGIC, th_version = TRACE_VERSION,
     th_record_size = of_nat TRACE_RECORD_SIZE, th_cntfrq = cntfrq,
     th_codename = copy_field 16 (st_codename st), th_build_id = copy_field 32 (st_build_id st),
     th_bootloader = copy_field 48 (st_bootloader st), th_baseband = copy_field 48 (st_baseband st),
     th_git_sha = copy_field 48 (st_git_sha st),
     th_toolchain_sha256 = copy_field 64 (st_toolchain_sha256 st),
     th_dtb_sha256 = copy_field 64 (st_dtb_sha256 st)\<rparr>"

section \<open>State\<close>

record tracer =
  tc_out :: string
  tc_line :: string
  tc_mirror :: console_ring
  tc_mirror_dropped :: u64
  tc_mirror_pending :: bool
  tc_fbcon_signals :: nat
  tc_dumps_done :: u64
  tc_archive :: trace_archive
  tc_ring :: trace_ring
  tc_vmm_console :: console_ring
  tc_uartrx_console :: console_ring

definition send_header :: "stamp \<Rightarrow> u32 \<Rightarrow> tracer \<Rightarrow> tracer option" where
  "send_header st cntfrq s = do {
     (line, text) \<leftarrow> emit_line HEADER_PREFIX (header_bytes (trace_header_of st cntfrq)) (tc_line s);
     Some (s\<lparr>tc_line := line, tc_out := tc_out s @ text\<rparr>)
   }"

section \<open>The mirror of the console on the panel\<close>

definition mirror_has_room :: "console_ring \<Rightarrow> u64 \<Rightarrow> u64 \<Rightarrow> bool" where
  "mirror_has_room ring head bytes \<longleftrightarrow> head - cr_tail ring + bytes \<le> of_nat CONSOLE_RING_CAPACITY"

text \<open>\<open>mirror_store\<close> and \<open>mirror_report_dropped\<close> advance a local copy of \<open>head\<close>; \<open>mirror_putc\<close> publishes it.\<close>

fun mirror_store :: "console_ring \<Rightarrow> u64 \<Rightarrow> string \<Rightarrow> console_ring \<times> u64" where
  "mirror_store ring head [] = (ring, head)"
| "mirror_store ring head (c # cs) =
     mirror_store (ring\<lparr>cr_buf := (cr_buf ring)(console_slot head := c)\<rparr>) (head + 1) cs"

definition dropped_report :: "u64 \<Rightarrow> string" where
  "dropped_report n = NL # ''[fbcon dropped '' @ put_dec n @ '' bytes]'' @ [NL]"

definition mirror_report_dropped :: "u64 \<Rightarrow> console_ring \<Rightarrow> u64 \<Rightarrow> console_ring \<times> u64" where
  "mirror_report_dropped dropped ring head =
     (let (r1, h1) = mirror_store ring head (NL # ''[fbcon dropped '');
          (r2, h2) = mirror_store r1 h1 (put_dec dropped)
      in mirror_store r2 h2 ('' bytes]'' @ [NL]))"

definition mirror_putc :: "char \<Rightarrow> tracer \<Rightarrow> tracer" where
  "mirror_putc c s =
     (let ring = tc_mirror s; head = cr_head ring; dropped = tc_mirror_dropped s;
          (ring, head, dropped) =
            (if dropped \<noteq> 0 \<and> mirror_has_room ring head 64
             then (let (r, h) = mirror_report_dropped dropped ring head in (r, h, 0))
             else (ring, head, dropped))
      in if dropped \<noteq> 0 \<or> \<not> mirror_has_room ring head 1
         then s\<lparr>tc_mirror := ring\<lparr>cr_head := head\<rparr>, tc_mirror_dropped := dropped + 1\<rparr>
         else s\<lparr>tc_mirror := ring\<lparr>cr_buf := (cr_buf ring)(console_slot head := c), cr_head := head + 1\<rparr>,
                tc_mirror_dropped := dropped, tc_mirror_pending := (c \<noteq> NL),
                tc_fbcon_signals := tc_fbcon_signals s + (if c = NL then 1 else 0)\<rparr>)"

definition console_putc :: "char \<Rightarrow> tracer \<Rightarrow> tracer" where
  "console_putc c s = mirror_putc c (s\<lparr>tc_out := tc_out s @ [c]\<rparr>)"

definition console_puts :: "string \<Rightarrow> tracer \<Rightarrow> tracer" where
  "console_puts str s = fold console_putc str s"

definition mirror_notify :: "tracer \<Rightarrow> tracer" where
  "mirror_notify s =
     (if tc_mirror_pending s
      then s\<lparr>tc_mirror_pending := False, tc_fbcon_signals := tc_fbcon_signals s + 1\<rparr> else s)"

section \<open>Draining and dumping\<close>

text \<open>The two drain loops, run without interference; \<open>Trace_Producer\<close> and \<open>Console_Ring\<close> have them interleaved.\<close>

function drain_console :: "console_ring \<Rightarrow> tracer \<Rightarrow> console_ring \<times> tracer" where
  "drain_console ring s =
     (if cr_tail ring \<noteq> cr_head ring
      then drain_console (ring\<lparr>cr_tail := cr_tail ring + 1\<rparr>)
             (console_putc (cr_buf ring (console_slot (cr_tail ring))) s)
      else (ring, s))"
  by pat_completeness auto
termination
proof (relation "measure (\<lambda>(ring, s). unat (cr_head ring - cr_tail ring))", goal_cases)
  case (2 ring s)
  then show ?case using unat_diff_pop [of "cr_head ring" "cr_tail ring"] by simp
qed simp

function drain_trace :: "trace_ring \<Rightarrow> trace_archive \<Rightarrow> trace_ring \<times> trace_archive" where
  "drain_trace ring a =
     (if rg_tail ring \<noteq> rg_head ring
      then drain_trace (ring\<lparr>rg_tail := rg_tail ring + 1\<rparr>)
             (archive_record a (rg_records ring (ring_slot (rg_tail ring))))
      else (ring, a))"
  by pat_completeness auto
termination
proof (relation "measure (\<lambda>(ring, a). unat (rg_head ring - rg_tail ring))", goal_cases)
  case (2 ring a)
  then show ?case using unat_diff_pop [of "rg_head ring" "rg_tail ring"] by simp
qed simp

declare drain_console.simps [simp del] drain_trace.simps [simp del]

text \<open>One iteration of the dump loop; the state carries \<open>records_since_header\<close>.\<close>

definition dump_step :: "stamp \<Rightarrow> u32 \<Rightarrow> trace_record \<Rightarrow> nat \<times> tracer \<Rightarrow> (nat \<times> tracer) option" where
  "dump_step st cntfrq rec p = (case p of (since, s) \<Rightarrow> do {
     (since1, s1) \<leftarrow> (if since = TRACE_HEADER_INTERVAL
        then do { s1 \<leftarrow> send_header st cntfrq s; Some (0, s1) } else Some (since, s));
     (line, text) \<leftarrow> emit_line RECORD_PREFIX (record_bytes rec) (tc_line s1);
     Some (since1 + 1, s1\<lparr>tc_line := line, tc_out := tc_out s1 @ text\<rparr>)
   })"

fun dump_loop :: "stamp \<Rightarrow> u32 \<Rightarrow> trace_record list \<Rightarrow> nat \<times> tracer \<Rightarrow> (nat \<times> tracer) option" where
  "dump_loop st cntfrq [] p = Some p"
| "dump_loop st cntfrq (r # rs) p = do { p' \<leftarrow> dump_step st cntfrq r p; dump_loop st cntfrq rs p' }"

definition dump_archive :: "stamp \<Rightarrow> u32 \<Rightarrow> tracer \<Rightarrow> tracer option" where
  "dump_archive st cntfrq s = do {
     let a = tc_archive s;
     (_, s1) \<leftarrow> dump_loop st cntfrq (map (ar_records a) [0..<unat (ar_count a)]) (TRACE_HEADER_INTERVAL, s);
     let s2 = console_puts ''TRACER|INFO: dumped '' s1;
     let s3 = console_puts (put_dec (ar_count a)) s2;
     let s4 = console_puts '' records, '' s3;
     let s5 = console_puts (put_dec (ar_not_archived a)) s4;
     Some (console_puts ('' not archived (archive full)'' @ [NL]) s5)
   }"

definition maybe_dump :: "stamp \<Rightarrow> u32 \<Rightarrow> u64 \<Rightarrow> tracer \<Rightarrow> tracer option" where
  "maybe_dump st cntfrq requests s =
     (if requests \<noteq> tc_dumps_done s then dump_archive st cntfrq (s\<lparr>tc_dumps_done := requests\<rparr>) else Some s)"

abbreviation (input) TRACER_VMM_CH :: u32 where "TRACER_VMM_CH \<equiv> 1"
abbreviation (input) TRACER_UARTRX_CH :: u32 where "TRACER_UARTRX_CH \<equiv> 2"

definition tracer_notified :: "stamp \<Rightarrow> u32 \<Rightarrow> u64 \<Rightarrow> u32 \<Rightarrow> tracer \<Rightarrow> tracer option" where
  "tracer_notified st cntfrq requests ch s =
     (if ch \<noteq> TRACER_VMM_CH \<and> ch \<noteq> TRACER_UARTRX_CH
      then Some (console_puts (''tracer: notification on unexpected channel'' @ [NL]) s)
      else do {
        let (ring, a) = drain_trace (tc_ring s) (tc_archive s);
        let s1 = s\<lparr>tc_ring := ring, tc_archive := a\<rparr>;
        let (c1, s2) = drain_console (tc_vmm_console s1) s1;
        let s3 = s2\<lparr>tc_vmm_console := c1\<rparr>;
        let (c2, s4) = drain_console (tc_uartrx_console s3) s3;
        let s5 = s4\<lparr>tc_uartrx_console := c2\<rparr>;
        s6 \<leftarrow> maybe_dump st cntfrq requests s5;
        Some (mirror_notify s6)
      })"

section \<open>The line buffer\<close>

lemma line_put_fits:
  "pos + length cs \<le> length line \<Longrightarrow>
   line_put line pos cs = Some (take pos line @ cs @ drop (pos + length cs) line, pos + length cs)"
proof (induction cs arbitrary: line pos)
  case (Cons c cs)
  then have "pos < length line" by simp
  then have "take (Suc pos) (line[pos := c]) = take pos line @ [c]"
    by (simp add: take_Suc_conv_app_nth)
  with Cons \<open>pos < length line\<close> show ?case by simp
qed simp

lemma hex_digit_not_NUL: "hex_digit n \<noteq> NUL"
  using is_hex_digit [of n] by (auto simp: is_hex_def hex_val_def)

lemma byte_hex_length [simp]: "length (concat (map byte_hex bs)) = 2 * length bs"
  by (induction bs) (simp_all add: byte_hex_def)

lemma byte_hex_no_NUL: "NUL \<notin> set (concat (map byte_hex bs))"
  by (induction bs) (auto simp: byte_hex_def hex_digit_not_NUL [symmetric])

definition line_of :: "string \<Rightarrow> u8 list \<Rightarrow> string" where
  "line_of prefix bytes = prefix @ concat (map byte_hex bytes) @ [NL]"

lemma emit_line_fits:
  assumes "length prefix = LINE_PREFIX_LEN" and "NUL \<notin> set prefix"
    and "LINE_PREFIX_LEN + 2 * length bytes + 2 \<le> length line"
  shows "\<exists>line'. emit_line prefix bytes line = Some (line', line_of prefix bytes) \<and> length line' = length line"
proof -
  let ?t = "line_of prefix bytes"
  let ?l = "?t @ [NUL] @ drop (length ?t + 1) line"
  have len: "length ?t = 5 + 2 * length bytes + 1" using assms(1) by (simp add: line_of_def)
  have "NUL \<notin> set ?t" using assms(2) byte_hex_no_NUL [of bytes] by (simp add: line_of_def)
  then have "takeWhile (\<lambda>c. c \<noteq> NUL) ?t = ?t" by (auto simp: takeWhile_eq_all_conv)
  then have "c_str ?l = ?t" by (simp add: c_str_def takeWhile_tail)
  moreover have "emit_line prefix bytes line = Some (?l, c_str ?l)"
    using assms len by (simp add: emit_line_def line_put_fits line_of_def del: line_put.simps)
  moreover have "length ?l = length line" using assms(3) len by simp
  ultimately show ?thesis by auto
qed

lemma copy_field_length [simp]: "length (copy_field n src) = n"
  by (induction n src rule: copy_field.induct) simp_all

lemma header_of_wf: "header_wf (trace_header_of st f)"
  by (simp add: header_wf_def trace_header_of_def)

definition header_line :: "stamp \<Rightarrow> u32 \<Rightarrow> string" where
  "header_line st f = line_of HEADER_PREFIX (header_bytes (trace_header_of st f))"

definition record_line :: "trace_record \<Rightarrow> string" where
  "record_line r = line_of RECORD_PREFIX (record_bytes r)"

lemma send_header_ok:
  assumes "length (tc_line s) = LINE_MAX"
  shows "\<exists>l. send_header st f s = Some (s\<lparr>tc_line := l, tc_out := tc_out s @ header_line st f\<rparr>) \<and> length l = LINE_MAX"
  using emit_line_fits [of HEADER_PREFIX "header_bytes (trace_header_of st f)" "tc_line s"] assms
    header_bytes_length [OF header_of_wf [of st f]]
  by (auto simp: send_header_def header_line_def)

text \<open>What a dump prints before its summary.\<close>

fun dump_text :: "stamp \<Rightarrow> u32 \<Rightarrow> nat \<Rightarrow> trace_record list \<Rightarrow> string" where
  "dump_text st f since [] = []"
| "dump_text st f since (r # rs) =
     (if since = TRACE_HEADER_INTERVAL then header_line st f @ record_line r @ dump_text st f 1 rs
      else record_line r @ dump_text st f (since + 1) rs)"

lemma dump_step_ok:
  assumes "length (tc_line s) = LINE_MAX"
  shows "\<exists>l. dump_step st f r (since, s) = Some (if since = TRACE_HEADER_INTERVAL then 1 else since + 1,
      s\<lparr>tc_line := l, tc_out := tc_out s @ (if since = TRACE_HEADER_INTERVAL then header_line st f else []) @ record_line r\<rparr>)
    \<and> length l = LINE_MAX"
proof -
  obtain l where l: "send_header st f s = Some (s\<lparr>tc_line := l, tc_out := tc_out s @ header_line st f\<rparr>)"
    and ll: "length l = LINE_MAX" using send_header_ok [OF assms] by blast
  have rec: "\<exists>l'. emit_line RECORD_PREFIX (record_bytes r) line = Some (l', record_line r) \<and> length l' = length line"
    if "length line = LINE_MAX" for line
    unfolding record_line_def by (rule emit_line_fits) (use that in simp_all)
  show ?thesis
    using rec [OF assms] rec [OF ll] l ll assms by (auto simp: dump_step_def)
qed

lemma dump_loop_ok:
  assumes "length (tc_line s) = LINE_MAX"
  shows "\<exists>n l. dump_loop st f rs (since, s) = Some (n, s\<lparr>tc_line := l, tc_out := tc_out s @ dump_text st f since rs\<rparr>)
    \<and> length l = LINE_MAX"
  using assms
proof (induction rs arbitrary: since s)
  case Nil
  have "s = s\<lparr>tc_line := tc_line s, tc_out := tc_out s\<rparr>" by simp
  then show ?case using Nil by (metis append_Nil2 dump_loop.simps(1) dump_text.simps(1))
next
  case (Cons r rs)
  let ?n = "if since = TRACE_HEADER_INTERVAL then 1 else since + 1"
  let ?out = "tc_out s @ (if since = TRACE_HEADER_INTERVAL then header_line st f else []) @ record_line r"
  obtain l where st: "dump_step st f r (since, s) = Some (?n, s\<lparr>tc_line := l, tc_out := ?out\<rparr>)"
    and l: "length l = LINE_MAX" using dump_step_ok [OF Cons.prems] by blast
  obtain n' l' where "dump_loop st f rs (?n, s\<lparr>tc_line := l, tc_out := ?out\<rparr>)
      = Some (n', s\<lparr>tc_line := l', tc_out := ?out @ dump_text st f ?n rs\<rparr>)" and "length l' = LINE_MAX"
    using Cons.IH [of "s\<lparr>tc_line := l, tc_out := ?out\<rparr>" ?n] l by auto
  then show ?case using st by (auto split: if_splits)
qed

section \<open>The mirror\<close>

lemma mirror_store_eq:
  "mirror_store ring head cs =
     (let r = foldl (\<lambda>r c. console_push c r) (ring\<lparr>cr_head := head\<rparr>) cs in (r\<lparr>cr_head := cr_head ring\<rparr>, cr_head r))"
proof (induction cs arbitrary: ring head)
  case (Cons c cs)
  let ?r = "ring\<lparr>cr_buf := (cr_buf ring)(console_slot head := c)\<rparr>"
  have "?r\<lparr>cr_head := head + 1\<rparr> = console_push c (ring\<lparr>cr_head := head\<rparr>)" by (simp add: console_push_def)
  then show ?case using Cons.IH [of ?r "head + 1"] by simp
qed simp

lemma console_push_list_head:
  "cr_head (foldl (\<lambda>r c. console_push c r) r cs) = cr_head r + of_nat (length cs)
    \<and> cr_tail (foldl (\<lambda>r c. console_push c r) r cs) = cr_tail r"
  by (induction cs arbitrary: r) (simp_all add: console_push_def)

lemma mirror_report_eq:
  "mirror_report_dropped n ring (cr_head ring) =
     (let r = foldl (\<lambda>r c. console_push c r) ring (dropped_report n) in (r\<lparr>cr_head := cr_head ring\<rparr>, cr_head r))"
  by (simp add: mirror_report_dropped_def mirror_store_eq dropped_report_def Let_def)

lemma dropped_report_length: "length (dropped_report n) \<le> 44"
  using put_dec_length [of n] by (simp add: dropped_report_def)

lemma mirror_has_room_iff:
  assumes "console_ok ring" and "k \<le> 64"
  shows "mirror_has_room ring (cr_head ring) (of_nat k)
    \<longleftrightarrow> length (console_live ring) + k \<le> CONSOLE_RING_CAPACITY"
proof -
  have "unat (cr_head ring - cr_tail ring) \<le> CONSOLE_RING_CAPACITY"
    using assms(1) by (simp add: console_ok_def counters_ok_def)
  then have "unat (cr_head ring - cr_tail ring + of_nat k) = unat (cr_head ring - cr_tail ring) + k"
    using assms(2) by (simp add: unat_add_of_nat console_capacity_value)
  then show ?thesis
    by (simp add: mirror_has_room_def word_le_nat_alt console_live_def ring_contents_length console_capacity_value)
qed

lemma console_room_eq:
  "console_room r = min (CONSOLE_RING_CAPACITY - length (console_live r)) (2 ^ 64 - 1 - unat (cr_head r))"
  using console_capacity_dvd
  by (simp add: console_room_def counters_room_def console_live_def ring_contents_length)

text \<open>What \<open>mirror_putc\<close> does, by the room in the panel's ring.\<close>

definition mirrored :: "tracer \<Rightarrow> char \<Rightarrow> string" where
  "mirrored s c =
     (let n = length (console_live (tc_mirror s)) in
      if tc_mirror_dropped s = 0 then (if n < CONSOLE_RING_CAPACITY then [c] else [])
      else if n + 64 \<le> CONSOLE_RING_CAPACITY then dropped_report (tc_mirror_dropped s) @ [c] else [])"

lemma mirror_putc_eq:
  assumes ok: "console_ok (tc_mirror s)" and wrap: "unat (cr_head (tc_mirror s)) + 64 < 2 ^ 64"
  shows "tc_mirror (mirror_putc c s) = foldl (\<lambda>r c. console_push c r) (tc_mirror s) (mirrored s c)
    \<and> tc_mirror_dropped (mirror_putc c s) = (if mirrored s c = [] then tc_mirror_dropped s + 1 else 0)
    \<and> length (mirrored s c) \<le> console_room (tc_mirror s) \<and> length (mirrored s c) \<le> 45"
proof -
  let ?r = "tc_mirror s"
  let ?n = "length (console_live ?r)"
  let ?rep = "foldl (\<lambda>r c. console_push c r) ?r (dropped_report (tc_mirror_dropped s))"
  have r1: "mirror_has_room ?r (cr_head ?r) 1 \<longleftrightarrow> ?n < CONSOLE_RING_CAPACITY"
    using mirror_has_room_iff [OF ok, of 1] by auto
  have r64: "mirror_has_room ?r (cr_head ?r) 64 \<longleftrightarrow> ?n + 64 \<le> CONSOLE_RING_CAPACITY"
    using mirror_has_room_iff [OF ok, of 64] by simp
  show ?thesis
  proof (cases "tc_mirror_dropped s = 0")
    case True
    then show ?thesis
      using r1 wrap by (auto simp: mirror_putc_def mirrored_def console_room_eq console_push_def Let_def)
  next
    case drop: False
    show ?thesis
    proof (cases "?n + 64 \<le> CONSOLE_RING_CAPACITY")
      case False
      then show ?thesis using drop r64 by (simp add: mirror_putc_def mirrored_def)
    next
      case True
      have len: "length (dropped_report (tc_mirror_dropped s)) \<le> 44" by (rule dropped_report_length)
      have room: "64 \<le> console_room ?r" using True wrap by (auto simp: console_room_eq)
      have rep: "console_ok ?rep" "console_live ?rep = console_live ?r @ dropped_report (tc_mirror_dropped s)"
        using console.push_list [OF ok, of "dropped_report (tc_mirror_dropped s)"] len room by auto
      have "mirror_has_room ?rep (cr_head ?rep) 1"
        using mirror_has_room_iff [OF rep(1), of 1] rep(2) len True by simp
      then have "mirror_has_room (?rep\<lparr>cr_head := cr_head ?r\<rparr>) (cr_head ?rep) 1"
        by (simp add: mirror_has_room_def)
      then have "tc_mirror (mirror_putc c s) = console_push c ?rep \<and> tc_mirror_dropped (mirror_putc c s) = 0"
        using drop r64 True by (simp add: mirror_putc_def mirror_report_eq console_push_def Let_def)
      then show ?thesis using drop True len room by (simp add: mirrored_def)
    qed
  qed
qed

lemma mirror_putc_out: "tc_out (mirror_putc c s) = tc_out s"
  by (simp add: mirror_putc_def Let_def split_beta)

lemma mirror_putc_spec:
  assumes ok: "console_ok (tc_mirror s)" and wrap: "unat (cr_head (tc_mirror s)) + 64 < 2 ^ 64"
  shows "console_ok (tc_mirror (mirror_putc c s))
    \<and> console_live (tc_mirror (mirror_putc c s)) = console_live (tc_mirror s) @ mirrored s c
    \<and> tc_mirror_dropped (mirror_putc c s) = (if mirrored s c = [] then tc_mirror_dropped s + 1 else 0)
    \<and> tc_out (mirror_putc c s) = tc_out s"
  using mirror_putc_eq [OF assms, of c] console.push_list [OF ok, of "mirrored s c"] by (simp add: mirror_putc_out)

section \<open>Draining and dumping\<close>

definition trace_publish :: "trace_record \<Rightarrow> trace_ring \<Rightarrow> trace_ring" where
  "trace_publish r g = g\<lparr>rg_records := (rg_records g)(ring_slot (rg_head g) := r), rg_head := rg_head g + 1\<rparr>"

definition trace_front :: "trace_ring \<Rightarrow> trace_record" where
  "trace_front g = rg_records g (ring_slot (rg_tail g))"

definition trace_pop :: "trace_ring \<Rightarrow> trace_ring" where
  "trace_pop g = g\<lparr>rg_tail := rg_tail g + 1\<rparr>"

definition trace_live :: "trace_ring \<Rightarrow> trace_record list" where
  "trace_live g = pending_records g (rg_tail g)"

definition trace_ok :: "trace_ring \<Rightarrow> bool" where
  "trace_ok g \<longleftrightarrow> counters_ok TRACE_RING_CAPACITY (rg_tail g) (rg_head g)"

definition trace_room :: "trace_ring \<Rightarrow> nat" where
  "trace_room g = counters_room TRACE_RING_CAPACITY (rg_tail g) (rg_head g)"

lemma trace_live_Nil: "trace_live g = [] \<longleftrightarrow> rg_tail g = rg_head g"
  by (auto simp: trace_live_def pending_records_def ring_contents_Nil_iff)

interpretation trace: ring_buffer trace_ok trace_live trace_room trace_publish trace_front trace_pop
proof
  fix g :: trace_ring and x
  assume ok: "trace_ok g" and room: "0 < trace_room g"
  note a = ok [unfolded trace_ok_def] and b = room [unfolded trace_room_def]
  show "trace_ok (trace_publish x g) \<and> trace_live (trace_publish x g) = trace_live g @ [x]
      \<and> trace_room (trace_publish x g) = trace_room g - 1"
    using counters_push [OF a b] ring_contents_push [OF counters_room_pos(2,1) [OF a b]]
    by (simp add: trace_ok_def trace_room_def trace_live_def pending_records_def trace_publish_def ring_slot_def)
next
  fix g :: trace_ring
  assume ok: "trace_ok g" and ne: "trace_live g \<noteq> []"
  then have ne': "rg_head g \<noteq> rg_tail g" using trace_live_Nil [of g] by metis
  note pop = ring_contents_pop [OF ne', of TRACE_RING_CAPACITY "rg_records g"]
  show "trace_front g = hd (trace_live g)"
    using pop by (simp add: trace_front_def trace_live_def pending_records_def ring_slot_def)
  show "trace_ok (trace_pop g) \<and> trace_live (trace_pop g) = tl (trace_live g) \<and> trace_room g \<le> trace_room (trace_pop g)"
    using counters_pop [OF ok [unfolded trace_ok_def] ne'] pop
    by (simp add: trace_ok_def trace_room_def trace_live_def pending_records_def trace_pop_def)
qed

lemma drain_console_unfold:
  "drain_console r s = (if console_live r = [] then (r, s) else drain_console (console_pop r) (console_putc (console_front r) s))"
  by (subst drain_console.simps) (simp add: console_live_Nil console_pop_def console_front_def)

lemma drain_trace_unfold:
  "drain_trace g a = (if trace_live g = [] then (g, a) else drain_trace (trace_pop g) (archive_record a (trace_front g)))"
  by (subst drain_trace.simps) (simp add: trace_live_Nil trace_pop_def trace_front_def)

lemmas drain_console_spec = console.drain_loop [of drain_console console_putc, OF drain_console_unfold]
lemmas drain_trace_spec = trace.drain_loop [of drain_trace "\<lambda>r a. archive_record a r", OF drain_trace_unfold]

lemma mirror_putc_frame [simp]:
  "tc_out (mirror_putc c s) = tc_out s" "tc_line (mirror_putc c s) = tc_line s"
  "tc_dumps_done (mirror_putc c s) = tc_dumps_done s" "tc_archive (mirror_putc c s) = tc_archive s"
  "tc_ring (mirror_putc c s) = tc_ring s" "tc_vmm_console (mirror_putc c s) = tc_vmm_console s"
  "tc_uartrx_console (mirror_putc c s) = tc_uartrx_console s"
  by (simp_all add: mirror_putc_def Let_def split_beta)

lemma console_puts_frame [simp]:
  "tc_out (console_puts str s) = tc_out s @ str" "tc_line (console_puts str s) = tc_line s"
  "tc_dumps_done (console_puts str s) = tc_dumps_done s" "tc_archive (console_puts str s) = tc_archive s"
  "tc_ring (console_puts str s) = tc_ring s" "tc_vmm_console (console_puts str s) = tc_vmm_console s"
  "tc_uartrx_console (console_puts str s) = tc_uartrx_console s"
  by (induction str arbitrary: s) (simp_all add: console_puts_def console_putc_def)

definition dump_summary :: "trace_archive \<Rightarrow> string" where
  "dump_summary a = ''TRACER|INFO: dumped '' @ put_dec (ar_count a) @ '' records, '' @
     put_dec (ar_not_archived a) @ '' not archived (archive full)'' @ [NL]"

lemma dump_archive_ok:
  assumes "length (tc_line s) = LINE_MAX"
  shows "\<exists>s'. dump_archive st f s = Some s'
    \<and> tc_out s' = tc_out s @ dump_text st f TRACE_HEADER_INTERVAL (archived (tc_archive s)) @ dump_summary (tc_archive s)
    \<and> length (tc_line s') = LINE_MAX \<and> tc_archive s' = tc_archive s \<and> tc_ring s' = tc_ring s
    \<and> tc_vmm_console s' = tc_vmm_console s \<and> tc_uartrx_console s' = tc_uartrx_console s
    \<and> tc_dumps_done s' = tc_dumps_done s"
  using dump_loop_ok [OF assms, of st f "archived (tc_archive s)" TRACE_HEADER_INTERVAL]
  by (auto simp: dump_archive_def archived_def dump_summary_def Let_def)

section \<open>Properties\<close>

lemma maybe_dump_ok:
  assumes "length (tc_line s) = LINE_MAX"
  shows "\<exists>s'. maybe_dump st f req s = Some s'
    \<and> tc_out s' = tc_out s @ (if req = tc_dumps_done s then []
        else dump_text st f TRACE_HEADER_INTERVAL (archived (tc_archive s)) @ dump_summary (tc_archive s))
    \<and> length (tc_line s') = LINE_MAX \<and> tc_archive s' = tc_archive s \<and> tc_ring s' = tc_ring s
    \<and> tc_vmm_console s' = tc_vmm_console s \<and> tc_uartrx_console s' = tc_uartrx_console s
    \<and> tc_dumps_done s' = req"
  using dump_archive_ok [of "s\<lparr>tc_dumps_done := req\<rparr>" st f] assms by (auto simp: maybe_dump_def)

lemma mirror_notify_frame [simp]:
  "tc_out (mirror_notify s) = tc_out s" "tc_line (mirror_notify s) = tc_line s"
  "tc_dumps_done (mirror_notify s) = tc_dumps_done s" "tc_archive (mirror_notify s) = tc_archive s"
  "tc_ring (mirror_notify s) = tc_ring s" "tc_vmm_console (mirror_notify s) = tc_vmm_console s"
  "tc_uartrx_console (mirror_notify s) = tc_uartrx_console s" "\<not> tc_mirror_pending (mirror_notify s)"
  by (simp_all add: mirror_notify_def)

lemma drain_console_puts:
  "console_ok r \<Longrightarrow> \<exists>r'. drain_console r s = (r', console_puts (console_live r) s) \<and> console_live r' = [] \<and> console_ok r'"
  using drain_console_spec [of r s] by (cases "drain_console r s") (simp add: console_puts_def)

lemma drain_trace_archive:
  "trace_ok g \<Longrightarrow> \<exists>g'. drain_trace g a = (g', foldl archive_record a (trace_live g)) \<and> trace_live g' = [] \<and> trace_ok g'"
  using drain_trace_spec [of g a] by (cases "drain_trace g a") (simp add: foldl_conv_fold)

definition tracer_ok :: "tracer \<Rightarrow> bool" where
  "tracer_ok s \<longleftrightarrow> length (tc_line s) = LINE_MAX \<and> trace_ok (tc_ring s)
     \<and> console_ok (tc_vmm_console s) \<and> console_ok (tc_uartrx_console s)"

text \<open>
  C10. The tracer's notification handler, on its two channels, never writes past its line buffer and
  always returns: it archives every record waiting in the trace ring, prints every character waiting
  in both console rings in order, dumps the archive exactly when the dump counter differs from the
  last one it served, leaves all three rings empty and no mirrored text unannounced.
\<close>

theorem tracer_notified_spec:
  assumes "tracer_ok s" and "ch = TRACER_VMM_CH \<or> ch = TRACER_UARTRX_CH"
  defines "a \<equiv> foldl archive_record (tc_archive s) (trace_live (tc_ring s))"
  shows "\<exists>s'. tracer_notified st f req ch s = Some s' \<and> tracer_ok s' \<and> tc_archive s' = a
    \<and> tc_out s' = tc_out s @ console_live (tc_vmm_console s) @ console_live (tc_uartrx_console s)
        @ (if req = tc_dumps_done s then [] else dump_text st f TRACE_HEADER_INTERVAL (archived a) @ dump_summary a)
    \<and> trace_live (tc_ring s') = [] \<and> console_live (tc_vmm_console s') = []
    \<and> console_live (tc_uartrx_console s') = [] \<and> tc_dumps_done s' = req \<and> \<not> tc_mirror_pending s'"
proof -
  obtain ring where tr: "drain_trace (tc_ring s) (tc_archive s) = (ring, a)" "trace_live ring = []" "trace_ok ring"
    using drain_trace_archive assms(1) unfolding tracer_ok_def a_def by blast
  let ?s1 = "s\<lparr>tc_ring := ring, tc_archive := a\<rparr>"
  obtain c1 where c1: "drain_console (tc_vmm_console s) ?s1 = (c1, console_puts (console_live (tc_vmm_console s)) ?s1)"
    "console_live c1 = []" "console_ok c1" using drain_console_puts assms(1) unfolding tracer_ok_def by blast
  let ?s3 = "(console_puts (console_live (tc_vmm_console s)) ?s1)\<lparr>tc_vmm_console := c1\<rparr>"
  obtain c2 where c2: "drain_console (tc_uartrx_console s) ?s3 = (c2, console_puts (console_live (tc_uartrx_console s)) ?s3)"
    "console_live c2 = []" "console_ok c2" using drain_console_puts assms(1) unfolding tracer_ok_def by blast
  let ?s5 = "(console_puts (console_live (tc_uartrx_console s)) ?s3)\<lparr>tc_uartrx_console := c2\<rparr>"
  have l5: "length (tc_line ?s5) = LINE_MAX" using assms(1) by (simp add: tracer_ok_def)
  obtain s6 where m: "maybe_dump st f req ?s5 = Some s6"
    "tc_out s6 = tc_out ?s5 @ (if req = tc_dumps_done ?s5 then []
        else dump_text st f TRACE_HEADER_INTERVAL (archived (tc_archive ?s5)) @ dump_summary (tc_archive ?s5))"
    "length (tc_line s6) = LINE_MAX" "tc_archive s6 = tc_archive ?s5" "tc_ring s6 = tc_ring ?s5"
    "tc_vmm_console s6 = tc_vmm_console ?s5" "tc_uartrx_console s6 = tc_uartrx_console ?s5" "tc_dumps_done s6 = req"
    using maybe_dump_ok [OF l5, of st f req] by blast
  have "tracer_notified st f req ch s = Some (mirror_notify s6)"
    using assms(2) tr(1) c1(1) c2(1) m(1) by (auto simp: tracer_notified_def)
  then show ?thesis
    using m tr c1 c2 by (simp add: tracer_ok_def)
qed

definition demo_tracer :: tracer where
  "demo_tracer = \<lparr>tc_out = [], tc_line = replicate LINE_MAX NUL, tc_mirror = empty_console, tc_mirror_dropped = 0,
     tc_mirror_pending = False, tc_fbcon_signals = 0, tc_dumps_done = 0, tc_archive = empty_archive,
     tc_ring = trace_publish (zero_record\<lparr>tr_kind := TRACE_KIND_GUEST\<rparr>) empty_ring,
     tc_vmm_console = console_push (CHR ''v'') empty_console,
     tc_uartrx_console = console_push (CHR ''u'') empty_console\<rparr>"

theorem tracer_notified_spec_witness:
  "\<forall>st f. \<exists>s'. tracer_notified st f 0 1 demo_tracer = Some s' \<and> tc_out s' = ''vu''
    \<and> archived (tc_archive s') = [zero_record\<lparr>tr_kind := TRACE_KIND_GUEST\<rparr>]"
proof -
  have r: "trace_ok empty_ring" "0 < trace_room empty_ring" "trace_live empty_ring = []"
    by (simp_all add: trace_ok_def trace_room_def trace_live_def pending_records_def empty_ring_def
        counters_ok_def counters_room_def ring_capacity_value ring_contents_empty)
  have c: "0 < console_room empty_console" "console_live empty_console = []"
    by (simp_all add: console_room_def console_live_def empty_console_def counters_room_def
        console_capacity_value ring_contents_empty)
  have ok: "tracer_ok demo_tracer"
    using trace.push_law [OF r(1,2)] console.push_law [OF console_ok_empty c(1)]
    by (simp add: tracer_ok_def demo_tracer_def)
  have live: "trace_live (tc_ring demo_tracer) = [zero_record\<lparr>tr_kind := TRACE_KIND_GUEST\<rparr>]"
    "console_live (tc_vmm_console demo_tracer) = ''v''" "console_live (tc_uartrx_console demo_tracer) = ''u''"
    "tc_out demo_tracer = []" "tc_dumps_done demo_tracer = 0" "tc_archive demo_tracer = empty_archive"
    using trace.push_law [OF r(1,2)] console.push_law [OF console_ok_empty c(1)] r(3) c(2)
    by (simp_all add: demo_tracer_def)
  show ?thesis
  proof (intro allI)
    fix st f
    show "\<exists>s'. tracer_notified st f 0 1 demo_tracer = Some s' \<and> tc_out s' = ''vu''
        \<and> archived (tc_archive s') = [zero_record\<lparr>tr_kind := TRACE_KIND_GUEST\<rparr>]"
      using tracer_notified_spec [OF ok, of 1 st f 0] archive_fold [of "[zero_record\<lparr>tr_kind := TRACE_KIND_GUEST\<rparr>]"] live
      by (auto simp: archive_capacity_value)
  qed
qed

text \<open>
  C21. The mirror never overwrites what the panel has not taken and never silently loses text: a
  character is appended to the panel's ring or counted, and a count is written into the ring as
  a report before the first character that follows it.
\<close>

theorem mirror_accounts_for_every_char:
  assumes "console_ok (tc_mirror s)" and "unat (cr_head (tc_mirror s)) + 64 < 2 ^ 64"
  shows "console_ok (tc_mirror (mirror_putc c s))
    \<and> console_live (tc_mirror (mirror_putc c s)) = console_live (tc_mirror s) @ mirrored s c
    \<and> (mirrored s c = [] \<longrightarrow> tc_mirror_dropped (mirror_putc c s) = tc_mirror_dropped s + 1)
    \<and> (tc_mirror_dropped s \<noteq> 0 \<and> mirrored s c \<noteq> [] \<longrightarrow>
        mirrored s c = dropped_report (tc_mirror_dropped s) @ [c] \<and> tc_mirror_dropped (mirror_putc c s) = 0)
    \<and> (tc_mirror_dropped s = 0 \<and> length (console_live (tc_mirror s)) < CONSOLE_RING_CAPACITY \<longrightarrow> mirrored s c = [c])"
  using mirror_putc_spec [OF assms, of c] by (auto simp: mirrored_def Let_def)

definition demo_dropped :: tracer where
  "demo_dropped = demo_tracer\<lparr>tc_mirror_dropped := 7\<rparr>"

theorem mirror_accounts_for_every_char_witness:
  "console_live (tc_mirror (mirror_putc (CHR ''x'') demo_dropped)) = NL # ''[fbcon dropped 7 bytes]'' @ [NL] @ ''x''"
proof -
  have ok: "console_ok (tc_mirror demo_dropped)" and live: "console_live (tc_mirror demo_dropped) = []"
    using console_ok_empty
    by (simp_all add: demo_dropped_def demo_tracer_def console_live_def empty_console_def ring_contents_empty)
  have "unat (cr_head (tc_mirror demo_dropped)) + 64 < 2 ^ 64"
    by (simp add: demo_dropped_def demo_tracer_def empty_console_def)
  moreover have "tc_mirror_dropped demo_dropped = 7" by (simp add: demo_dropped_def)
  then have "mirrored demo_dropped (CHR ''x'') = NL # ''[fbcon dropped 7 bytes]'' @ [NL] @ ''x''"
    by (simp add: mirrored_def live console_capacity_value dropped_report_def put_dec_eq dec_digits.simps
        digit_char_eval)
  ultimately show ?thesis
    using mirror_accounts_for_every_char [OF ok, of "CHR ''x''"] live by simp
qed

end
