(* ===== verification/Trace_Print.thy ===== *)
theory Trace_Print
  imports Trace_Format
begin

text \<open>
  How the host decoder prints a record (\<open>format_record\<close> and the functions it calls in \<^verbatim>\<open>tools/trace-decode.py\<close>) and its class \<open>Console\<close>, which
  puts the guest's output together again from the records of writes to a UART's transmit register.  The fields of a record are
  words, so \<open>f"{x}"\<close> and \<open>f"{x:x}"\<close> are the conversions of \<open>Text_Render\<close>.
\<close>

section \<open>Printing a record\<close>

definition rec_prefix :: "trace_record \<Rightarrow> string" where
  "rec_prefix r = ''seq='' @ fmt_lu (tr_seq r) @ '' t='' @ fmt_lu (tr_time r) @ '' p'' @ fmt_lu (ucast (tr_producer r))"

definition rec_vcpu :: "trace_record \<Rightarrow> string" where
  "rec_vcpu r = '' vcpu='' @ fmt_lu (ucast (tr_vcpu r))"

definition format_smc :: "trace_record \<Rightarrow> string" where
  "format_smc r =
     (let prefix = rec_prefix r @ rec_vcpu r @ '' pc=0x'' @ fmt_lx (tr_pc r) in
      if tr_kind r = TRACE_KIND_SMC_ENTER
      then prefix @ '' SMC ENTER x0=0x'' @ fmt_lx (tr_addr r) @ '' x1=0x'' @ fmt_lx (tr_value r) @ '' esr=0x'' @ fmt_lx (ucast (tr_esr r))
      else if tr_kind r = TRACE_KIND_SMC_REGS
      then let n = ucast (tr_size r); side = (if tr_flags r AND TRACE_SMC_REGS_EXIT \<noteq> 0 then ''out'' else ''in'')
           in prefix @ '' SMC '' @ side @ '' x'' @ fmt_lu n @ ''=0x'' @ fmt_lx (tr_addr r) @ '' x'' @ fmt_lu (n + 1) @ ''=0x'' @ fmt_lx (tr_value r)
      else if tr_flags r AND TRACE_SMC_UNHANDLED \<noteq> 0 then prefix @ '' SMC EXIT UNHANDLED''
      else let how = (if tr_flags r AND TRACE_SMC_FORWARDED \<noteq> 0 then ''HW'' else ''EMU'')
           in prefix @ '' SMC EXIT '' @ how @ '' x0=0x'' @ fmt_lx (tr_addr r) @ '' x1=0x'' @ fmt_lx (tr_value r))"

text \<open>The dictionaries \<open>CMD_VERBS\<close> and \<open>GUEST_EVENTS\<close>.\<close>

definition cmd_verbs :: "u64 \<Rightarrow> string option" where
  "cmd_verbs = map_of [(0, ''-''), (1, ''ping''), (2, ''trace-dump''), (3, ''help''), (4, ''guest-start''), (5, ''guest-stop''),
     (6, ''status''), (7, ''guest-regs''), (8, ''gic-dump''), (9, ''pc-sample''), (10, ''tlbi-stress'')]"

definition guest_event_names :: "u64 \<Rightarrow> string option" where
  "guest_event_names = map_of [(1, ''STARTED''), (2, ''STOPPED_BY_COMMAND''), (3, ''STOPPED_BY_FAULT'')]"

definition format_cmd :: "trace_record \<Rightarrow> string" where
  "format_cmd r =
     (let flags = tr_flags r;
          how = (if flags AND TRACE_CMD_ACCEPTED \<noteq> 0 then ''ACCEPTED''
                 else if flags AND TRACE_CMD_REJECTED_VERB \<noteq> 0 then ''REJECTED_VERB''
                 else if flags AND TRACE_CMD_REJECTED_ARGS \<noteq> 0 then ''REJECTED_ARGS''
                 else ''flags=0x'' @ fmt_lx (ucast flags));
          verb = (case cmd_verbs (tr_addr r) of Some v \<Rightarrow> v | None \<Rightarrow> ''verb'' @ fmt_lu (tr_addr r));
          arg = (if tr_pc r \<noteq> 0 then '' arg=0x'' @ fmt_lx (tr_pc r) else [])
      in rec_prefix r @ '' CMD id='' @ fmt_lu (tr_value r) @ '' '' @ verb @ arg @ '' '' @ how)"

definition format_guest :: "trace_record \<Rightarrow> string" where
  "format_guest r =
     (let event = (case guest_event_names (tr_addr r) of Some e \<Rightarrow> e | None \<Rightarrow> ''event'' @ fmt_lu (tr_addr r))
      in rec_prefix r @ rec_vcpu r @ '' GUEST run='' @ fmt_lu (tr_value r) @ '' '' @ event @ '' pc=0x'' @ fmt_lx (tr_pc r))"

definition format_mmio :: "trace_record \<Rightarrow> string" where
  "format_mmio r =
     (let direction = (if tr_flags r AND TRACE_MMIO_WRITE \<noteq> 0 then ''W'' else ''R'');
          (how, val) = (if tr_flags r AND TRACE_MMIO_UNHANDLED \<noteq> 0 then (''UNHANDLED'', ''-'')
                        else (if tr_flags r AND TRACE_MMIO_FORWARDED \<noteq> 0 then ''HW'' else ''EMU'', ''0x'' @ fmt_lx (tr_value r)))
      in rec_prefix r @ rec_vcpu r @ '' pc=0x'' @ fmt_lx (tr_pc r) @ '' addr=0x'' @ fmt_lx (tr_addr r)
           @ '' size='' @ fmt_lu (ucast (tr_size r)) @ '' '' @ direction @ '' '' @ how @ '' val='' @ val @ '' esr=0x'' @ fmt_lx (ucast (tr_esr r)))"

definition format_record :: "trace_record \<Rightarrow> string" where
  "format_record r =
     (if tr_kind r = TRACE_KIND_GUEST then format_guest r
      else if tr_kind r = TRACE_KIND_CMD then format_cmd r
      else if tr_kind r \<in> {TRACE_KIND_SMC_ENTER, TRACE_KIND_SMC_REGS, TRACE_KIND_SMC_EXIT} then format_smc r
      else format_mmio r)"

section \<open>The guest's console\<close>

text \<open>\<open>Console(tx_addr)\<close> has the state \<open>line\<close>; \<open>feed\<close> returns a line when it is complete.\<close>

definition is_console_write :: "int option \<Rightarrow> trace_record \<Rightarrow> bool" where
  "is_console_write tx_addr r \<longleftrightarrow> tx_addr \<noteq> None \<and> tr_kind r = TRACE_KIND_MMIO \<and> Some (uint (tr_addr r)) = tx_addr
     \<and> tr_flags r AND TRACE_MMIO_WRITE \<noteq> 0 \<and> tr_flags r AND TRACE_MMIO_UNHANDLED = 0"

definition written_char :: "trace_record \<Rightarrow> char" where
  "written_char r = char_of_byte (ucast (tr_value r AND 0xff))"

definition console_feed :: "int option \<Rightarrow> trace_record \<Rightarrow> string \<Rightarrow> string \<times> string option" where
  "console_feed tx_addr r line =
     (if \<not> is_console_write tx_addr r then (line, None)
      else if written_char r = NL then ([], Some line)
      else (line @ [written_char r], None))"

text \<open>What the decoder prints for a list of records, and the guest's lines among it.\<close>

fun printed_records :: "int option \<Rightarrow> string \<Rightarrow> trace_record list \<Rightarrow> string list" where
  "printed_records tx line [] = []"
| "printed_records tx line (r # rs) =
     (case console_feed tx r line of (line', done) \<Rightarrow>
        format_record r # (case done of Some l \<Rightarrow> [''  guest| '' @ l] | None \<Rightarrow> []) @ printed_records tx line' rs)"

fun console_lines :: "int option \<Rightarrow> string \<Rightarrow> trace_record list \<Rightarrow> string list" where
  "console_lines tx line [] = []"
| "console_lines tx line (r # rs) =
     (case console_feed tx r line of (line', done) \<Rightarrow> (case done of Some l \<Rightarrow> [l] | None \<Rightarrow> []) @ console_lines tx line' rs)"

section \<open>Lines of the guest\<close>

text \<open>The reference: the complete lines of a text, each without its newline.\<close>

fun text_lines :: "string \<Rightarrow> string \<Rightarrow> string list" where
  "text_lines cur [] = []"
| "text_lines cur (c # cs) = (if c = NL then cur # text_lines [] cs else text_lines (cur @ [c]) cs)"

lemma console_lines_text: "console_lines tx line rs = text_lines line (map written_char (filter (is_console_write tx) rs))"
  by (induction rs arbitrary: line) (auto simp: console_feed_def)

lemma text_lines_no_NL: "NL \<notin> set cur \<Longrightarrow> l \<in> set (text_lines cur cs) \<Longrightarrow> NL \<notin> set l"
  by (induction cur cs rule: text_lines.induct) (auto split: if_splits)

text \<open>Nothing is lost or reordered: the lines, each with its newline, are the text up to the last newline.\<close>

lemma text_lines_concat: "\<exists>rest. cur @ cs = concat (map (\<lambda>l. l @ [NL]) (text_lines cur cs)) @ rest \<and> (NL \<notin> set cur \<longrightarrow> NL \<notin> set rest)"
proof (induction cur cs rule: text_lines.induct)
  case (2 cur c cs)
  then show ?case by (cases "c = NL") (simp_all, metis append.assoc append_Cons append_Nil)
qed simp

end
