(* ===== verification/Trace_Decode.thy ===== *)
theory Trace_Decode
  imports Tracer Trace_Print
begin

text \<open>
  The host decoder (\<^verbatim>\<open>tools/trace-decode.py\<close>): the two regular expressions, \<open>bytes.fromhex\<close>, \<open>parse_header\<close>, \<open>parse_record\<close> and the \<open>decode\<close>
  loop, with everything it prints.  An exception is a value of \<open>trace_error\<close>, and an \<open>ERROR\<close> line is kept as its line number and its
  reason; the wording of the reasons is left out.  The theorem here is that a dump of the tracer decodes to the archived
  records without an error, and prints each of them.
\<close>

section \<open>Decoder\<close>

abbreviation (input) MAGIC :: string where "MAGIC \<equiv> ''SEL4TRC'' @ [NUL]"

text \<open>\<open>re.compile(r"TRH([0-9]) ([0-9a-f]*)").search(line)\<close>: the leftmost match, digits taken greedily.\<close>

fun match_tag :: "string \<Rightarrow> string \<Rightarrow> (nat \<times> string) option" where
  "match_tag tag s =
     (if take (length tag) s = tag then
        (case drop (length tag) s of
           d # sp # rest \<Rightarrow>
             (if is_digit d \<and> sp = CHR '' '' then Some (of_char d - 48, takeWhile is_hex rest) else None)
         | _ \<Rightarrow> None)
      else None)"

fun search_tag :: "string \<Rightarrow> string \<Rightarrow> (nat \<times> string) option" where
  "search_tag tag [] = None"
| "search_tag tag (c # cs) =
     (case match_tag tag (c # cs) of Some m \<Rightarrow> Some m | None \<Rightarrow> search_tag tag cs)"

fun fromhex :: "string \<Rightarrow> u8 list option" where
  "fromhex [] = Some []"
| "fromhex [c] = None"
| "fromhex (c # d # cs) =
     (case (hex_val c, hex_val d) of
        (Some x, Some y) \<Rightarrow> map_option ((#) (of_nat (16 * x + y))) (fromhex cs)
      | _ \<Rightarrow> None)"

definition slice :: "nat \<Rightarrow> nat \<Rightarrow> u8 list \<Rightarrow> u8 list" where
  "slice at n raw = take n (drop at raw)"

text \<open>
  The exceptions: \<open>TraceError\<close> with what it reports, and the two a \<open>ValueError\<close> stands for, an odd number of digits and a byte that is
  not ASCII.
\<close>

datatype trace_error = OddHex | HeaderSize nat | BadMagic "u8 list" | BadVersion nat | BadRecordSize nat | NotAscii | RecordSize nat

definition ascii_field :: "u8 list \<Rightarrow> bool" where
  "ascii_field bs \<longleftrightarrow> (\<forall>b \<in> set bs. b < 0x80)"

definition stamp_text :: "u8 list \<Rightarrow> string" where
  "stamp_text field = map char_of_byte (rev (dropWhile (\<lambda>b. b = 0) (rev field)))"

definition STAMP_FIELDS :: "string list" where
  "STAMP_FIELDS = [''codename'', ''build_id'', ''bootloader'', ''baseband'', ''git_sha'', ''toolchain_sha256'', ''dtb_sha256'']"

definition stamp_slices :: "u8 list \<Rightarrow> u8 list list" where
  "stamp_slices raw = [slice 16 16 raw, slice 32 32 raw, slice 64 48 raw, slice 112 48 raw, slice 160 48 raw, slice 208 64 raw, slice 272 64 raw]"

definition parse_header :: "string \<Rightarrow> trace_error + nat \<times> nat \<times> string list" where
  "parse_header hexdata =
     (case fromhex hexdata of
        None \<Rightarrow> Inl OddHex
      | Some raw \<Rightarrow>
          (let version = le_nat (slice 8 2 raw); record_size = le_nat (slice 10 2 raw) in
           if length raw \<noteq> TRACE_HEADER_SIZE then Inl (HeaderSize (length raw))
           else if slice 0 8 raw \<noteq> map byte_of MAGIC then Inl (BadMagic (slice 0 8 raw))
           else if 9 < version then Inl (BadVersion version)
           else if record_size \<noteq> TRACE_RECORD_SIZE then Inl (BadRecordSize record_size)
           else if \<not> list_all ascii_field (stamp_slices raw) then Inl NotAscii
           else Inr (version, le_nat (slice 12 4 raw), map stamp_text (stamp_slices raw))))"

definition parse_record :: "string \<Rightarrow> trace_error + trace_record" where
  "parse_record hexdata =
     (case fromhex hexdata of
        None \<Rightarrow> Inl OddHex
      | Some raw \<Rightarrow>
          if length raw \<noteq> TRACE_RECORD_SIZE then Inl (RecordSize (length raw))
          else Inr \<lparr>tr_seq = le_word (slice 0 8 raw), tr_time = le_word (slice 8 8 raw),
            tr_pc = le_word (slice 16 8 raw), tr_addr = le_word (slice 24 8 raw),
            tr_value = le_word (slice 32 8 raw), tr_esr = le_word (slice 40 4 raw),
            tr_vcpu = le_word (slice 44 2 raw), tr_producer = le_word (slice 46 1 raw),
            tr_kind = le_word (slice 47 1 raw), tr_size = le_word (slice 48 1 raw),
            tr_flags = le_word (slice 49 1 raw), tr_reserved0 = 0, tr_reserved1 = 0\<rparr>)"

definition kinds_by_version :: "nat \<Rightarrow> nat set" where
  "kinds_by_version v = (if v = 0 then {1} else if v = 1 then {1..4} else if v = 2 then {1..5} else {1..6})"

text \<open>What goes to \<open>out\<close>: a line, or an error with its line number.  \<open>ErrHeader\<close> and \<open>ErrRecord\<close> carry the exception.\<close>

datatype decode_error =
    ErrHeader trace_error
  | ErrHeaderDigit nat nat
  | ErrHeaderDiffers
  | ErrRecordDigit nat nat
  | ErrRecord trace_error
  | ErrKind nat nat
  | ErrSeq nat nat
  | ErrNoHeader nat

datatype printed = Line string | ErrorLine nat decode_error

record decoder =
  dc_header :: "(nat \<times> string) option"              \<comment> \<open>version and the hex text of the first header\<close>
  dc_pending :: "(nat \<times> nat \<times> string) list"
  dc_expected_seq :: nat
  dc_records :: "trace_record list"                   \<comment> \<open>the records decoded; the code counts them in \<open>decoded\<close>\<close>
  dc_errors :: nat
  dc_console :: string
  dc_out :: "printed list"

definition report_error :: "nat \<Rightarrow> decode_error \<Rightarrow> decoder \<Rightarrow> decoder" where
  "report_error lineno e d = d\<lparr>dc_errors := dc_errors d + 1, dc_out := dc_out d @ [ErrorLine lineno e]\<rparr>"

definition print_line_out :: "string \<Rightarrow> decoder \<Rightarrow> decoder" where
  "print_line_out t d = d\<lparr>dc_out := dc_out d @ [Line t]\<rparr>"

definition decode_record :: "int option \<Rightarrow> nat \<Rightarrow> nat \<times> nat \<times> string \<Rightarrow> decoder \<Rightarrow> decoder" where
  "decode_record tx version args d = (case args of (lineno, digit, hexdata) \<Rightarrow>
     if digit \<noteq> version then report_error lineno (ErrRecordDigit digit version) d
     else (case parse_record hexdata of
       Inl e \<Rightarrow> report_error lineno (ErrRecord e) d
     | Inr rec \<Rightarrow>
         (let kind = unat (tr_kind rec); seq = unat (tr_seq rec);
              d1 = (if kind \<notin> kinds_by_version version then report_error lineno (ErrKind kind version) d else d);
              d2 = (if seq \<noteq> dc_expected_seq d1 then report_error lineno (ErrSeq seq (dc_expected_seq d1)) d1 else d1);
              d3 = d2\<lparr>dc_expected_seq := seq + 1, dc_records := dc_records d2 @ [rec]\<rparr>;
              d4 = print_line_out (format_record rec) d3;
              (line, text_line) = console_feed tx rec (dc_console d4);
              d5 = d4\<lparr>dc_console := line\<rparr>
          in (case text_line of None \<Rightarrow> d5 | Some t \<Rightarrow> print_line_out (''  guest| '' @ t) d5))))"

definition header_lines :: "nat \<Rightarrow> nat \<Rightarrow> string list \<Rightarrow> string list" where
  "header_lines version cntfrq stamp =
     (''trace v'' @ dec_digits version @ '' cntfrq='' @ dec_digits cntfrq) # map (\<lambda>(name, t). ''  '' @ name @ '': '' @ t) (zip STAMP_FIELDS stamp)"

definition decode_line :: "int option \<Rightarrow> nat \<times> string \<Rightarrow> decoder \<Rightarrow> decoder" where
  "decode_line tx ln d = (case ln of (lineno, line) \<Rightarrow>
     (case search_tag ''TRH'' line of
        Some (digit, hexdata) \<Rightarrow>
          (case parse_header hexdata of
             Inl e \<Rightarrow> report_error lineno (ErrHeader e) d
           | Inr (version, cntfrq, stamp) \<Rightarrow>
               if digit \<noteq> version then report_error lineno (ErrHeaderDigit digit version) d
               else (case dc_header d of
                  Some (v, first) \<Rightarrow> if hexdata \<noteq> first then report_error lineno ErrHeaderDiffers d else d
                | None \<Rightarrow>
                    (let d1 = fold print_line_out (header_lines version cntfrq stamp) (d\<lparr>dc_header := Some (version, hexdata)\<rparr>)
                     in (fold (decode_record tx version) (dc_pending d1) d1)\<lparr>dc_pending := []\<rparr>)))
      | None \<Rightarrow>
          (case search_tag ''TRC'' line of
             None \<Rightarrow> d
           | Some (digit, hexdata) \<Rightarrow>
               (case dc_header d of
                  None \<Rightarrow> d\<lparr>dc_pending := dc_pending d @ [(lineno, digit, hexdata)]\<rparr>
                | Some (v, first) \<Rightarrow> decode_record tx v (lineno, digit, hexdata) d))))"

definition empty_decoder :: decoder where
  "empty_decoder = \<lparr>dc_header = None, dc_pending = [], dc_expected_seq = 0, dc_records = [], dc_errors = 0, dc_console = [], dc_out = []\<rparr>"

text \<open>The number of errors \<open>decode\<close> returns, the records it decoded and what it printed.\<close>

definition decode :: "int option \<Rightarrow> string list \<Rightarrow> nat \<times> trace_record list \<times> printed list" where
  "decode tx ls =
     (let d = fold (decode_line tx) (zip [1..<length ls + 1] ls) empty_decoder;
          d1 = (if dc_header d = None then report_error 0 (ErrNoHeader (length (dc_pending d))) d else d);
          d2 = print_line_out (dec_digits (length (dc_records d1)) @ '' records, '' @ dec_digits (dc_errors d1) @ '' errors'') d1
      in (dc_errors d2, dc_records d2, dc_out d2))"

text \<open>\<open>main\<close> ends with status 1 when there was an error.\<close>

definition decoder_status :: "int option \<Rightarrow> string list \<Rightarrow> nat" where
  "decoder_status tx ls = (if fst (decode tx ls) \<noteq> 0 then 1 else 0)"

text \<open>Iterating a text file splits it into lines, reading CR and CR LF as a newline.\<close>

fun lines_of :: "string \<Rightarrow> string \<Rightarrow> string list" where
  "lines_of acc [] = (if acc = [] then [] else [acc])"
| "lines_of acc (c # cs) =
     (if c = NL then (acc @ [NL]) # lines_of [] cs
      else if c = CR then (acc @ [NL]) # lines_of [] (if cs \<noteq> [] \<and> hd cs = NL then tl cs else cs)
      else lines_of (acc @ [c]) cs)"

section \<open>Hex text\<close>

lemma unat_low_nibble: "unat (b AND 0xf) = unat (b :: u8) mod 16"
proof -
  have "(0xf :: u8) = mask 4" by (simp add: mask_eq_exp_minus_1)
  then have "unat (b AND 0xf) = unat (take_bit 4 b)" by (simp only: take_bit_eq_mask)
  then show ?thesis by (simp add: take_bit_eq_mod unat_mod)
qed

lemma unat_high_nibble: "unat (drop_bit 4 b) = unat (b :: u8) div 16"
  by (simp add: drop_bit_eq_div unat_div)

lemma byte_split: "of_nat (16 * unat (drop_bit 4 b) + unat (b AND 0xf)) = (b :: u8)"
proof -
  have "16 * unat (drop_bit 4 b) + unat (b AND 0xf) = unat b" by (simp only: unat_low_nibble unat_high_nibble) simp
  then show ?thesis by (simp only: word_of_unat [symmetric])
qed

lemma fromhex_byte_hex: "fromhex (concat (map byte_hex bs)) = Some bs"
proof (induction bs)
  case (Cons b bs)
  have "unat b < 2 ^ LENGTH(8)" by (rule unsigned_less)
  then have "unat (drop_bit 4 b) < 16" "unat (b AND 0xf) < 16"
    by (simp_all only: unat_low_nibble unat_high_nibble) simp_all
  then show ?case using Cons byte_split [of b] by (simp add: byte_hex_def hex_val_digit)
qed simp

lemma byte_hex_is_hex: "\<forall>c \<in> set (concat (map byte_hex bs)). is_hex c"
  by (induction bs) (simp_all add: byte_hex_def is_hex_digit)

lemma takeWhile_hex: "takeWhile is_hex (concat (map byte_hex bs) @ [NL]) = concat (map byte_hex bs)"
  using byte_hex_is_hex [of bs] by (subst takeWhile_append2) (auto simp: is_hex_def hex_val_def)

lemma hex_no: "\<not> is_hex c \<Longrightarrow> c \<notin> set (concat (map byte_hex bs))"
  using byte_hex_is_hex [of bs] by blast

lemma not_hex: "\<not> is_hex (CHR ''T'')" "\<not> is_hex NL" "\<not> is_hex CR"
  by (simp_all add: is_hex_def hex_val_def)

lemma search_none: "CHR ''T'' \<notin> set s \<Longrightarrow> search_tag (CHR ''T'' # t) s = None"
  by (induction s) auto

lemma search_header_line: "search_tag ''TRH'' (line_of HEADER_PREFIX bs) = Some (9, concat (map byte_hex bs))"
  by (simp add: line_of_def is_digit_def takeWhile_hex del: concat.simps)

lemma search_record_line:
  "search_tag ''TRH'' (line_of RECORD_PREFIX bs) = None"
  "search_tag ''TRC'' (line_of RECORD_PREFIX bs) = Some (9, concat (map byte_hex bs))"
  using hex_no [OF not_hex(1), of bs]
  by (simp_all add: line_of_def is_digit_def takeWhile_hex search_none del: concat.simps)

section \<open>Records and headers read back\<close>

definition without_reserved :: "trace_record \<Rightarrow> trace_record" where
  "without_reserved r = r\<lparr>tr_reserved0 := 0, tr_reserved1 := 0\<rparr>"

lemma slice_append:
  "at = length xs \<Longrightarrow> slice at n (xs @ ys) = take n ys"
  by (simp add: slice_def)

lemma parse_record_line: "parse_record (concat (map byte_hex (record_bytes r))) = Inr (without_reserved r)"
  by (simp add: parse_record_def fromhex_byte_hex without_reserved_def)
    (simp add: record_bytes_def slice_def le_word_le_bytes)

text \<open>The strings of the stamp are C strings in ASCII; the decoder prints as much of each as its field holds.\<close>

definition stamp_strings :: "stamp \<Rightarrow> (nat \<times> string) list" where
  "stamp_strings st = [(16, st_codename st), (32, st_build_id st), (48, st_bootloader st), (48, st_baseband st), (48, st_git_sha st),
     (64, st_toolchain_sha256 st), (64, st_dtb_sha256 st)]"

definition ascii_text :: "string \<Rightarrow> bool" where
  "ascii_text t \<longleftrightarrow> (\<forall>c \<in> set t. c \<noteq> NUL \<and> (of_char c :: nat) < 128)"

definition ascii_stamp :: "stamp \<Rightarrow> bool" where
  "ascii_stamp st \<longleftrightarrow> list_all (\<lambda>(n, t). ascii_text t) (stamp_strings st)"

definition stamp_shown :: "stamp \<Rightarrow> string list" where
  "stamp_shown st = map (\<lambda>(n, t). take n t) (stamp_strings st)"

lemma copy_field_eq: "NUL \<notin> set src \<Longrightarrow> copy_field n src = take n src @ replicate (n - length src) NUL"
  by (induction n src rule: copy_field.induct) auto

lemma byte_of_eq_0: "byte_of c = 0 \<longleftrightarrow> c = NUL"
proof -
  have "byte_of NUL = 0" by (simp add: byte_of_def)
  then show ?thesis using char_of_byte_of [of c] char_of_byte_of [of NUL] by metis
qed

lemma stamp_field:
  assumes "ascii_text t"
  shows "ascii_field (map byte_of (copy_field n t))" and "stamp_text (map byte_of (copy_field n t)) = take n t"
proof -
  have nul: "NUL \<notin> set t" using assms by (auto simp: ascii_text_def)
  have "(byte_of c :: u8) < 0x80" if "c \<in> set (copy_field n t)" for c
  proof -
    have "c = NUL \<or> c \<in> set t" using that in_set_takeD [of c n t] unfolding copy_field_eq [OF nul] set_append Un_iff in_set_replicate by blast
    moreover have "(of_char NUL :: nat) < 128" by simp
    ultimately have "(of_char c :: nat) < 128" using assms unfolding ascii_text_def by metis
    then show ?thesis by (simp add: byte_of_def word_less_nat_alt unat_of_nat)
  qed
  then show "ascii_field (map byte_of (copy_field n t))" by (simp add: ascii_field_def)
  have "dropWhile (\<lambda>b. b = 0) (rev (map byte_of (take n t))) = rev (map byte_of (take n t))"
  proof (cases "take n t = []")
    case False
    then have "last (take n t) \<noteq> NUL" using nul last_in_set [OF False] in_set_takeD by metis
    then show ?thesis using False by (simp add: dropWhile_eq_self_iff hd_rev last_map byte_of_eq_0)
  next
    case True
    then show ?thesis by (simp only: list.map rev.simps dropWhile.simps)
  qed
  moreover have "dropWhile (\<lambda>b. b = 0) (replicate k 0 @ xs) = dropWhile (\<lambda>b. b = 0) xs" for k and xs :: "u8 list" by (induction k) simp_all
  moreover have "byte_of NUL = 0" by (simp add: byte_of_eq_0)
  ultimately show "stamp_text (map byte_of (copy_field n t)) = take n t"
    by (simp add: stamp_text_def copy_field_eq [OF nul] rev_map [symmetric] comp_def)
qed

lemma parse_header_line:
  assumes "ascii_stamp st"
  shows "parse_header (concat (map byte_hex (header_bytes (trace_header_of st f)))) = Inr (9, unat f, stamp_shown st)"
proof -
  let ?h = "trace_header_of st f"
  let ?tail = "map byte_of (th_codename ?h) @ map byte_of (th_build_id ?h) @ map byte_of (th_bootloader ?h)
     @ map byte_of (th_baseband ?h) @ map byte_of (th_git_sha ?h) @ map byte_of (th_toolchain_sha256 ?h)
     @ map byte_of (th_dtb_sha256 ?h)"
  have "unat f < 2 ^ LENGTH(32)" by (rule unsigned_less)
  have magic: "copy_field 8 TRACE_MAGIC = MAGIC" by (simp add: numeral_eq_Suc)
  have raw: "header_bytes ?h = map byte_of MAGIC @ le_bytes 2 TRACE_VERSION @ le_bytes 2 (64 :: u16) @ le_bytes 4 f @ ?tail"
    using magic by (simp add: header_bytes_def trace_header_of_def)
  have stamps: "stamp_slices (header_bytes ?h) = map (\<lambda>(n, t). map byte_of (copy_field n t)) (stamp_strings st)"
    unfolding raw by (simp add: stamp_slices_def stamp_strings_def slice_def trace_header_of_def)
  have "list_all ascii_field (stamp_slices (header_bytes ?h))" "map stamp_text (stamp_slices (header_bytes ?h)) = stamp_shown st"
    using assms unfolding stamps by (simp_all add: stamp_strings_def ascii_stamp_def stamp_shown_def stamp_field)
  moreover have "slice 0 8 (header_bytes ?h) = map byte_of MAGIC" unfolding raw by (simp add: slice_def)
  moreover have "le_nat (slice 8 2 (header_bytes ?h)) = 9" unfolding raw by (simp add: slice_def le_nat_le_bytes)
  moreover have "le_nat (slice 10 2 (header_bytes ?h)) = 64" unfolding raw by (simp add: slice_def le_nat_le_bytes)
  moreover have "le_nat (slice 12 4 (header_bytes ?h)) = unat f"
    using \<open>unat f < 2 ^ LENGTH(32)\<close> unfolding raw by (simp add: slice_def le_nat_le_bytes)
  ultimately show ?thesis
    using header_bytes_length [OF header_of_wf [of st f]] by (simp add: parse_header_def fromhex_byte_hex Let_def)
qed

section \<open>The round trip\<close>

fun dump_lines :: "stamp \<Rightarrow> u32 \<Rightarrow> nat \<Rightarrow> trace_record list \<Rightarrow> string list" where
  "dump_lines st f since [] = []"
| "dump_lines st f since (r # rs) =
     (if since = TRACE_HEADER_INTERVAL then [header_line st f, record_line r] @ dump_lines st f 1 rs
      else record_line r # dump_lines st f (since + 1) rs)"

lemma lines_of_line: "NL \<notin> set xs \<Longrightarrow> CR \<notin> set xs \<Longrightarrow> lines_of acc (xs @ NL # ys) = (acc @ xs @ [NL]) # lines_of [] ys"
  by (induction xs arbitrary: acc) auto

lemma lines_of_line_of:
  "NL \<notin> set prefix \<Longrightarrow> CR \<notin> set prefix \<Longrightarrow> lines_of [] (line_of prefix bs @ ys) = line_of prefix bs # lines_of [] ys"
  using lines_of_line [of "prefix @ concat (map byte_hex bs)" "[]" ys] hex_no [OF not_hex(2), of bs] hex_no [OF not_hex(3), of bs]
  by (simp add: line_of_def del: set_concat)

lemma lines_header: "lines_of [] (header_line st f @ ys) = header_line st f # lines_of [] ys"
  unfolding header_line_def by (rule lines_of_line_of) simp_all

lemma lines_record: "lines_of [] (record_line r @ ys) = record_line r # lines_of [] ys"
  unfolding record_line_def by (rule lines_of_line_of) simp_all

lemma lines_dump: "lines_of [] (dump_text st f since rs) = dump_lines st f since rs"
  by (induction st f since rs rule: dump_text.induct) (simp_all add: lines_header lines_record)

definition header_hex :: "stamp \<Rightarrow> u32 \<Rightarrow> string" where
  "header_hex st f = concat (map byte_hex (header_bytes (trace_header_of st f)))"

lemma fold_print: "fold print_line_out ts d = d\<lparr>dc_out := dc_out d @ map Line ts\<rparr>"
  by (induction ts arbitrary: d) (simp_all add: print_line_out_def)

lemma decode_header_line:
  assumes "ascii_stamp st"
  shows "dc_header d = Some (9, header_hex st f) \<Longrightarrow> decode_line tx (n, header_line st f) d = d"
    and "dc_header d = None \<Longrightarrow> dc_pending d = [] \<Longrightarrow>
      decode_line tx (n, header_line st f) d = d\<lparr>dc_header := Some (9, header_hex st f), dc_pending := [],
        dc_out := dc_out d @ map Line (header_lines 9 (unat f) (stamp_shown st))\<rparr>"
  unfolding decode_line_def header_line_def prod.case search_header_line
  by (simp_all add: parse_header_line [OF assms] header_hex_def fold_print Let_def)

lemma decode_record_line:
  assumes "dc_header d = Some (9, hh)" and "unat (tr_kind r) \<in> {1..6}" and "unat (tr_seq r) = dc_expected_seq d"
  shows "decode_line tx (n, record_line r) d
    = d\<lparr>dc_expected_seq := unat (tr_seq r) + 1, dc_records := dc_records d @ [without_reserved r],
        dc_console := fst (console_feed tx (without_reserved r) (dc_console d)),
        dc_out := dc_out d @ map Line (printed_records tx (dc_console d) [without_reserved r])\<rparr>"
proof -
  let ?r = "without_reserved r"
  have f: "tr_kind ?r = tr_kind r" "tr_seq ?r = tr_seq r" by (simp_all add: without_reserved_def)
  show ?thesis
    unfolding decode_line_def record_line_def prod.case search_record_line
    using assms by (simp add: decode_record_def parse_record_line kinds_by_version_def f print_line_out_def Let_def split: prod.split option.split)
qed

text \<open>Records a producer of this version emits, numbered from \<open>k\<close>.\<close>

definition numbered :: "nat \<Rightarrow> trace_record list \<Rightarrow> bool" where
  "numbered k rs \<longleftrightarrow> map (unat \<circ> tr_seq) rs = [k..<k + length rs] \<and> (\<forall>r \<in> set rs. unat (tr_kind r) \<in> {1..6})"

lemma numbered_Cons: "numbered k (r # rs) \<longleftrightarrow> unat (tr_seq r) = k \<and> unat (tr_kind r) \<in> {1..6} \<and> numbered (Suc k) rs"
  by (auto simp: numbered_def upt_rec [of k])

text \<open>The decoder after records it printed without an error.\<close>

definition after_records :: "int option \<Rightarrow> trace_record list \<Rightarrow> decoder \<Rightarrow> decoder" where
  "after_records tx rs d = d\<lparr>dc_expected_seq := dc_expected_seq d + length rs, dc_records := dc_records d @ rs,
     dc_console := fold (\<lambda>r l. fst (console_feed tx r l)) rs (dc_console d), dc_out := dc_out d @ map Line (printed_records tx (dc_console d) rs)\<rparr>"

lemma after_records_Cons: "after_records tx (r # rs) d = after_records tx rs (after_records tx [r] d)"
  by (simp add: after_records_def split: prod.split option.split)

lemma decode_dump:
  assumes "ascii_stamp st"
  shows "dc_header d = Some (9, header_hex st f) \<Longrightarrow> numbered (dc_expected_seq d) rs \<Longrightarrow> length ns = length (dump_lines st f since rs) \<Longrightarrow>
    fold (decode_line tx) (zip ns (dump_lines st f since rs)) d = after_records tx (map without_reserved rs) d"
proof (induction rs arbitrary: d since ns)
  case Nil
  then show ?case by (simp add: after_records_def)
next
  case (Cons r rs)
  let ?d = "after_records tx [without_reserved r] d"
  from Cons.prems have seq: "unat (tr_seq r) = dc_expected_seq d" and kind: "unat (tr_kind r) \<in> {1..6}"
    and rest: "numbered (Suc (dc_expected_seq d)) rs" by (simp_all add: numbered_Cons)
  have rec: "decode_line tx (n, record_line r) d = ?d" for n
    using decode_record_line [OF Cons.prems(1) kind seq, of tx n] seq by (simp add: after_records_def)
  have IH: "fold (decode_line tx) (zip ms (dump_lines st f k rs)) ?d = after_records tx (map without_reserved rs) ?d"
    if "length ms = length (dump_lines st f k rs)" for ms k
    using Cons.IH [of ?d ms k] Cons.prems(1) rest that by (simp add: after_records_def)
  show ?case
  proof (cases "since = TRACE_HEADER_INTERVAL")
    case True
    then obtain n m ms where "ns = n # m # ms" "length ms = length (dump_lines st f 1 rs)"
      using Cons.prems(3) by (auto simp: length_Suc_conv)
    then show ?thesis
      using True rec decode_header_line(1) [OF assms Cons.prems(1)] IH [of ms 1] after_records_Cons [of tx "without_reserved r" "map without_reserved rs" d]
      by simp
  next
    case False
    then obtain n ms where "ns = n # ms" "length ms = length (dump_lines st f (since + 1) rs)"
      using Cons.prems(3) by (auto simp: length_Suc_conv)
    then show ?thesis
      using False rec IH [of ms "since + 1"] after_records_Cons [of tx "without_reserved r" "map without_reserved rs" d] by simp
  qed
qed

lemma decode_dump_text:
  assumes "ascii_stamp st" and "numbered 0 rs" and "rs \<noteq> []"
  shows "decode tx (lines_of [] (dump_text st f TRACE_HEADER_INTERVAL rs))
    = (0, map without_reserved rs,
       map Line (header_lines 9 (unat f) (stamp_shown st) @ printed_records tx [] (map without_reserved rs)
         @ [dec_digits (length rs) @ '' records, '' @ dec_digits 0 @ '' errors'']))"
proof -
  obtain r rs' where rs: "rs = r # rs'" using assms(3) by (cases rs) auto
  let ?d = "empty_decoder\<lparr>dc_header := Some (9, header_hex st f), dc_pending := [],
      dc_out := map Line (header_lines 9 (unat f) (stamp_shown st))\<rparr>"
  let ?ls = "dump_lines st f TRACE_HEADER_INTERVAL rs" and ?ls' = "dump_lines st f 0 rs"
  have h: "decode_line tx (n, header_line st f) empty_decoder = ?d" for n
    using decode_header_line(2) [OF assms(1), of empty_decoder tx n f] by (simp add: empty_decoder_def)
  have "?ls = header_line st f # ?ls'" by (simp add: rs)
  moreover have "zip [1..<length (x # xs) + 1] (x # xs) = (1, x) # zip [2..<length xs + 2] xs" for x and xs :: "string list"
    by (simp add: upt_conv_Cons numeral_2_eq_2 del: upt_Suc)
  ultimately have "fold (decode_line tx) (zip [1..<length ?ls + 1] ?ls) empty_decoder
      = fold (decode_line tx) (zip [2..<length ?ls' + 2] ?ls') ?d" using h by (simp del: upt_Suc)
  also have "\<dots> = after_records tx (map without_reserved rs) ?d"
    by (rule decode_dump [OF assms(1)]) (use assms(2) in \<open>simp_all add: empty_decoder_def del: upt_Suc\<close>)
  finally have d: "fold (decode_line tx) (zip [1..<length ?ls + 1] ?ls) empty_decoder = after_records tx (map without_reserved rs) ?d" .
  show ?thesis
    unfolding decode_def lines_dump d Let_def by (simp add: after_records_def empty_decoder_def print_line_out_def)
qed

text \<open>
  C4. A dump reads back: decoding the lines the tracer prints for a non-empty archive whose records
  are numbered from 0 and of the six kinds of this format version gives exactly those records (but
  for the reserved bytes, which the decoder skips), with no error; the decoder prints the header with the
  stamp, every record, the guest's lines as they are completed, and the count.
\<close>

theorem dump_decode_roundtrip:
  assumes "ascii_stamp st" and "numbered 0 rs" and "rs \<noteq> []"
  shows "decode tx (lines_of [] (dump_text st f TRACE_HEADER_INTERVAL rs))
    = (0, map without_reserved rs,
       map Line (header_lines 9 (unat f) (stamp_shown st) @ printed_records tx [] (map without_reserved rs)
         @ [dec_digits (length rs) @ '' records, '' @ dec_digits 0 @ '' errors'']))"
  by (rule decode_dump_text [OF assms])

definition demo_stamp :: stamp where
  "demo_stamp = \<lparr>st_codename = ''caiman'', st_build_id = ''b'', st_bootloader = ''c'', st_baseband = ''d'',
     st_git_sha = ''e'', st_toolchain_sha256 = ''f'', st_dtb_sha256 = ''g''\<rparr>"

lemma demo_stamp_ascii: "ascii_stamp demo_stamp"
  by (simp add: ascii_stamp_def demo_stamp_def stamp_strings_def ascii_text_def)

theorem dump_decode_roundtrip_witness:
  "fst (snd (decode None (lines_of [] (dump_text demo_stamp 24576000 TRACE_HEADER_INTERVAL
     [zero_record\<lparr>tr_kind := TRACE_KIND_GUEST\<rparr>, zero_record\<lparr>tr_seq := 1, tr_kind := TRACE_KIND_CMD\<rparr>]))))
   = [zero_record\<lparr>tr_kind := TRACE_KIND_GUEST\<rparr>, zero_record\<lparr>tr_seq := 1, tr_kind := TRACE_KIND_CMD\<rparr>]"
proof -
  have "numbered 0 [zero_record\<lparr>tr_kind := TRACE_KIND_GUEST\<rparr>, zero_record\<lparr>tr_seq := 1, tr_kind := TRACE_KIND_CMD\<rparr>]"
    by (simp add: numbered_def zero_record_def)
  from dump_decode_roundtrip [OF demo_stamp_ascii this] show ?thesis by (simp add: without_reserved_def zero_record_def)
qed

end
