(* ===== verification/Trace_Log.thy ===== *)
theory Trace_Log
  imports Trace_Decode
begin

text \<open>
  Serial logs as the decoder (\<^verbatim>\<open>tools/trace-decode.py\<close>) finds them: a dump among other console output, and dumps whose records are not
  numbered as they should be.
\<close>

section \<open>Other output around a dump\<close>

definition untagged :: "string \<Rightarrow> bool" where
  "untagged line \<longleftrightarrow> search_tag ''TRH'' line = None \<and> search_tag ''TRC'' line = None"

definition other_output :: "string \<Rightarrow> bool" where
  "other_output t \<longleftrightarrow> list_all untagged (lines_of [] t)"

lemma fold_untagged: "list_all untagged ls \<Longrightarrow> fold (decode_line tx) (zip ns ls) d = d"
proof (induction ls arbitrary: ns)
  case (Cons l ls)
  then show ?case by (cases ns) (simp_all add: untagged_def decode_line_def)
qed simp

lemma lines_of_append: "pre = [] \<and> acc = [] \<or> pre \<noteq> [] \<and> last pre = NL \<Longrightarrow> lines_of acc (pre @ rest) = lines_of acc pre @ lines_of [] rest"
proof (induction acc pre rule: lines_of.induct)
  case (2 acc c cs)
  consider "c = NL" | "c = CR" "c \<noteq> NL" | "c \<noteq> NL" "c \<noteq> CR" by blast
  then show ?case
  proof cases
    case 1
    then show ?thesis using 2 by (cases cs) simp_all
  next
    case 2: 2
    then obtain d ds where cs: "cs = d # ds" using "2.prems" by (cases cs) auto
    let ?t = "if d = NL then ds else cs"
    have "?t = [] \<or> last ?t = NL" using "2.prems" cs by (auto split: if_splits)
    then have "lines_of [] (?t @ rest) = lines_of [] ?t @ lines_of [] rest" using "2.IH"(2) 2 cs by (cases "?t = []") auto
    then show ?thesis using 2 cs by auto
  next
    case 3
    then show ?thesis using 2 by (cases cs) auto
  qed
qed simp

lemma summary_untagged: "lines_of [] (dump_summary a @ post) = dump_summary a # lines_of [] post" "untagged (dump_summary a)"
proof -
  let ?rest = "''RACER|INFO: dumped '' @ put_dec (ar_count a) @ '' records, '' @ put_dec (ar_not_archived a) @ '' not archived (archive full)''"
  have eq: "dump_summary a = (CHR ''T'' # ?rest) @ [NL]" by (simp add: dump_summary_def)
  have no: "NL \<notin> set ?rest" "CR \<notin> set ?rest" "CHR ''T'' \<notin> set ?rest" by (simp_all add: put_dec_plain is_digit_def)
  show "lines_of [] (dump_summary a @ post) = dump_summary a # lines_of [] post"
    using lines_of_line [of "CHR ''T'' # ?rest" "[]" post] no unfolding eq by simp
  have "search_tag (CHR ''T'' # t) (?rest @ [NL]) = None" for t using no(3) by (intro search_none) simp
  then show "untagged (dump_summary a)" unfolding untagged_def eq by simp
qed

text \<open>The dump and its summary, anywhere in a log after a complete line.\<close>

definition dump_in_log :: "stamp \<Rightarrow> u32 \<Rightarrow> string \<Rightarrow> trace_archive \<Rightarrow> string \<Rightarrow> string" where
  "dump_in_log st f pre a post = pre @ dump_text st f TRACE_HEADER_INTERVAL (archived a) @ dump_summary a @ post"

lemma lines_of_dump_append: "lines_of [] (dump_text st f since rs @ post) = dump_lines st f since rs @ lines_of [] post"
  by (induction st f since rs rule: dump_text.induct) (simp_all add: lines_header lines_record)

lemma decode_log:
  assumes "pre = [] \<or> last pre = NL" and "other_output pre" and "other_output post"
    and "ascii_stamp st" and "numbered 0 (archived a)" and "archived a \<noteq> []"
  shows "decode tx (lines_of [] (dump_in_log st f pre a post)) = decode tx (lines_of [] (dump_text st f TRACE_HEADER_INTERVAL (archived a)))"
proof -
  let ?ls = "dump_lines st f TRACE_HEADER_INTERVAL (archived a)" and ?d = "fold (decode_line tx)"
  have lines: "lines_of [] (dump_in_log st f pre a post) = lines_of [] pre @ ?ls @ (dump_summary a # lines_of [] post)"
    using lines_of_append [of pre "[]"] assms(1) by (auto simp: dump_in_log_def lines_of_dump_append summary_untagged(1))
  obtain r rs where rs: "archived a = r # rs" using assms(6) by (cases "archived a") auto
  have first: "?d (zip (n # ms) ?ls) empty_decoder = ?d (zip (m # ms') ?ls) empty_decoder"
    if len: "length (n # ms) = length ?ls" "length (m # ms') = length ?ls" for n m :: nat and ms ms'
  proof -
    let ?d' = "empty_decoder\<lparr>dc_header := Some (9, header_hex st f), dc_pending := [],
      dc_out := map Line (header_lines 9 (unat f) (stamp_shown st))\<rparr>"
    have ls: "?ls = header_line st f # dump_lines st f 0 (archived a)" by (simp add: rs)
    have h: "decode_line tx (n, header_line st f) empty_decoder = ?d'" for n
      using decode_header_line(2) [OF assms(4), of empty_decoder tx n f] by (simp add: empty_decoder_def)
    have "?d (zip ms (dump_lines st f 0 (archived a))) ?d' = after_records tx (map without_reserved (archived a)) ?d'"
      if "length ms = length (dump_lines st f 0 (archived a))" for ms
      by (rule decode_dump [OF assms(4)]) (use assms(5) that in \<open>simp_all add: empty_decoder_def\<close>)
    then show ?thesis using len unfolding ls by (simp add: h)
  qed
  have "?d (zip ns (lines_of [] pre @ ?ls @ (dump_summary a # lines_of [] post))) empty_decoder = ?d (zip ks ?ls) empty_decoder"
    if len: "length ns = length (lines_of [] pre @ ?ls @ (dump_summary a # lines_of [] post))" "length ks = length ?ls" for ns ks
  proof -
    let ?ns = "drop (length (lines_of [] pre)) ns"
    have after: "list_all untagged (dump_summary a # lines_of [] post)" using assms(3) summary_untagged(2) by (simp add: other_output_def)
    have "?d (zip ns (lines_of [] pre @ ?ls @ (dump_summary a # lines_of [] post))) empty_decoder = ?d (zip (take (length ?ls) ?ns) ?ls) empty_decoder"
      using assms(2) by (simp only: zip_append2 fold_append comp_def other_output_def fold_untagged fold_untagged [OF after])
    moreover obtain n ms m ms' where "take (length ?ls) ?ns = n # ms" "ks = m # ms'"
      using len rs by (cases "take (length ?ls) ?ns"; cases ks) auto
    ultimately show ?thesis using first [of n ms m ms'] len by (metis length_take length_drop length_append add_diff_cancel_left' min.absorb2 le_add1)
  qed
  then have "?d (zip [1..<length (lines_of [] (dump_in_log st f pre a post)) + 1] (lines_of [] (dump_in_log st f pre a post))) empty_decoder
      = ?d (zip [1..<length ?ls + 1] ?ls) empty_decoder"
    unfolding lines by (simp del: upt_Suc)
  then show ?thesis unfolding decode_def lines_dump by (simp only:)
qed

section \<open>Gaps\<close>

text \<open>What the records of a dump are owed: an error for each undefined kind and for each record that does not follow the one before.\<close>

fun record_errors :: "nat \<Rightarrow> trace_record list \<Rightarrow> nat" where
  "record_errors k [] = 0"
| "record_errors k (r # rs) = (if unat (tr_kind r) \<in> {1..6} then 0 else 1) + (if unat (tr_seq r) = k then 0 else 1)
     + record_errors (unat (tr_seq r) + 1) rs"

lemma record_errors_0: "record_errors k rs = 0 \<longleftrightarrow> numbered k rs"
proof (induction rs arbitrary: k)
  case Nil
  then show ?case by (simp add: numbered_def)
next
  case (Cons r rs)
  then show ?case by (auto simp: numbered_Cons)
qed

definition counts :: "decoder \<Rightarrow> (nat \<times> string) option \<times> nat \<times> trace_record list \<times> nat" where
  "counts d = (dc_header d, dc_expected_seq d, dc_records d, dc_errors d)"

lemma decode_record_counts:
  assumes "counts d = (Some (9, hh), k, rs, e)"
  shows "counts (decode_line tx (n, record_line r) d)
    = (Some (9, hh), unat (tr_seq r) + 1, rs @ [without_reserved r],
       e + (if unat (tr_kind r) \<in> {1..6} then 0 else 1) + (if unat (tr_seq r) = k then 0 else 1))"
proof -
  let ?r = "without_reserved r"
  have f: "tr_kind ?r = tr_kind r" "tr_seq ?r = tr_seq r" by (simp_all add: without_reserved_def)
  show ?thesis
    unfolding decode_line_def record_line_def prod.case search_record_line
    using assms by (simp add: counts_def decode_record_def parse_record_line kinds_by_version_def f print_line_out_def report_error_def Let_def
        split: prod.split option.split)
qed

lemma decode_dump_counts:
  assumes "ascii_stamp st"
  shows "counts d = (Some (9, header_hex st f), k, qs, e) \<Longrightarrow> length ns = length (dump_lines st f since rs) \<Longrightarrow>
    \<exists>k'. counts (fold (decode_line tx) (zip ns (dump_lines st f since rs)) d)
      = (Some (9, header_hex st f), k', qs @ map without_reserved rs, e + record_errors k rs)"
proof (induction rs arbitrary: d k qs e since ns)
  case Nil
  then show ?case by simp
next
  case (Cons r rs)
  let ?e = "e + (if unat (tr_kind r) \<in> {1..6} then 0 else 1) + (if unat (tr_seq r) = k then 0 else 1)"
  have IH: "\<exists>k'. counts (fold (decode_line tx) (zip ms (dump_lines st f j rs)) (decode_line tx (n, record_line r) d))
      = (Some (9, header_hex st f), k', (qs @ [without_reserved r]) @ map without_reserved rs, ?e + record_errors (unat (tr_seq r) + 1) rs)"
    if "length ms = length (dump_lines st f j rs)" for n ms j
    using Cons.IH [OF decode_record_counts [OF Cons.prems(1)] that] .
  show ?case
  proof (cases "since = TRACE_HEADER_INTERVAL")
    case True
    then obtain n m ms where ns: "ns = n # m # ms" "length ms = length (dump_lines st f 1 rs)"
      using Cons.prems(2) by (auto simp: length_Suc_conv)
    have "decode_line tx (n, header_line st f) d = d" using Cons.prems(1) by (intro decode_header_line(1) [OF assms]) (simp add: counts_def)
    then show ?thesis using True IH [of ms 1 m] ns by (simp add: add.assoc)
  next
    case False
    then obtain n ms where "ns = n # ms" "length ms = length (dump_lines st f (since + 1) rs)"
      using Cons.prems(2) by (auto simp: length_Suc_conv)
    then show ?thesis using False IH [of ms "since + 1" n] by (simp add: add.assoc)
  qed
qed

text \<open>
  C23. A gap is always reported, and reported once: from a non-empty dump of any records whatever, the decoder takes every
  record, and its errors are one for each undefined kind and one for each place where the numbering does not go on, so that one missing run of
  records is one error.  It exits with status 0 exactly when the records are numbered from 0 without a gap and all kinds are defined.
\<close>

theorem decoder_detects_gaps:
  fixes f :: u32
  assumes "ascii_stamp st" and "rs \<noteq> []"
  defines "ls \<equiv> lines_of [] (dump_text st f TRACE_HEADER_INTERVAL rs)"
  shows "fst (decode tx ls) = record_errors 0 rs \<and> fst (snd (decode tx ls)) = map without_reserved rs
    \<and> (decoder_status tx ls = 0 \<longleftrightarrow> numbered 0 rs)"
proof -
  obtain r rs' where rs: "rs = r # rs'" using assms(2) by (cases rs) auto
  let ?d = "empty_decoder\<lparr>dc_header := Some (9, header_hex st f), dc_pending := [],
      dc_out := map Line (header_lines 9 (unat f) (stamp_shown st))\<rparr>"
  have ls: "ls = header_line st f # dump_lines st f 0 rs" unfolding ls_def lines_dump by (simp add: rs)
  then obtain n ns where ns: "[1..<length ls + 1] = n # ns" "length ns = length (dump_lines st f 0 rs)"
    by (cases "[1..<length ls + 1]") (auto dest: arg_cong [of _ _ length] simp del: upt_Suc)
  have h: "decode_line tx (n, header_line st f) empty_decoder = ?d"
    using decode_header_line(2) [OF assms(1), of empty_decoder tx n f] by (simp add: empty_decoder_def)
  have "counts ?d = (Some (9, header_hex st f), 0, [], 0)" by (simp add: counts_def empty_decoder_def)
  from decode_dump_counts [OF assms(1) this ns(2)] obtain k where
    "counts (fold (decode_line tx) (zip [1..<length ls + 1] ls) empty_decoder)
      = (Some (9, header_hex st f), k, map without_reserved rs, record_errors 0 rs)"
    unfolding ns(1) using h by (auto simp: ls)
  then have "fst (decode tx ls) = record_errors 0 rs" "fst (snd (decode tx ls)) = map without_reserved rs"
    unfolding decode_def Let_def by (auto simp: counts_def print_line_out_def)
  then show ?thesis by (simp add: decoder_status_def record_errors_0)
qed

text \<open>A dump whose record 1 was lost.\<close>

theorem decoder_detects_gaps_witness:
  "decoder_status None (lines_of [] (dump_text demo_stamp 24576000 TRACE_HEADER_INTERVAL
     [zero_record\<lparr>tr_kind := TRACE_KIND_GUEST\<rparr>, zero_record\<lparr>tr_seq := 2, tr_kind := TRACE_KIND_CMD\<rparr>])) = 1"
proof -
  let ?rs = "[zero_record\<lparr>tr_kind := TRACE_KIND_GUEST\<rparr>, zero_record\<lparr>tr_seq := 2, tr_kind := TRACE_KIND_CMD\<rparr>]"
  have "fst (decode None (lines_of [] (dump_text demo_stamp 24576000 TRACE_HEADER_INTERVAL ?rs))) = record_errors 0 ?rs"
    using decoder_detects_gaps [OF demo_stamp_ascii, of ?rs] by blast
  then show ?thesis by (simp add: decoder_status_def zero_record_def)
qed

end
