(* ===== verification/Cmd_Ring.thy ===== *)
theory Cmd_Ring
  imports Ring_Interface
begin

text \<open>
  The page \<open>uartrx\<close> and the VMM share (\<^verbatim>\<open>include/trace/cmd_ring.h\<close>): the ring of commands from \<open>uartrx\<close> to the VMM,
  the id of the last completed one, the VMM's breadcrumb, and the encoding of a guest selection in
  a command's argument.  Its capacity divides \<open>2^64\<close>, so the counters may wrap freely.
\<close>

section \<open>Guest selection\<close>

abbreviation (input) GUEST_SELECT_DEFAULT :: u64 where "GUEST_SELECT_DEFAULT \<equiv> 0"
abbreviation (input) GUEST_SELECT_LINUX :: u64 where "GUEST_SELECT_LINUX \<equiv> 1"
abbreviation (input) GUEST_SELECT_HARNESS :: u64 where "GUEST_SELECT_HARNESS \<equiv> 0x100"
abbreviation (input) GUEST_SELECT_VCPU_SHIFT :: nat where "GUEST_SELECT_VCPU_SHIFT \<equiv> 16"

definition GUEST_SELECT_HARNESS_MODE :: "u64 \<Rightarrow> u64" where
  "GUEST_SELECT_HARNESS_MODE s = s AND 0xff"

definition GUEST_SELECT_VCPU :: "u64 \<Rightarrow> u64" where
  "GUEST_SELECT_VCPU s = drop_bit GUEST_SELECT_VCPU_SHIFT s AND 0xff"

definition GUEST_SELECT_GUEST :: "u64 \<Rightarrow> u64" where
  "GUEST_SELECT_GUEST s = s AND 0xffff"

definition GUEST_SELECT_IS_HARNESS :: "u64 \<Rightarrow> bool" where
  "GUEST_SELECT_IS_HARNESS s \<longleftrightarrow> GUEST_SELECT_GUEST s AND NOT 0xff = GUEST_SELECT_HARNESS"

text \<open>Fields of a selection put together from a guest word and a vCPU number, both in range.\<close>

lemma mask_u64: "(0xff :: u64) = mask 8" "(0xffff :: u64) = mask 16"
  by (simp_all add: mask_eq_exp_minus_1)

lemma unat_and_ff: "unat (s AND 0xff) = unat (s :: u64) mod 256"
  by (simp only: mask_u64 take_bit_eq_mask [symmetric]) (simp add: take_bit_eq_mod unat_mod)

lemma unat_and_ffff: "unat (s AND 0xffff) = unat (s :: u64) mod 65536"
  by (simp only: mask_u64 take_bit_eq_mask [symmetric]) (simp add: take_bit_eq_mod unat_mod)

lemma select_or_vcpu:
  fixes g v :: u64
  assumes "g < 0x10000" and "v < 0x100"
  shows "unat (g OR push_bit 16 v) = unat g + 65536 * unat v"
proof -
  have v: "unat v < 256" and gn: "unat g < 65536" using assms by (simp_all add: word_less_nat_alt)
  have "unat (push_bit 16 v) = 65536 * unat v"
    using v by (simp add: push_bit_eq_mult unat_word_ariths)
  moreover have "g AND push_bit 16 v = 0"
  proof (rule bit_word_eqI)
    fix n
    assume n: "n < LENGTH(64)"
    have "take_bit 16 g = g" using gn by (simp add: take_bit_eq_mod word_arith_nat_mod)
    then have "\<not> bit g n" if "16 \<le> n" using that by (metis bit_take_bit_iff linorder_not_less)
    then show "bit (g AND push_bit 16 v) n = bit (0 :: u64) n"
      by (auto simp: bit_and_iff bit_push_bit_iff)
  qed
  then have "g OR push_bit 16 v = g + push_bit 16 v" by (rule disjunctive_add_eq_or [symmetric])
  ultimately show ?thesis using v gn by (simp add: unat_word_ariths)
qed

lemma select_fields:
  fixes g v :: u64
  assumes "g < 0x10000" and "v < 0x100"
  shows "GUEST_SELECT_GUEST (g OR push_bit 16 v) = g" and "GUEST_SELECT_VCPU (g OR push_bit 16 v) = v"
    and "GUEST_SELECT_HARNESS_MODE (g OR push_bit 16 v) = g AND 0xff"
proof -
  note u = select_or_vcpu [OF assms]
  have v: "unat v < 256" and gn: "unat g < 65536" using assms by (simp_all add: word_less_nat_alt)
  have "unat (GUEST_SELECT_GUEST (g OR push_bit 16 v)) = unat g"
    using gn by (simp add: GUEST_SELECT_GUEST_def unat_and_ffff u)
  then show "GUEST_SELECT_GUEST (g OR push_bit 16 v) = g" by (simp add: unsigned_word_eqI)
  have "unat (GUEST_SELECT_VCPU (g OR push_bit 16 v)) = unat v"
    using v gn by (simp add: GUEST_SELECT_VCPU_def unat_and_ff drop_bit_eq_div unat_div u)
  then show "GUEST_SELECT_VCPU (g OR push_bit 16 v) = v" by (simp add: unsigned_word_eqI)
  have "unat (GUEST_SELECT_HARNESS_MODE (g OR push_bit 16 v)) = unat (g AND 0xff)"
    using mod_mult_self2 [of "unat g" 256 "256 * unat v"]
    by (simp add: GUEST_SELECT_HARNESS_MODE_def unat_and_ff u mult.assoc [symmetric])
  then show "GUEST_SELECT_HARNESS_MODE (g OR push_bit 16 v) = g AND 0xff" by (simp add: unsigned_word_eqI)
qed

section \<open>The ring\<close>

abbreviation (input) CMD_RING_CAPACITY :: nat where "CMD_RING_CAPACITY \<equiv> 64"

record cmd_entry =
  ce_id :: u64
  ce_verb :: u64
  ce_arg :: u64

datatype vmm_phase = VMM_PHASE_IDLE | VMM_PHASE_FAULT | VMM_PHASE_NOTIFIED

fun phase_code :: "vmm_phase \<Rightarrow> u64" where
  "phase_code VMM_PHASE_IDLE = 0"
| "phase_code VMM_PHASE_FAULT = 1"
| "phase_code VMM_PHASE_NOTIFIED = 2"

record vmm_breadcrumb =
  bc_seq :: u64
  bc_phase :: u64
  bc_since :: u64
  bc_label :: u64
  bc_mr0 :: u64
  bc_mr1 :: u64
  bc_console_waits :: u64

record cmd_ring =
  cq_head :: u64
  cq_tail :: u64
  cq_completed_id :: u64
  cq_entries :: "nat \<Rightarrow> cmd_entry"
  cq_breadcrumb :: vmm_breadcrumb

definition empty_cmd_ring :: cmd_ring where
  "empty_cmd_ring = \<lparr>cq_head = 0, cq_tail = 0, cq_completed_id = 0,
     cq_entries = (\<lambda>_. \<lparr>ce_id = 0, ce_verb = 0, ce_arg = 0\<rparr>),
     cq_breadcrumb = \<lparr>bc_seq = 0, bc_phase = 0, bc_since = 0, bc_label = 0, bc_mr0 = 0, bc_mr1 = 0, bc_console_waits = 0\<rparr>\<rparr>"

definition cmd_slot :: "u64 \<Rightarrow> nat" where
  "cmd_slot h = ring_idx CMD_RING_CAPACITY h"

definition cmd_full :: "cmd_ring \<Rightarrow> bool" where
  "cmd_full q \<longleftrightarrow> of_nat CMD_RING_CAPACITY \<le> cq_head q - cq_tail q"

definition cmd_push :: "cmd_entry \<Rightarrow> cmd_ring \<Rightarrow> cmd_ring" where
  "cmd_push e q = q\<lparr>cq_entries := (cq_entries q)(cmd_slot (cq_head q) := e), cq_head := cq_head q + 1\<rparr>"

definition cmd_front :: "cmd_ring \<Rightarrow> cmd_entry" where
  "cmd_front q = cq_entries q (cmd_slot (cq_tail q))"

definition cmd_pop :: "cmd_ring \<Rightarrow> cmd_ring" where
  "cmd_pop q = q\<lparr>cq_tail := cq_tail q + 1\<rparr>"

definition cmd_live :: "cmd_ring \<Rightarrow> cmd_entry list" where
  "cmd_live q = ring_contents CMD_RING_CAPACITY (cq_entries q) (cq_tail q) (cq_head q)"

definition cmd_ok :: "cmd_ring \<Rightarrow> bool" where
  "cmd_ok q \<longleftrightarrow> counters_ok CMD_RING_CAPACITY (cq_tail q) (cq_head q)"

definition cmd_room :: "cmd_ring \<Rightarrow> nat" where
  "cmd_room q = counters_room CMD_RING_CAPACITY (cq_tail q) (cq_head q)"

lemma cmd_live_Nil: "cmd_live q = [] \<longleftrightarrow> cq_tail q = cq_head q"
  by (auto simp: cmd_live_def ring_contents_Nil_iff)

lemma cmd_ok_iff: "cmd_ok q \<longleftrightarrow> length (cmd_live q) \<le> CMD_RING_CAPACITY"
  by (simp add: cmd_ok_def counters_ok_def cmd_live_def ring_contents_length)

lemma cmd_room_eq: "cmd_room q = CMD_RING_CAPACITY - length (cmd_live q)"
  by (simp add: cmd_room_def counters_room_def cmd_live_def ring_contents_length)

lemma cmd_full_iff: "cmd_full q \<longleftrightarrow> CMD_RING_CAPACITY \<le> length (cmd_live q)"
  by (simp add: cmd_full_def word_le_nat_alt cmd_live_def ring_contents_length)

interpretation cmd: ring_buffer cmd_ok cmd_live cmd_room cmd_push cmd_front cmd_pop
proof
  fix q :: cmd_ring and x
  assume ok: "cmd_ok q" and room: "0 < cmd_room q"
  note a = ok [unfolded cmd_ok_def] and b = room [unfolded cmd_room_def]
  show "cmd_ok (cmd_push x q) \<and> cmd_live (cmd_push x q) = cmd_live q @ [x] \<and> cmd_room (cmd_push x q) = cmd_room q - 1"
    using counters_push [OF a b] ring_contents_push [OF counters_room_pos(2,1) [OF a b]]
    by (simp add: cmd_ok_def cmd_room_def cmd_live_def cmd_push_def cmd_slot_def)
next
  fix q :: cmd_ring
  assume ok: "cmd_ok q" and ne: "cmd_live q \<noteq> []"
  then have ne': "cq_head q \<noteq> cq_tail q" using cmd_live_Nil [of q] by metis
  note pop = ring_contents_pop [OF ne', of CMD_RING_CAPACITY "cq_entries q"]
  show "cmd_front q = hd (cmd_live q)" using pop by (simp add: cmd_front_def cmd_live_def cmd_slot_def)
  show "cmd_ok (cmd_pop q) \<and> cmd_live (cmd_pop q) = tl (cmd_live q) \<and> cmd_room q \<le> cmd_room (cmd_pop q)"
    using counters_pop [OF ok [unfolded cmd_ok_def] ne'] pop
    by (simp add: cmd_ok_def cmd_room_def cmd_live_def cmd_pop_def)
qed

end
