(* ===== verification/Vmm_State.thy ===== *)
theory Vmm_State
  imports Cmd_Ring Trace_Format
begin

text \<open>
  The state of the VMM protection domain and its surroundings.  All files of \<^verbatim>\<open>vmm/\<close> are linked into one
  program, so their static variables form one record, \<open>vmm\<close>; every operation of the following theories
  is a function on it.  What the program does to the outside is recorded, in order, in \<open>v_out\<close>.

  libvmm, Microkit and the kernel are not part of the sources: they are the operations of the
  record \<open>platform\<close>, on a kernel state of any type \<open>'k\<close>, together with the constants their headers define.
  \<open>trace_emit\<close> is the effect \<open>Emit\<close>: \<open>Trace_Producer\<close> gives its code, which takes the records a domain emits,
  in order, as that domain's program.
\<close>

section \<open>Data\<close>

text \<open>The part of \<open>seL4_UserContext\<close> the sources name; \<open>uc_rest\<close> stands for the registers they never touch.\<close>

record user_context =
  uc_pc :: u64
  uc_spsr :: u64
  uc_x0 :: u64
  uc_x1 :: u64
  uc_x2 :: u64
  uc_x3 :: u64
  uc_x4 :: u64
  uc_x5 :: u64
  uc_x6 :: u64
  uc_x7 :: u64
  uc_rest :: "nat \<Rightarrow> u64"

definition zero_context :: user_context where
  "zero_context = \<lparr>uc_pc = 0, uc_spsr = 0, uc_x0 = 0, uc_x1 = 0, uc_x2 = 0, uc_x3 = 0, uc_x4 = 0,
     uc_x5 = 0, uc_x6 = 0, uc_x7 = 0, uc_rest = (\<lambda>_. 0)\<rparr>"

record smc_context =
  sm_x0 :: u64
  sm_x1 :: u64
  sm_x2 :: u64
  sm_x3 :: u64
  sm_x4 :: u64
  sm_x5 :: u64
  sm_x6 :: u64
  sm_x7 :: u64

text \<open>A message: its label and its message registers.\<close>

record msg =
  m_label :: u64
  m_mr :: "u64 \<Rightarrow> u64"

datatype guest_state =
  GUEST_NOT_STARTED | GUEST_RUNNING | GUEST_STOPPED_BY_COMMAND | GUEST_STOPPED_BY_FAULT | GUEST_START_FAILED

datatype guest_fault_kind = GUEST_FAULT_SMC | GUEST_FAULT_MEMORY | GUEST_FAULT_VCPU | GUEST_FAULT_OTHER

record guest_fault =
  gf_kind :: guest_fault_kind
  gf_detail :: u64

record fault_stop =
  fs_pc :: u64
  fs_fault :: guest_fault

datatype guest_exit =
    GUEST_EXIT_MEMORY | GUEST_EXIT_SMC | GUEST_EXIT_WFX | GUEST_EXIT_SYSREG | GUEST_EXIT_VPPI
  | GUEST_EXIT_VGIC_MAINTENANCE | GUEST_EXIT_OTHER

text \<open>The enumeration order is the order of the C enum, which the loops of \<^verbatim>\<open>guest_stats.c\<close> run in.\<close>

instantiation guest_exit :: enum
begin

definition enum_guest_exit :: "guest_exit list" where
  "enum_guest_exit = [GUEST_EXIT_MEMORY, GUEST_EXIT_SMC, GUEST_EXIT_WFX, GUEST_EXIT_SYSREG,
     GUEST_EXIT_VPPI, GUEST_EXIT_VGIC_MAINTENANCE, GUEST_EXIT_OTHER]"

definition enum_all_guest_exit :: "(guest_exit \<Rightarrow> bool) \<Rightarrow> bool" where
  "enum_all_guest_exit P \<longleftrightarrow> list_all P Enum.enum"

definition enum_ex_guest_exit :: "(guest_exit \<Rightarrow> bool) \<Rightarrow> bool" where
  "enum_ex_guest_exit P \<longleftrightarrow> list_ex P Enum.enum"

instance
proof
  have guest_exit_in_enum: "x \<in> set (enum_class.enum :: guest_exit list)" for x
    by (cases x) (simp_all add: enum_guest_exit_def)
  show "UNIV = set (enum_class.enum :: guest_exit list)" using guest_exit_in_enum by auto
  show "distinct (enum_class.enum :: guest_exit list)" by (simp add: enum_guest_exit_def)
  show "enum_class.enum_all P \<longleftrightarrow> Ball UNIV P" for P :: "guest_exit \<Rightarrow> bool"
    using guest_exit_in_enum by (auto simp: enum_all_guest_exit_def list_all_iff)
  show "enum_class.enum_ex P \<longleftrightarrow> Bex UNIV P" for P :: "guest_exit \<Rightarrow> bool"
    using guest_exit_in_enum by (auto simp: enum_ex_guest_exit_def list_ex_iff)
qed

end

record exit_stat =
  es_count :: u64
  es_last :: u64

record exynos_uart_emul =
  ue_gpa :: u64
  ue_line :: "nat \<Rightarrow> char"
  ue_line_len :: u64

record mmio_forward =
  mf_name :: string
  mf_gpa :: u64
  mf_vmm_vaddr :: u64
  mf_size :: u64

record guest_boot =
  gb_pc :: u64
  gb_dtb :: u64
  gb_initrd :: u64

datatype vm_handler = UartFault | ForwardFault mmio_forward

section \<open>Effects\<close>

datatype effect =
    Emit trace_record            \<comment> \<open>\<open>trace_emit\<close>\<close>
  | Log string                   \<comment> \<open>\<open>LOG_VMM\<close>\<close>
  | LogErr string                \<comment> \<open>\<open>LOG_VMM_ERR\<close>\<close>
  | Printf string                \<comment> \<open>\<open>printf\<close>\<close>
  | TcbWriteRegisters u64 user_context
  | VcpuReset u64
  | VcpuSetOn u64 bool
  | VcpuRestart u64 u64
  | VcpuStop u64
  | SmcHandle u64 u64
  | SmcCall smc_context
  | AdvanceVcpu u64 user_context
  | PrintRegs u64                \<comment> \<open>\<open>tcb_print_regs\<close> and \<open>vcpu_print_regs\<close>\<close>
  | RegisterHandler u64 u64 vm_handler
  | CacheClean u64 u64           \<comment> \<open>\<open>cache_clean_and_invalidate\<close>\<close>

section \<open>State\<close>

record 'k vmm =
  v_k :: 'k
  v_out :: "effect list"
  v_state :: guest_state
  v_run :: u64
  v_run_vcpu :: u64
  v_last_fault :: fault_stop
  v_stats :: "guest_exit \<Rightarrow> exit_stat"
  v_last_heartbeat :: u64
  v_uart :: exynos_uart_emul
  v_cmd :: cmd_ring
  v_notifications :: u64
  v_ram :: "nat \<Rightarrow> u8"

text \<open>Counters, errors, register access and vCPU control; then libvmm; then header constants.\<close>

record 'k platform =
  p_cntpct :: "'k \<Rightarrow> u64 \<times> 'k"
  p_cntfrq :: u64
  p_read_registers :: "u64 \<Rightarrow> user_context \<Rightarrow> 'k \<Rightarrow> u32 \<times> user_context"
  p_write_registers :: "u64 \<Rightarrow> user_context \<Rightarrow> 'k \<Rightarrow> u32 \<times> 'k"
  p_vcpu_reset :: "u64 \<Rightarrow> 'k \<Rightarrow> 'k"
  p_vcpu_set_on :: "u64 \<Rightarrow> bool \<Rightarrow> 'k \<Rightarrow> 'k"
  p_vcpu_restart :: "u64 \<Rightarrow> u64 \<Rightarrow> 'k \<Rightarrow> 'k"
  p_vcpu_stop :: "u64 \<Rightarrow> 'k \<Rightarrow> 'k"
  p_smc_handle :: "u64 \<Rightarrow> u64 \<Rightarrow> 'k \<Rightarrow> bool \<times> 'k"
  p_smc_call :: "smc_context \<Rightarrow> 'k \<Rightarrow> smc_context \<times> 'k"
  p_advance_vcpu :: "u64 \<Rightarrow> user_context \<Rightarrow> 'k \<Rightarrow> bool \<times> 'k"
  p_mmio_read32 :: "u64 \<Rightarrow> 'k \<Rightarrow> u32 \<times> 'k"
  p_guest_init :: "'k \<Rightarrow> bool \<times> 'k"
  p_register_handler :: "u64 \<Rightarrow> u64 \<Rightarrow> vm_handler \<Rightarrow> 'k \<Rightarrow> bool \<times> 'k"
  p_fault_handle :: "u64 \<Rightarrow> msg \<Rightarrow> 'k vmm \<Rightarrow> bool \<times> 'k vmm"
  p_linux_setup_images :: "u64 \<Rightarrow> u8 list \<Rightarrow> u8 list \<Rightarrow> u64 \<Rightarrow> u8 list \<Rightarrow> u64 \<Rightarrow> (nat \<Rightarrow> u8) \<Rightarrow> u64 \<times> (nat \<Rightarrow> u8)"
  p_fault_is_write :: "u64 \<Rightarrow> bool"
  p_fault_width_bytes :: "u64 \<Rightarrow> u64"
  p_fault_get_data :: "user_context \<Rightarrow> u64 \<Rightarrow> u64"
  p_fault_emulate_write :: "user_context \<Rightarrow> u64 \<Rightarrow> u64 \<Rightarrow> u64 \<Rightarrow> user_context"
  HSR_EXCEPTION_CLASS :: "u64 \<Rightarrow> u64"
  HSR_SMC_64_EXCEPTION :: u64
  HSR_WFx_EXCEPTION :: u64
  HSR_SYSREG_64_EXCEPTION :: u64
  PSCI_MAX :: u32
  seL4_Fault_VMFault :: u64
  seL4_Fault_VCPUFault :: u64
  seL4_Fault_VPPIEvent :: u64
  seL4_Fault_VGICMaintenance :: u64
  seL4_VMFault_IP :: u64
  seL4_VMFault_Addr :: u64
  seL4_VMFault_FSR :: u64
  seL4_VCPUFault_HSR :: u64
  microkit_name :: string

abbreviation (input) seL4_NoError :: u32 where "seL4_NoError \<equiv> 0"

section \<open>Calls to the outside\<close>

definition out :: "effect \<Rightarrow> 'k vmm \<Rightarrow> 'k vmm" where
  "out e s = s\<lparr>v_out := v_out s @ [e]\<rparr>"

definition trace_emit :: "trace_record \<Rightarrow> 'k vmm \<Rightarrow> 'k vmm" where
  "trace_emit r = out (Emit r)"

definition LOG_VMM :: "string \<Rightarrow> 'k vmm \<Rightarrow> 'k vmm" where
  "LOG_VMM t = out (Log t)"

definition LOG_VMM_ERR :: "string \<Rightarrow> 'k vmm \<Rightarrow> 'k vmm" where
  "LOG_VMM_ERR t = out (LogErr t)"

definition read_cntpct :: "'k platform \<Rightarrow> 'k vmm \<Rightarrow> u64 \<times> 'k vmm" where
  "read_cntpct P s = (let (t, k) = p_cntpct P (v_k s) in (t, s\<lparr>v_k := k\<rparr>))"

definition tcb_read_registers :: "'k platform \<Rightarrow> u64 \<Rightarrow> user_context \<Rightarrow> 'k vmm \<Rightarrow> u32 \<times> user_context" where
  "tcb_read_registers P vcpu regs s = p_read_registers P vcpu regs (v_k s)"

definition tcb_write_registers :: "'k platform \<Rightarrow> u64 \<Rightarrow> user_context \<Rightarrow> 'k vmm \<Rightarrow> u32 \<times> 'k vmm" where
  "tcb_write_registers P vcpu regs s =
     (let (err, k) = p_write_registers P vcpu regs (v_k s)
      in (err, out (TcbWriteRegisters vcpu regs) (s\<lparr>v_k := k\<rparr>)))"

definition vcpu_reset :: "'k platform \<Rightarrow> u64 \<Rightarrow> 'k vmm \<Rightarrow> 'k vmm" where
  "vcpu_reset P vcpu s = out (VcpuReset vcpu) (s\<lparr>v_k := p_vcpu_reset P vcpu (v_k s)\<rparr>)"

definition vcpu_set_on :: "'k platform \<Rightarrow> u64 \<Rightarrow> bool \<Rightarrow> 'k vmm \<Rightarrow> 'k vmm" where
  "vcpu_set_on P vcpu on s = out (VcpuSetOn vcpu on) (s\<lparr>v_k := p_vcpu_set_on P vcpu on (v_k s)\<rparr>)"

definition microkit_vcpu_restart :: "'k platform \<Rightarrow> u64 \<Rightarrow> u64 \<Rightarrow> 'k vmm \<Rightarrow> 'k vmm" where
  "microkit_vcpu_restart P vcpu pc s = out (VcpuRestart vcpu pc) (s\<lparr>v_k := p_vcpu_restart P vcpu pc (v_k s)\<rparr>)"

definition microkit_vcpu_stop :: "'k platform \<Rightarrow> u64 \<Rightarrow> 'k vmm \<Rightarrow> 'k vmm" where
  "microkit_vcpu_stop P vcpu s = out (VcpuStop vcpu) (s\<lparr>v_k := p_vcpu_stop P vcpu (v_k s)\<rparr>)"

definition smc_handle :: "'k platform \<Rightarrow> u64 \<Rightarrow> u64 \<Rightarrow> 'k vmm \<Rightarrow> bool \<times> 'k vmm" where
  "smc_handle P vcpu hsr s =
     (let (b, k) = p_smc_handle P vcpu hsr (v_k s) in (b, out (SmcHandle vcpu hsr) (s\<lparr>v_k := k\<rparr>)))"

definition microkit_arm_smc_call :: "'k platform \<Rightarrow> smc_context \<Rightarrow> 'k vmm \<Rightarrow> smc_context \<times> 'k vmm" where
  "microkit_arm_smc_call P req s =
     (let (resp, k) = p_smc_call P req (v_k s) in (resp, out (SmcCall req) (s\<lparr>v_k := k\<rparr>)))"

definition fault_advance_vcpu :: "'k platform \<Rightarrow> u64 \<Rightarrow> user_context \<Rightarrow> 'k vmm \<Rightarrow> bool \<times> 'k vmm" where
  "fault_advance_vcpu P vcpu regs s =
     (let (b, k) = p_advance_vcpu P vcpu regs (v_k s) in (b, out (AdvanceVcpu vcpu regs) (s\<lparr>v_k := k\<rparr>)))"

definition fault_register_vm_exception_handler :: "'k platform \<Rightarrow> u64 \<Rightarrow> u64 \<Rightarrow> vm_handler \<Rightarrow> 'k vmm \<Rightarrow> bool \<times> 'k vmm" where
  "fault_register_vm_exception_handler P base sz h s =
     (let (b, k) = p_register_handler P base sz h (v_k s) in (b, out (RegisterHandler base sz h) (s\<lparr>v_k := k\<rparr>)))"

section \<open>What an operation emits\<close>

text \<open>The records among a list of effects, and those of the guest event kind.\<close>

fun emitted :: "effect list \<Rightarrow> trace_record list" where
  "emitted [] = []"
| "emitted (Emit r # es) = r # emitted es"
| "emitted (e # es) = emitted es"

lemma emitted_append [simp]: "emitted (xs @ ys) = emitted xs @ emitted ys"
  by (induction xs rule: emitted.induct) simp_all

definition guest_events :: "effect list \<Rightarrow> trace_record list" where
  "guest_events es = filter (\<lambda>r. tr_kind r = TRACE_KIND_GUEST) (emitted es)"

lemma guest_events_append [simp]: "guest_events (xs @ ys) = guest_events xs @ guest_events ys"
  by (simp add: guest_events_def)

text \<open>An operation that changes nothing but the kernel and the effects.\<close>

definition io_only :: "'k vmm \<Rightarrow> 'k vmm \<Rightarrow> bool" where
  "io_only s s' \<longleftrightarrow> s' = s\<lparr>v_k := v_k s', v_out := v_out s'\<rparr>"

lemma io_only_fields:
  assumes "io_only s s'"
  shows "v_state s' = v_state s" "v_run s' = v_run s" "v_run_vcpu s' = v_run_vcpu s" "v_last_fault s' = v_last_fault s"
    "v_stats s' = v_stats s" "v_uart s' = v_uart s" "v_cmd s' = v_cmd s" "v_notifications s' = v_notifications s"
    "v_ram s' = v_ram s" "v_last_heartbeat s' = v_last_heartbeat s"
  using arg_cong [OF assms [unfolded io_only_def], of v_state] arg_cong [OF assms [unfolded io_only_def], of v_run]
    arg_cong [OF assms [unfolded io_only_def], of v_run_vcpu] arg_cong [OF assms [unfolded io_only_def], of v_last_fault]
    arg_cong [OF assms [unfolded io_only_def], of v_stats] arg_cong [OF assms [unfolded io_only_def], of v_uart]
    arg_cong [OF assms [unfolded io_only_def], of v_cmd] arg_cong [OF assms [unfolded io_only_def], of v_notifications]
    arg_cong [OF assms [unfolded io_only_def], of v_ram] arg_cong [OF assms [unfolded io_only_def], of v_last_heartbeat]
  by simp_all

named_theorems vmm_simps "unfolding calls to the outside"

lemmas [vmm_simps] = out_def trace_emit_def LOG_VMM_def LOG_VMM_ERR_def read_cntpct_def
  tcb_read_registers_def tcb_write_registers_def vcpu_reset_def vcpu_set_on_def
  microkit_vcpu_restart_def microkit_vcpu_stop_def smc_handle_def microkit_arm_smc_call_def
  fault_advance_vcpu_def fault_register_vm_exception_handler_def Let_def split_beta

section \<open>A concrete platform\<close>

text \<open>
  For the witnesses: a kernel whose state is its cycle counter, that always succeeds, reports a guest
  stopped at an SMC with function id 0x82000000, and whose fault handler handles nothing.
\<close>

definition demo_platform :: "u64 platform" where
  "demo_platform = \<lparr>p_cntpct = (\<lambda>k. (k, k + 1)), p_cntfrq = 24576000,
     p_read_registers = (\<lambda>v r k. (0, zero_context\<lparr>uc_pc := 0x80000010, uc_x0 := 0x82000000\<rparr>)),
     p_write_registers = (\<lambda>v r k. (0, k)), p_vcpu_reset = (\<lambda>v k. k), p_vcpu_set_on = (\<lambda>v b k. k),
     p_vcpu_restart = (\<lambda>v pc k. k), p_vcpu_stop = (\<lambda>v k. k), p_smc_handle = (\<lambda>v h k. (True, k)),
     p_smc_call = (\<lambda>r k. (r, k)), p_advance_vcpu = (\<lambda>v r k. (True, k)), p_mmio_read32 = (\<lambda>a k. (0, k)),
     p_guest_init = (\<lambda>k. (True, k)), p_register_handler = (\<lambda>b z h k. (True, k)), p_fault_handle = (\<lambda>c m s. (False, s)),
     p_linux_setup_images = (\<lambda>g k d dg i ig r. (g, r)), p_fault_is_write = (\<lambda>f. f AND 0x40 \<noteq> 0),
     p_fault_width_bytes = (\<lambda>f. 4), p_fault_get_data = (\<lambda>r f. uc_x0 r), p_fault_emulate_write = (\<lambda>r a f v. r\<lparr>uc_x0 := v\<rparr>),
     HSR_EXCEPTION_CLASS = (\<lambda>h. drop_bit 26 h AND 0x3f), HSR_SMC_64_EXCEPTION = 0x17, HSR_WFx_EXCEPTION = 1,
     HSR_SYSREG_64_EXCEPTION = 0x18, PSCI_MAX = 21, seL4_Fault_VMFault = 6, seL4_Fault_VCPUFault = 8,
     seL4_Fault_VPPIEvent = 9, seL4_Fault_VGICMaintenance = 7, seL4_VMFault_IP = 0, seL4_VMFault_Addr = 1,
     seL4_VMFault_FSR = 3, seL4_VCPUFault_HSR = 0, microkit_name = ''vmm''\<rparr>"

definition demo_vmm :: "u64 vmm" where
  "demo_vmm = \<lparr>v_k = 1000, v_out = [], v_state = GUEST_NOT_STARTED, v_run = 0, v_run_vcpu = 0,
     v_last_fault = \<lparr>fs_pc = 0, fs_fault = \<lparr>gf_kind = GUEST_FAULT_SMC, gf_detail = 0\<rparr>\<rparr>,
     v_stats = (\<lambda>_. \<lparr>es_count = 0, es_last = 0\<rparr>), v_last_heartbeat = 0,
     v_uart = \<lparr>ue_gpa = 0, ue_line = (\<lambda>_. NUL), ue_line_len = 0\<rparr>, v_cmd = empty_cmd_ring, v_notifications = 0,
     v_ram = (\<lambda>_. 0)\<rparr>"

end
