(* ===== verification/Breadcrumb.thy ===== *)
theory Breadcrumb
  imports Vmm_State
begin

text \<open>
  \<^verbatim>\<open>vmm/breadcrumb.c\<close>: the VMM notes in the shared page which handler it is in and since when, so that \<open>uartrx\<close> can
  report it when a command times out.
\<close>

definition crumb :: "'k vmm \<Rightarrow> vmm_breadcrumb" where
  "crumb s = cq_breadcrumb (v_cmd s)"

definition upd_crumb :: "(vmm_breadcrumb \<Rightarrow> vmm_breadcrumb) \<Rightarrow> 'k vmm \<Rightarrow> 'k vmm" where
  "upd_crumb f s = s\<lparr>v_cmd := (v_cmd s)\<lparr>cq_breadcrumb := f (cq_breadcrumb (v_cmd s))\<rparr>\<rparr>"

definition set_phase :: "'k platform \<Rightarrow> vmm_phase \<Rightarrow> 'k vmm \<Rightarrow> 'k vmm" where
  "set_phase P phase s =
     (let (now, s1) = read_cntpct P s;
          s2 = upd_crumb (\<lambda>b. b\<lparr>bc_since := now\<rparr>) s1;
          s3 = upd_crumb (\<lambda>b. b\<lparr>bc_phase := phase_code phase\<rparr>) s2
      in upd_crumb (\<lambda>b. b\<lparr>bc_seq := bc_seq b + 1\<rparr>) s3)"

definition breadcrumb_enter :: "'k platform \<Rightarrow> vmm_phase \<Rightarrow> u64 \<Rightarrow> u64 \<Rightarrow> u64 \<Rightarrow> 'k vmm \<Rightarrow> 'k vmm" where
  "breadcrumb_enter P phase label mr0 mr1 s =
     set_phase P phase (upd_crumb (\<lambda>b. b\<lparr>bc_label := label, bc_mr0 := mr0, bc_mr1 := mr1\<rparr>) s)"

definition breadcrumb_leave :: "'k platform \<Rightarrow> 'k vmm \<Rightarrow> 'k vmm" where
  "breadcrumb_leave P s = set_phase P VMM_PHASE_IDLE s"

definition breadcrumb_console_wait :: "'k vmm \<Rightarrow> 'k vmm" where
  "breadcrumb_console_wait s = upd_crumb (\<lambda>b. b\<lparr>bc_console_waits := bc_console_waits b + 1\<rparr>) s"

lemma set_phase_frame [simp]:
  "v_out (set_phase P ph s) = v_out s" "v_state (set_phase P ph s) = v_state s" "v_run (set_phase P ph s) = v_run s"
  "v_run_vcpu (set_phase P ph s) = v_run_vcpu s" "v_last_fault (set_phase P ph s) = v_last_fault s"
  "v_stats (set_phase P ph s) = v_stats s" "v_uart (set_phase P ph s) = v_uart s" "v_ram (set_phase P ph s) = v_ram s"
  "v_notifications (set_phase P ph s) = v_notifications s" "v_last_heartbeat (set_phase P ph s) = v_last_heartbeat s"
  by (simp_all add: set_phase_def upd_crumb_def read_cntpct_def Let_def split_beta)

lemma upd_crumb_frame [simp]:
  "v_out (upd_crumb f s) = v_out s" "v_state (upd_crumb f s) = v_state s" "v_run (upd_crumb f s) = v_run s"
  "v_run_vcpu (upd_crumb f s) = v_run_vcpu s" "v_last_fault (upd_crumb f s) = v_last_fault s"
  "v_stats (upd_crumb f s) = v_stats s" "v_uart (upd_crumb f s) = v_uart s" "v_ram (upd_crumb f s) = v_ram s"
  "v_notifications (upd_crumb f s) = v_notifications s" "v_last_heartbeat (upd_crumb f s) = v_last_heartbeat s"
  by (simp_all add: upd_crumb_def)

lemma set_phase_crumb:
  "crumb (set_phase P ph s) = (crumb s)\<lparr>bc_since := fst (p_cntpct P (v_k s)), bc_phase := phase_code ph, bc_seq := bc_seq (crumb s) + 1\<rparr>"
  by (simp add: set_phase_def upd_crumb_def crumb_def read_cntpct_def Let_def split_beta)

text \<open>Noting a phase leaves the queue of commands alone.\<close>

lemma set_phase_cmd:
  "v_cmd (set_phase P ph s) = (v_cmd s)\<lparr>cq_breadcrumb := crumb (set_phase P ph s)\<rparr>"
  by (simp add: set_phase_def upd_crumb_def crumb_def read_cntpct_def Let_def split_beta)

lemma cmd_live_crumb [simp]: "cmd_live (q\<lparr>cq_breadcrumb := b\<rparr>) = cmd_live q"
  by (simp add: cmd_live_def)

end
