(* ===== verification/Guest_Stats.thy ===== *)
theory Guest_Stats
  imports Vmm_State
begin

text \<open>
  \<^verbatim>\<open>vmm/guest_stats.c\<close>: the guest's exits counted by cause, with the time of the last one, and the heartbeat
  line at most once per second.
\<close>

fun exit_name :: "guest_exit \<Rightarrow> string" where
  "exit_name GUEST_EXIT_MEMORY = ''memory access''"
| "exit_name GUEST_EXIT_SMC = ''SMC''"
| "exit_name GUEST_EXIT_WFX = ''WFI/WFE''"
| "exit_name GUEST_EXIT_SYSREG = ''sysreg''"
| "exit_name GUEST_EXIT_VPPI = ''vtimer inject''"
| "exit_name GUEST_EXIT_VGIC_MAINTENANCE = ''vGIC maint''"
| "exit_name GUEST_EXIT_OTHER = ''other''"

definition vcpu_exit_of :: "'k platform \<Rightarrow> u64 \<Rightarrow> guest_exit" where
  "vcpu_exit_of P hsr =
     (let ec = HSR_EXCEPTION_CLASS P hsr in
      if ec = HSR_SMC_64_EXCEPTION P then GUEST_EXIT_SMC
      else if ec = HSR_WFx_EXCEPTION P then GUEST_EXIT_WFX
      else if ec = HSR_SYSREG_64_EXCEPTION P then GUEST_EXIT_SYSREG
      else GUEST_EXIT_OTHER)"

definition exit_of :: "'k platform \<Rightarrow> u64 \<Rightarrow> u64 \<Rightarrow> guest_exit" where
  "exit_of P label hsr =
     (if label = seL4_Fault_VMFault P then GUEST_EXIT_MEMORY
      else if label = seL4_Fault_VCPUFault P then vcpu_exit_of P hsr
      else if label = seL4_Fault_VPPIEvent P then GUEST_EXIT_VPPI
      else if label = seL4_Fault_VGICMaintenance P then GUEST_EXIT_VGIC_MAINTENANCE
      else GUEST_EXIT_OTHER)"

definition guest_stats_reset :: "'k platform \<Rightarrow> 'k vmm \<Rightarrow> 'k vmm" where
  "guest_stats_reset P s =
     (let s1 = foldl (\<lambda>s i. s\<lparr>v_stats := (v_stats s)(i := \<lparr>es_count = 0, es_last = 0\<rparr>)\<rparr>) s Enum.enum;
          (now, s2) = read_cntpct P s1
      in s2\<lparr>v_last_heartbeat := now\<rparr>)"

definition guest_stats_count :: "'k platform \<Rightarrow> u64 \<Rightarrow> u64 \<Rightarrow> 'k vmm \<Rightarrow> 'k vmm" where
  "guest_stats_count P label hsr s =
     (let i = exit_of P label hsr;
          s1 = s\<lparr>v_stats := (v_stats s)(i := (v_stats s i)\<lparr>es_count := es_count (v_stats s i) + 1\<rparr>)\<rparr>;
          (now, s2) = read_cntpct P s1
      in s2\<lparr>v_stats := (v_stats s2)(i := (v_stats s2 i)\<lparr>es_last := now\<rparr>)\<rparr>)"

definition print_stat :: "string \<Rightarrow> exit_stat \<Rightarrow> u64 \<Rightarrow> u64 \<Rightarrow> 'k vmm \<Rightarrow> 'k vmm" where
  "print_stat name e now freq s =
     (if es_count e = 0
      then LOG_VMM (''  '' @ pad_right 14 (CHR '' '') name @ '' '' @ pad_left 10 (CHR '' '') (fmt_lu (es_count e)) @ [NL]) s
      else let ms = (now - es_last e) * 1000 div freq
           in LOG_VMM (''  '' @ pad_right 14 (CHR '' '') name @ '' '' @ pad_left 10 (CHR '' '') (fmt_lu (es_count e))
                @ ''   last '' @ fmt_lu (ms div 1000) @ ''.'' @ pad_left 3 (CHR ''0'') (fmt_lu (ms mod 1000)) @ '' s ago'' @ [NL]) s)"

definition guest_stats_print :: "'k platform \<Rightarrow> 'k vmm \<Rightarrow> 'k vmm" where
  "guest_stats_print P s =
     (let (now, s1) = read_cntpct P s;
          s2 = LOG_VMM (''guest exits this run:'' @ [NL]) s1
      in foldl (\<lambda>s i. print_stat (exit_name i) (v_stats s i) now (p_cntfrq P) s) s2 Enum.enum)"

definition guest_stats_heartbeat :: "'k platform \<Rightarrow> u64 \<Rightarrow> u64 \<Rightarrow> u64 \<Rightarrow> 'k vmm \<Rightarrow> 'k vmm" where
  "guest_stats_heartbeat P notifications cmd_head cmd_tail s =
     (let (now, s1) = read_cntpct P s; n = (\<lambda>i. fmt_lu (es_count (v_stats s1 i))) in
      if now - v_last_heartbeat s1 < p_cntfrq P then s1
      else LOG_VMM (''heartbeat: mem '' @ n GUEST_EXIT_MEMORY @ '' smc '' @ n GUEST_EXIT_SMC @ '' wfx '' @ n GUEST_EXIT_WFX
             @ '' sysreg '' @ n GUEST_EXIT_SYSREG @ '' vppi '' @ n GUEST_EXIT_VPPI @ '' maint '' @ n GUEST_EXIT_VGIC_MAINTENANCE
             @ '' other '' @ n GUEST_EXIT_OTHER @ '' | notified '' @ fmt_lu notifications @ '' | cmd head '' @ fmt_lu cmd_head
             @ '' tail '' @ fmt_lu cmd_tail @ [NL])
             (s1\<lparr>v_last_heartbeat := now\<rparr>))"

section \<open>What they keep\<close>

text \<open>The fields the statistics never touch, and that they emit no trace record.\<close>

definition same_guest :: "'k vmm \<Rightarrow> 'k vmm \<Rightarrow> bool" where
  "same_guest s s' \<longleftrightarrow> v_state s' = v_state s \<and> v_run s' = v_run s \<and> v_run_vcpu s' = v_run_vcpu s
     \<and> v_last_fault s' = v_last_fault s"

definition quiet :: "'k vmm \<Rightarrow> 'k vmm \<Rightarrow> bool" where
  "quiet s s' \<longleftrightarrow> same_guest s s' \<and> v_cmd s' = v_cmd s \<and> v_uart s' = v_uart s \<and> v_ram s' = v_ram s
     \<and> v_notifications s' = v_notifications s
     \<and> (\<exists>es. v_out s' = v_out s @ es \<and> emitted es = [] \<and> guest_events es = [])"

lemma quiet_refl [intro]: "quiet s s"
  by (auto simp: quiet_def same_guest_def guest_events_def intro: exI [of _ "[]"])

lemma quiet_trans [trans]: "quiet a b \<Longrightarrow> quiet b c \<Longrightarrow> quiet a c"
proof -
  assume ab: "quiet a b" and bc: "quiet b c"
  from ab obtain es where es: "v_out b = v_out a @ es" "emitted es = []" "guest_events es = []"
    by (auto simp: quiet_def)
  from bc obtain fs where fs: "v_out c = v_out b @ fs" "emitted fs = []" "guest_events fs = []"
    by (auto simp: quiet_def)
  have "v_out c = v_out a @ (es @ fs) \<and> emitted (es @ fs) = [] \<and> guest_events (es @ fs) = []" using es fs by simp
  with ab bc show ?thesis unfolding quiet_def same_guest_def by metis
qed

lemma quiet_log: "quiet s (LOG_VMM t s)"
  by (auto simp: quiet_def same_guest_def vmm_simps guest_events_def intro!: exI [of _ "[Log t]"])

lemma quiet_err: "quiet s (LOG_VMM_ERR t s)"
  by (auto simp: quiet_def same_guest_def vmm_simps guest_events_def intro!: exI [of _ "[LogErr t]"])

lemma quiet_upd:
  "quiet s (s\<lparr>v_k := k\<rparr>)" "quiet s (s\<lparr>v_stats := st\<rparr>)" "quiet s (s\<lparr>v_last_heartbeat := h\<rparr>)"
  by (auto simp: quiet_def same_guest_def guest_events_def intro: exI [of _ "[]"])

lemma quiet_fold: "(\<And>s i. quiet s (f s i)) \<Longrightarrow> quiet s (foldl f s xs)"
  by (induction xs arbitrary: s) (auto intro: quiet_trans)

lemma quiet_cntpct: "quiet s (snd (read_cntpct P s))"
  by (simp add: read_cntpct_def split_beta quiet_upd)

lemma quiet_stats:
  "quiet s (guest_stats_reset P s)" "quiet s (guest_stats_count P label hsr s)"
  "quiet s (print_stat name e now freq s)" "quiet s (guest_stats_print P s)"
  "quiet s (guest_stats_heartbeat P n h t s)"
proof -
  show stat: "quiet s (print_stat name e now freq s)" for s :: "'a vmm" and name e now freq
    by (simp add: print_stat_def quiet_log Let_def)
  show "quiet s (guest_stats_print P s)"
    unfolding guest_stats_print_def Let_def split_beta
    by (rule quiet_trans [OF quiet_trans [OF quiet_cntpct quiet_log] quiet_fold]) (rule stat)
  show "quiet s (guest_stats_reset P s)"
    unfolding guest_stats_reset_def Let_def split_beta
    by (rule quiet_trans [OF quiet_trans [OF quiet_fold quiet_cntpct] quiet_upd(3)]) (rule quiet_upd(2))
  show "quiet s (guest_stats_count P label hsr s)"
    unfolding guest_stats_count_def Let_def split_beta
    by (rule quiet_trans [OF quiet_trans [OF quiet_upd(2) quiet_cntpct] quiet_upd(2)])
  show "quiet s (guest_stats_heartbeat P n h t s)"
    unfolding guest_stats_heartbeat_def Let_def split_beta
    by (rule if_split [THEN iffD2], intro conjI impI)
      (rule quiet_cntpct, rule quiet_trans [OF quiet_trans [OF quiet_cntpct quiet_upd(3)] quiet_log])
qed

lemma stats_reset_zero: "v_stats (guest_stats_reset P s) = (\<lambda>_. \<lparr>es_count = 0, es_last = 0\<rparr>)"
proof
  fix i
  show "v_stats (guest_stats_reset P s) i = \<lparr>es_count = 0, es_last = 0\<rparr>"
    by (cases i) (simp_all add: guest_stats_reset_def enum_guest_exit_def read_cntpct_def split_beta)
qed

lemma stats_count_one:
  "es_count (v_stats (guest_stats_count P label hsr s) i)
     = es_count (v_stats s i) + (if i = exit_of P label hsr then 1 else 0)"
  by (simp add: guest_stats_count_def read_cntpct_def Let_def split_beta)

text \<open>The weaker frame of a fault handler: it may change the emulated devices and emit records, but no guest event.\<close>

definition calm :: "'k vmm \<Rightarrow> 'k vmm \<Rightarrow> bool" where
  "calm s s' \<longleftrightarrow> same_guest s s' \<and> v_cmd s' = v_cmd s \<and> v_notifications s' = v_notifications s
     \<and> (\<exists>es. v_out s' = v_out s @ es \<and> guest_events es = [])"

lemma quiet_calm: "quiet s s' \<Longrightarrow> calm s s'"
  by (auto simp: quiet_def calm_def)

lemma calm_refl [intro]: "calm s s"
  by (rule quiet_calm) (rule quiet_refl)

lemma calm_trans [trans]: "calm a b \<Longrightarrow> calm b c \<Longrightarrow> calm a c"
proof -
  assume ab: "calm a b" and bc: "calm b c"
  from ab obtain es where es: "v_out b = v_out a @ es" "guest_events es = []" by (auto simp: calm_def)
  from bc obtain fs where fs: "v_out c = v_out b @ fs" "guest_events fs = []" by (auto simp: calm_def)
  have "v_out c = v_out a @ (es @ fs) \<and> guest_events (es @ fs) = []" using es fs by simp
  with ab bc show ?thesis unfolding calm_def same_guest_def by metis
qed

lemma calm_emit: "tr_kind r \<noteq> TRACE_KIND_GUEST \<Longrightarrow> calm s (trace_emit r s)"
  by (auto simp: calm_def same_guest_def vmm_simps guest_events_def intro!: exI [of _ "[Emit r]"])

lemma calm_out: "\<forall>r. e \<noteq> Emit r \<Longrightarrow> calm s (out e (s\<lparr>v_k := k\<rparr>))"
proof -
  assume "\<forall>r. e \<noteq> Emit r"
  then have "guest_events [e] = []" by (cases e) (auto simp: guest_events_def)
  then show ?thesis by (auto simp: calm_def same_guest_def out_def)
qed

end
