(* ===== verification/Guest_Image.thy ===== *)
theory Guest_Image
  imports Guest_Stats
begin

text \<open>
  Placing a guest in its RAM before a start: the harness image (\<^verbatim>\<open>vmm/guest_image_harness.c\<close>), the Linux
  images (\<^verbatim>\<open>vmm/guest_image_linux.c\<close>) and the lab build that carries both (\<^verbatim>\<open>vmm/guest_image_lab.c\<close>), with the memory maps of
  the three builds (\<^verbatim>\<open>guests/*/guest_map.h\<close>).  The images themselves are linked in by the build and libvmm's
  \<open>linux_setup_images\<close> is an operation of the platform; both are parameters.
\<close>

section \<open>Memory maps\<close>

record guest_map =
  gm_name :: string
  gm_num_vcpus :: u64
  gm_ram_gpa :: u64
  gm_ram_size :: u64
  gm_initrd_gpa :: u64
  gm_dtb_gpa :: u64
  gm_uart_gpa :: u64
  gm_uart_size :: u64
  gm_watchdog :: "(u64 \<times> u64) option"      \<comment> \<open>\<open>GUEST_WATCHDOG_GPA\<close> and size, where the map defines them\<close>

definition harness_map :: guest_map where
  "harness_map = \<lparr>gm_name = ''harness'', gm_num_vcpus = 1, gm_ram_gpa = 0x80000000, gm_ram_size = 0x200000,
     gm_initrd_gpa = 0, gm_dtb_gpa = 0, gm_uart_gpa = 0x10870000, gm_uart_size = 0x100,
     gm_watchdog = Some (0x10060000, 0x100)\<rparr>"

definition linux_map :: guest_map where
  "linux_map = \<lparr>gm_name = ''linux'', gm_num_vcpus = 1, gm_ram_gpa = 0x80000000, gm_ram_size = 0x10000000,
     gm_initrd_gpa = 0x8d000000, gm_dtb_gpa = 0x8f000000, gm_uart_gpa = 0x10870000, gm_uart_size = 0x100,
     gm_watchdog = None\<rparr>"

definition lab_map :: guest_map where
  "lab_map = \<lparr>gm_name = ''lab'', gm_num_vcpus = 3, gm_ram_gpa = 0x80000000, gm_ram_size = 0x10000000,
     gm_initrd_gpa = 0x8d000000, gm_dtb_gpa = 0x8f000000, gm_uart_gpa = 0x10870000, gm_uart_size = 0x100,
     gm_watchdog = None\<rparr>"

datatype build = BuildHarness | BuildLinux | BuildLab

text \<open>One build: its map, the linked images, where Microkit maps guest RAM, and libvmm's boot vCPU.\<close>

record config =
  cf_build :: build
  cf_map :: guest_map
  cf_harness_image :: "u8 list"
  cf_kernel_image :: "u8 list"
  cf_dtbs :: "u8 list list"
  cf_initrd_image :: "u8 list"
  cf_ram_vaddr :: u64
  cf_watchdog_vaddr :: u64
  cf_boot_vcpu :: u64

section \<open>Loading\<close>

definition ram_memset :: "u64 \<Rightarrow> 'k vmm \<Rightarrow> 'k vmm" where
  "ram_memset n s = s\<lparr>v_ram := (\<lambda>i. if i < unat n then 0 else v_ram s i)\<rparr>"

definition ram_memcpy :: "u8 list \<Rightarrow> 'k vmm \<Rightarrow> 'k vmm" where
  "ram_memcpy bs s = s\<lparr>v_ram := (\<lambda>i. if i < length bs then bs ! i else v_ram s i)\<rparr>"

definition clean_ram :: "config \<Rightarrow> 'k vmm \<Rightarrow> 'k vmm" where
  "clean_ram C s = out (CacheClean (cf_ram_vaddr C) (cf_ram_vaddr C + gm_ram_size (cf_map C))) s"

definition harness_image_load :: "config \<Rightarrow> u64 \<Rightarrow> 'k vmm \<Rightarrow> guest_boot option \<times> 'k vmm" where
  "harness_image_load C select s =
     (let size = of_nat (length (cf_harness_image C)) :: u64; ram_size = gm_ram_size (cf_map C) in
      if GUEST_SELECT_GUEST select \<noteq> GUEST_SELECT_DEFAULT \<and> \<not> GUEST_SELECT_IS_HARNESS select
      then (None, LOG_VMM_ERR (''guest selection 0x'' @ fmt_lx select @ '': this VMM carries only the harness'' @ [NL]) s)
      else if size = 0 \<or> ram_size < size
      then (None, LOG_VMM_ERR (''harness image size 0x'' @ fmt_lx size @ '' does not fit guest RAM 0x'' @ fmt_lx ram_size @ [NL]) s)
      else (Some \<lparr>gb_pc = gm_ram_gpa (cf_map C), gb_dtb = GUEST_SELECT_HARNESS_MODE select, gb_initrd = 0\<rparr>,
            clean_ram C (ram_memcpy (cf_harness_image C) (ram_memset ram_size s))))"

definition zero_guest_ram :: "config \<Rightarrow> 'k vmm \<Rightarrow> 'k vmm" where
  "zero_guest_ram C s = clean_ram C (ram_memset (gm_ram_size (cf_map C)) s)"

definition dtb_for_vcpu :: "config \<Rightarrow> u64 \<Rightarrow> 'k vmm \<Rightarrow> u8 list option \<times> 'k vmm" where
  "dtb_for_vcpu C vcpu s =
     (if gm_num_vcpus (cf_map C) \<le> vcpu
      then (None, LOG_VMM_ERR (''no device tree for vCPU '' @ fmt_lu vcpu @ [NL]) s)
      else (Some (cf_dtbs C ! unat vcpu), s))"

definition linux_image_load :: "'k platform \<Rightarrow> config \<Rightarrow> u64 \<Rightarrow> 'k vmm \<Rightarrow> guest_boot option \<times> 'k vmm" where
  "linux_image_load P C select s =
     (if GUEST_SELECT_GUEST select \<noteq> GUEST_SELECT_DEFAULT \<and> GUEST_SELECT_GUEST select \<noteq> GUEST_SELECT_LINUX
      then (None, LOG_VMM_ERR (''guest selection 0x'' @ fmt_lx select @ '': this VMM carries only Linux'' @ [NL]) s)
      else (case dtb_for_vcpu C (GUEST_SELECT_VCPU select) s of
              (None, s1) \<Rightarrow> (None, s1)
            | (Some dtb, s1) \<Rightarrow>
                (let s2 = zero_guest_ram C s1;
                     (pc, ram) = p_linux_setup_images P (gm_ram_gpa (cf_map C)) (cf_kernel_image C) dtb
                       (gm_dtb_gpa (cf_map C)) (cf_initrd_image C) (gm_initrd_gpa (cf_map C)) (v_ram s2);
                     s3 = s2\<lparr>v_ram := ram\<rparr>
                 in if pc = 0
                    then (None, LOG_VMM_ERR (''failed to place the Linux images in guest RAM'' @ [NL]) s3)
                    else (Some \<lparr>gb_pc = pc, gb_dtb = gm_dtb_gpa (cf_map C), gb_initrd = gm_initrd_gpa (cf_map C)\<rparr>, s3))))"

definition guest_image_load :: "'k platform \<Rightarrow> config \<Rightarrow> u64 \<Rightarrow> 'k vmm \<Rightarrow> guest_boot option \<times> 'k vmm" where
  "guest_image_load P C select s =
     (case cf_build C of
        BuildHarness \<Rightarrow> harness_image_load C select s
      | BuildLinux \<Rightarrow> linux_image_load P C select s
      | BuildLab \<Rightarrow> if GUEST_SELECT_IS_HARNESS select then harness_image_load C select s
                    else linux_image_load P C select s)"

definition guest_image_name :: "config \<Rightarrow> u64 \<Rightarrow> string" where
  "guest_image_name C select =
     (case cf_build C of
        BuildHarness \<Rightarrow> ''harness''
      | BuildLinux \<Rightarrow> ''linux''
      | BuildLab \<Rightarrow> if GUEST_SELECT_IS_HARNESS select then ''harness'' else ''linux'')"

section \<open>What loading does\<close>

text \<open>Loading touches guest RAM and the log only.\<close>

definition load_frame :: "'k vmm \<Rightarrow> 'k vmm \<Rightarrow> bool" where
  "load_frame s s' \<longleftrightarrow> calm s s' \<and> v_uart s' = v_uart s \<and> v_stats s' = v_stats s \<and> v_k s' = v_k s
     \<and> (\<exists>es. v_out s' = v_out s @ es \<and> emitted es = [])"

lemma load_frame_trans: "load_frame a b \<Longrightarrow> load_frame b c \<Longrightarrow> load_frame a c"
  unfolding load_frame_def by (metis append.assoc append_Nil calm_trans emitted_append)

lemma load_frame_steps:
  "load_frame s s" "load_frame s (LOG_VMM_ERR t s)" "load_frame s (clean_ram C s)" "load_frame s (s\<lparr>v_ram := r\<rparr>)"
  by (auto simp: load_frame_def calm_def same_guest_def guest_events_def LOG_VMM_ERR_def clean_ram_def out_def)

lemma harness_load_frame: "load_frame s (snd (harness_image_load C select s))"
  unfolding harness_image_load_def Let_def ram_memset_def ram_memcpy_def
  by (auto intro: load_frame_steps load_frame_trans [OF load_frame_steps(4) load_frame_steps(3)])

lemma linux_load_frame: "load_frame s (snd (linux_image_load P C select s))"
proof -
  have z: "load_frame s (zero_guest_ram C s\<lparr>v_ram := r\<rparr>)" for r
    unfolding zero_guest_ram_def ram_memset_def
    by (rule load_frame_trans [OF load_frame_trans [OF load_frame_steps(4) load_frame_steps(3)] load_frame_steps(4)])
  then have "load_frame s (LOG_VMM_ERR t (zero_guest_ram C s\<lparr>v_ram := r\<rparr>))" for r t
    using load_frame_trans load_frame_steps(2) by blast
  with z show ?thesis
    unfolding linux_image_load_def dtb_for_vcpu_def Let_def
    by (auto simp: load_frame_steps split_beta)
qed

lemma guest_image_load_frame: "load_frame s (snd (guest_image_load P C select s))"
  using harness_load_frame [of s C select] linux_load_frame [of s P C select]
  by (simp add: guest_image_load_def split: build.split)

section \<open>Properties\<close>

text \<open>
  C20. A harness start is fresh: whatever an earlier run left behind, after a successful load the whole
  guest RAM is the image followed by zeros, nothing outside it has changed, the caches were cleaned,
  and the guest will enter at the start of RAM with its mode in \<open>x0\<close>.  A load fails only for another
  guest, an empty image or one larger than RAM, and then leaves RAM alone.
\<close>

theorem harness_load_fresh:
  assumes "length (cf_harness_image C) < 2 ^ 64"
  shows "case harness_image_load C select s of
      (Some boot, s') \<Rightarrow>
        (\<forall>i. v_ram s' i = (if i < length (cf_harness_image C) then cf_harness_image C ! i
                          else if i < unat (gm_ram_size (cf_map C)) then 0 else v_ram s i))
        \<and> 0 < length (cf_harness_image C) \<and> length (cf_harness_image C) \<le> unat (gm_ram_size (cf_map C))
        \<and> boot = \<lparr>gb_pc = gm_ram_gpa (cf_map C), gb_dtb = select AND 0xff, gb_initrd = 0\<rparr>
        \<and> v_out s' = v_out s @ [CacheClean (cf_ram_vaddr C) (cf_ram_vaddr C + gm_ram_size (cf_map C))]
    | (None, s') \<Rightarrow> v_ram s' = v_ram s \<and>
        (cf_harness_image C = [] \<or> unat (gm_ram_size (cf_map C)) < length (cf_harness_image C)
         \<or> (GUEST_SELECT_GUEST select \<noteq> GUEST_SELECT_DEFAULT \<and> \<not> GUEST_SELECT_IS_HARNESS select))"
proof -
  have len: "unat (of_nat (length (cf_harness_image C)) :: u64) = length (cf_harness_image C)"
    using assms by (simp add: unat_of_nat)
  then have "(of_nat (length (cf_harness_image C)) :: u64) = 0 \<longleftrightarrow> cf_harness_image C = []"
    by (metis length_0_conv unat_eq_0)
  then show ?thesis
    using len by (auto simp: harness_image_load_def ram_memset_def ram_memcpy_def clean_ram_def out_def LOG_VMM_ERR_def
        GUEST_SELECT_HARNESS_MODE_def word_less_nat_alt Let_def)
qed

definition demo_config :: config where
  "demo_config = \<lparr>cf_build = BuildHarness, cf_map = harness_map, cf_harness_image = [0xd5, 0x03, 0x20],
     cf_kernel_image = [], cf_dtbs = [[]], cf_initrd_image = [], cf_ram_vaddr = 0x20000000, cf_watchdog_vaddr = 0x30000000,
     cf_boot_vcpu = 0\<rparr>"

theorem harness_load_fresh_witness:
  "\<forall>s. case harness_image_load demo_config 0x103 s of
      (Some boot, s') \<Rightarrow> v_ram s' 1 = 0x03 \<and> v_ram s' 3 = 0 \<and> gb_dtb boot = 3 | (None, s') \<Rightarrow> False"
proof
  fix s :: "'a vmm"
  have "length (cf_harness_image demo_config) < 2 ^ 64" by (simp add: demo_config_def)
  from harness_load_fresh [OF this, where select = "0x103" and s = s]
  show "case harness_image_load demo_config 0x103 s of
      (Some boot, s') \<Rightarrow> v_ram s' 1 = 0x03 \<and> v_ram s' 3 = 0 \<and> gb_dtb boot = 3 | (None, s') \<Rightarrow> False"
    by (auto simp: demo_config_def harness_map_def GUEST_SELECT_GUEST_def GUEST_SELECT_IS_HARNESS_def
        split: prod.splits option.splits)
qed

end
