(* ===== verification/Guest_Control.thy ===== *)
theory Guest_Control
  imports Guest_Image
begin

text \<open>
  \<^verbatim>\<open>vmm/guest_control.c\<close>: the life cycle of the guest.  Operations first, then the state machine they form with the
  commands of the operator and the faults of the running vCPU, and what it guarantees about the
  guest events in the trace.
\<close>

section \<open>Operations\<close>

definition guest_event_record :: "'k vmm \<Rightarrow> u64 \<Rightarrow> u64 \<Rightarrow> trace_record" where
  "guest_event_record s event pc =
     zero_record\<lparr>tr_pc := pc, tr_addr := event, tr_value := v_run s, tr_vcpu := ucast (v_run_vcpu s), tr_kind := TRACE_KIND_GUEST\<rparr>"

definition trace_guest_event :: "u64 \<Rightarrow> u64 \<Rightarrow> 'k vmm \<Rightarrow> 'k vmm" where
  "trace_guest_event event pc s = trace_emit (guest_event_record s event pc) s"

text \<open>\<open>SPSR_PMODE_EL1H\<close> with asynchronous aborts, IRQs and FIQs masked.\<close>

definition boot_spsr :: u64 where
  "boot_spsr = 5 OR push_bit 8 1 OR push_bit 7 1 OR push_bit 6 1"

definition boot_regs :: "guest_boot \<Rightarrow> user_context" where
  "boot_regs boot = zero_context\<lparr>uc_x0 := gb_dtb boot, uc_spsr := boot_spsr, uc_pc := gb_pc boot\<rparr>"

definition start_vcpu :: "'k platform \<Rightarrow> u64 \<Rightarrow> guest_boot \<Rightarrow> 'k vmm \<Rightarrow> bool \<times> 'k vmm" where
  "start_vcpu P vcpu boot s =
     (let regs = boot_regs boot;
          (err, s1) = tcb_write_registers P vcpu regs s
      in if err \<noteq> seL4_NoError
         then (False, LOG_VMM_ERR (''seL4_TCB_WriteRegisters on vCPU '' @ fmt_lu vcpu @ '' returned '' @ fmt_d err @ [NL]) s1)
         else (True, microkit_vcpu_restart P vcpu (uc_pc regs) (vcpu_set_on P vcpu True s1)))"

definition boot_fresh :: "'k platform \<Rightarrow> config \<Rightarrow> u64 \<Rightarrow> 'k vmm \<Rightarrow> bool \<times> 'k vmm" where
  "boot_fresh P C select s =
     (let vcpu = GUEST_SELECT_VCPU select; num = gm_num_vcpus (cf_map C) in
      if num \<le> vcpu
      then (False, (LOG_VMM_ERR (''vCPU '' @ fmt_lu vcpu @ '': this VMM has '' @ fmt_lu num @ '' vCPU(s)'' @ [NL]) s)
                     \<lparr>v_state := GUEST_START_FAILED\<rparr>)
      else (case guest_image_load P C select s of
              (None, s1) \<Rightarrow> (False, s1\<lparr>v_state := GUEST_START_FAILED\<rparr>)
            | (Some boot, s1) \<Rightarrow>
                (let s2 = vcpu_reset P vcpu (s1\<lparr>v_run_vcpu := vcpu\<rparr>);
                     s3 = guest_stats_reset P (s2\<lparr>v_run := v_run s2 + 1\<rparr>);
                     s4 = trace_guest_event TRACE_GUEST_STARTED (gb_pc boot) s3;
                     (ok, s5) = start_vcpu P vcpu boot s4
                 in if \<not> ok
                    then (False, (LOG_VMM_ERR (''run '' @ fmt_lu (v_run s5) @ '': failed to start vCPU '' @ fmt_lu (v_run_vcpu s5) @ [NL]) s5)
                                   \<lparr>v_state := GUEST_START_FAILED\<rparr>)
                    else (True, s5\<lparr>v_state := GUEST_RUNNING\<rparr>))))"

definition guest_control_start :: "'k platform \<Rightarrow> config \<Rightarrow> u64 \<Rightarrow> 'k vmm \<Rightarrow> 'k vmm" where
  "guest_control_start P C select s =
     (if v_state s = GUEST_RUNNING
      then LOG_VMM (''guest-start refused: run '' @ fmt_lu (v_run s) @ '' is already running (use guest-stop first)'' @ [NL]) s
      else (let (ok, s1) = boot_fresh P C select s in
            if ok
            then LOG_VMM (''run '' @ fmt_lu (v_run s1) @ '' started from a fresh '' @ guest_image_name C select
                   @ '' image on vCPU '' @ fmt_lu (v_run_vcpu s1) @ [NL]) s1
            else s1))"

definition print_fault_stop :: "'k platform \<Rightarrow> 'k vmm \<Rightarrow> 'k vmm" where
  "print_fault_stop P s =
     (let f = v_last_fault s; detail = gf_detail (fs_fault f); r = ''guest stopped by fault (run '' @ fmt_lu (v_run s) @ ''): '';
          at = '' at pc 0x'' @ fmt_lx (fs_pc f) @ [NL]
      in case gf_kind (fs_fault f) of
           GUEST_FAULT_SMC \<Rightarrow> LOG_VMM (r @ ''SMC 0x'' @ fmt_lx detail @ '' refused by policy'' @ at) s
         | GUEST_FAULT_MEMORY \<Rightarrow> LOG_VMM (r @ ''unhandled access to 0x'' @ fmt_lx detail @ at) s
         | GUEST_FAULT_VCPU \<Rightarrow> LOG_VMM (r @ ''unhandled vCPU exception EC 0x'' @ fmt_lx (HSR_EXCEPTION_CLASS P detail)
             @ '' (HSR 0x'' @ fmt_lx detail @ '')'' @ at) s
         | GUEST_FAULT_OTHER \<Rightarrow> LOG_VMM (r @ ''unhandled seL4 fault label '' @ fmt_lu detail @ at) s)"

definition guest_control_status :: "'k platform \<Rightarrow> 'k vmm \<Rightarrow> 'k vmm" where
  "guest_control_status P s =
     (case v_state s of
        GUEST_NOT_STARTED \<Rightarrow> LOG_VMM (''guest not started (type guest-start)'' @ [NL]) s
      | GUEST_RUNNING \<Rightarrow> guest_stats_print P (LOG_VMM (''guest running (run '' @ fmt_lu (v_run s) @ '')'' @ [NL]) s)
      | GUEST_STOPPED_BY_COMMAND \<Rightarrow>
          guest_stats_print P (LOG_VMM (''guest stopped by command (run '' @ fmt_lu (v_run s) @ '')'' @ [NL]) s)
      | GUEST_STOPPED_BY_FAULT \<Rightarrow> guest_stats_print P (print_fault_stop P s)
      | GUEST_START_FAILED \<Rightarrow> LOG_VMM (''guest failed to start (run '' @ fmt_lu (v_run s) @ ''); see the error above'' @ [NL]) s)"

definition guest_control_stop :: "'k platform \<Rightarrow> 'k vmm \<Rightarrow> 'k vmm" where
  "guest_control_stop P s =
     (if v_state s \<noteq> GUEST_RUNNING
      then guest_control_status P (LOG_VMM (''guest-stop refused: no guest is running. Current state:'' @ [NL]) s)
      else (let s1 = microkit_vcpu_stop P (v_run_vcpu s) s;
                s2 = vcpu_set_on P (v_run_vcpu s1) False s1;
                s3 = trace_guest_event TRACE_GUEST_STOPPED_BY_COMMAND 0 (s2\<lparr>v_state := GUEST_STOPPED_BY_COMMAND\<rparr>)
            in LOG_VMM (''run '' @ fmt_lu (v_run s3) @ '' stopped by command'' @ [NL]) s3))"

definition guest_control_regs :: "'k vmm \<Rightarrow> 'k vmm" where
  "guest_control_regs s =
     (if v_state s = GUEST_NOT_STARTED
      then LOG_VMM (''guest-regs refused: no guest has been started'' @ [NL]) s
      else out (PrintRegs (v_run_vcpu s)) (LOG_VMM (''run '' @ fmt_lu (v_run s) @ '' vCPU registers:'' @ [NL]) s))"

definition guest_control_fault_stopped :: "'k platform \<Rightarrow> u64 \<Rightarrow> guest_fault \<Rightarrow> 'k vmm \<Rightarrow> 'k vmm" where
  "guest_control_fault_stopped P vcpu_id fault s =
     (let (err, regs) = tcb_read_registers P vcpu_id zero_context s;
          s1 = (if err \<noteq> seL4_NoError
                then LOG_VMM_ERR (''seL4_TCB_ReadRegisters returned '' @ fmt_d err @ ''; fault pc unknown'' @ [NL]) s else s);
          s2 = vcpu_set_on P vcpu_id False (microkit_vcpu_stop P vcpu_id s1);
          f = (if gf_kind fault = GUEST_FAULT_SMC then fault\<lparr>gf_detail := uc_x0 regs\<rparr> else fault);
          s3 = s2\<lparr>v_last_fault := \<lparr>fs_pc = uc_pc regs, fs_fault = f\<rparr>, v_state := GUEST_STOPPED_BY_FAULT\<rparr>
      in print_fault_stop P (trace_guest_event TRACE_GUEST_STOPPED_BY_FAULT (uc_pc regs) s3))"

section \<open>What each operation does to the guest's state and events\<close>

text \<open>Anything that leaves the guest's control state alone and traces no guest event.\<close>

definition other_step :: "'k vmm \<Rightarrow> 'k vmm \<Rightarrow> bool" where
  "other_step s s' \<longleftrightarrow> same_guest s s' \<and> (\<exists>es. v_out s' = v_out s @ es \<and> guest_events es = [])"

lemma calm_other: "calm s s' \<Longrightarrow> other_step s s'"
  by (auto simp: calm_def other_step_def)

lemma other_step_events: "other_step s s' \<Longrightarrow> guest_events (v_out s') = guest_events (v_out s)"
  by (auto simp: other_step_def)

lemma other_log: "other_step s (LOG_VMM t s)" "other_step s (LOG_VMM_ERR t s)"
  by (simp_all add: calm_other quiet_calm quiet_log quiet_err)

lemma print_fault_stop_quiet: "quiet s (print_fault_stop P s)"
  by (simp add: print_fault_stop_def quiet_log Let_def split: guest_fault_kind.split)

lemma status_quiet: "quiet s (guest_control_status P s)"
  unfolding guest_control_status_def
  by (auto intro: quiet_log quiet_trans [OF quiet_log quiet_stats(4)] quiet_trans [OF print_fault_stop_quiet quiet_stats(4)]
      split: guest_state.split)

lemma regs_calm: "calm s (guest_control_regs s)"
proof -
  have "calm s (out (PrintRegs v) (LOG_VMM t s))" for v t
    by (auto simp: calm_def same_guest_def LOG_VMM_def out_def guest_events_def)
  then show ?thesis by (simp add: guest_control_regs_def quiet_calm quiet_log)
qed

lemma start_vcpu_other: "other_step s (snd (start_vcpu P v boot s))"
  by (auto simp: start_vcpu_def other_step_def same_guest_def vmm_simps guest_events_def)

definition event :: "u64 \<Rightarrow> u64 \<Rightarrow> u64 \<Rightarrow> u64 \<Rightarrow> trace_record" where
  "event kind pc run vcpu = zero_record\<lparr>tr_pc := pc, tr_addr := kind, tr_value := run, tr_vcpu := ucast vcpu, tr_kind := TRACE_KIND_GUEST\<rparr>"

lemma other_step_trans: "other_step a b \<Longrightarrow> other_step b c \<Longrightarrow> other_step a c"
  unfolding other_step_def same_guest_def by (metis append.assoc append_Nil guest_events_append)

lemma boot_fresh_cases [case_names refused late]:
  obtains "fst (boot_fresh P C sel s) = False" "v_state (snd (boot_fresh P C sel s)) = GUEST_START_FAILED"
      "v_run (snd (boot_fresh P C sel s)) = v_run s" "v_run_vcpu (snd (boot_fresh P C sel s)) = v_run_vcpu s"
      "guest_events (v_out (snd (boot_fresh P C sel s))) = guest_events (v_out s)"
  | pc where
      "v_state (snd (boot_fresh P C sel s)) = (if fst (boot_fresh P C sel s) then GUEST_RUNNING else GUEST_START_FAILED)"
      "v_run (snd (boot_fresh P C sel s)) = v_run s + 1" "v_run_vcpu (snd (boot_fresh P C sel s)) = GUEST_SELECT_VCPU sel"
      "guest_events (v_out (snd (boot_fresh P C sel s)))
        = guest_events (v_out s) @ [event TRACE_GUEST_STARTED pc (v_run s + 1) (GUEST_SELECT_VCPU sel)]"
proof (cases "gm_num_vcpus (cf_map C) \<le> GUEST_SELECT_VCPU sel")
  case True
  then show ?thesis
    by (intro that(1)) (simp_all add: boot_fresh_def LOG_VMM_ERR_def out_def guest_events_def)
next
  case False
  obtain b s1 where ld: "guest_image_load P C sel s = (b, s1)" by fastforce
  have lf: "other_step s s1" using guest_image_load_frame [of s P C sel] ld by (auto simp: load_frame_def intro: calm_other)
  show ?thesis
  proof (cases b)
    case None
    then show ?thesis
      using False ld lf other_step_events [OF lf]
      by (intro that(1)) (simp_all add: boot_fresh_def other_step_def same_guest_def)
  next
    case (Some boot)
    let ?v = "GUEST_SELECT_VCPU sel"
    define s2 where "s2 = vcpu_reset P ?v (s1\<lparr>v_run_vcpu := ?v\<rparr>)"
    define s3 where "s3 = guest_stats_reset P (s2\<lparr>v_run := v_run s2 + 1\<rparr>)"
    define s4 where "s4 = trace_guest_event TRACE_GUEST_STARTED (gb_pc boot) s3"
    obtain ok s5 where st: "start_vcpu P ?v boot s4 = (ok, s5)" by fastforce
    have q: "other_step (s2\<lparr>v_run := v_run s2 + 1\<rparr>) s3"
      unfolding s3_def by (rule calm_other [OF quiet_calm [OF quiet_stats(1)]])
    have f3: "v_run s3 = v_run s + 1" "v_run_vcpu s3 = ?v" "guest_events (v_out s3) = guest_events (v_out s)"
      using q other_step_events [OF q] lf other_step_events [OF lf]
      by (simp_all add: other_step_def same_guest_def s2_def vcpu_reset_def out_def guest_events_def)
    then have f4: "v_run s4 = v_run s + 1" "v_run_vcpu s4 = ?v"
      "guest_events (v_out s4) = guest_events (v_out s) @ [event TRACE_GUEST_STARTED (gb_pc boot) (v_run s + 1) ?v]"
      by (simp_all add: s4_def trace_guest_event_def guest_event_record_def trace_emit_def out_def guest_events_def event_def)
    have o5: "other_step s4 s5" using start_vcpu_other [of s4 P ?v boot] st by simp
    have f5: "v_run s5 = v_run s + 1" "v_run_vcpu s5 = ?v"
      "guest_events (v_out s5) = guest_events (v_out s) @ [event TRACE_GUEST_STARTED (gb_pc boot) (v_run s + 1) ?v]"
      using o5 other_step_events [OF o5] f4 by (simp_all add: other_step_def same_guest_def)
    have eq: "boot_fresh P C sel s = (if \<not> ok
        then (False, (LOG_VMM_ERR (''run '' @ fmt_lu (v_run s5) @ '': failed to start vCPU '' @ fmt_lu (v_run_vcpu s5) @ [NL]) s5)
               \<lparr>v_state := GUEST_START_FAILED\<rparr>)
        else (True, s5\<lparr>v_state := GUEST_RUNNING\<rparr>))"
      using False ld Some st by (simp add: boot_fresh_def s4_def s3_def s2_def Let_def)
    show ?thesis
      by (rule that(2) [of "gb_pc boot"]) (use eq f5 in \<open>simp_all add: LOG_VMM_ERR_def out_def guest_events_def\<close>)
  qed
qed

lemma stop_running:
  assumes "v_state s = GUEST_RUNNING"
  shows "\<exists>k t. guest_control_stop P s = s\<lparr>v_k := k, v_state := GUEST_STOPPED_BY_COMMAND,
      v_out := v_out s @ [VcpuStop (v_run_vcpu s), VcpuSetOn (v_run_vcpu s) False,
        Emit (event TRACE_GUEST_STOPPED_BY_COMMAND 0 (v_run s) (v_run_vcpu s)), Log t]\<rparr>"
  using assms
  by (auto simp: guest_control_stop_def trace_guest_event_def guest_event_record_def event_def vmm_simps)

lemma stop_refused: "v_state s \<noteq> GUEST_RUNNING \<Longrightarrow> quiet s (guest_control_stop P s)"
  using quiet_trans [OF quiet_log status_quiet] by (simp add: guest_control_stop_def)

definition reported_fault :: "'k platform \<Rightarrow> u64 \<Rightarrow> guest_fault \<Rightarrow> 'k vmm \<Rightarrow> fault_stop" where
  "reported_fault P v f s =
     (let regs = snd (tcb_read_registers P v zero_context s)
      in \<lparr>fs_pc = uc_pc regs, fs_fault = (if gf_kind f = GUEST_FAULT_SMC then f\<lparr>gf_detail := uc_x0 regs\<rparr> else f)\<rparr>)"

lemma print_fault_stop_log: "\<exists>t. print_fault_stop P s = LOG_VMM t s"
  by (cases "gf_kind (fs_fault (v_last_fault s))") (auto simp: print_fault_stop_def Let_def)

lemma fault_stopped_spec:
  "\<exists>k pre t. guest_control_fault_stopped P v f s = s\<lparr>v_k := k, v_state := GUEST_STOPPED_BY_FAULT,
      v_last_fault := reported_fault P v f s,
      v_out := v_out s @ pre @ [VcpuStop v, VcpuSetOn v False,
        Emit (event TRACE_GUEST_STOPPED_BY_FAULT (fs_pc (reported_fault P v f s)) (v_run s) (v_run_vcpu s)), Log t]\<rparr>
    \<and> emitted pre = []"
proof -
  obtain err regs where rd: "tcb_read_registers P v zero_context s = (err, regs)" by fastforce
  define s1 where "s1 = (if err \<noteq> seL4_NoError
    then LOG_VMM_ERR (''seL4_TCB_ReadRegisters returned '' @ fmt_d err @ ''; fault pc unknown'' @ [NL]) s else s)"
  obtain pre where s1: "s1 = s\<lparr>v_out := v_out s @ pre\<rparr>" and pre: "emitted pre = []"
  proof (cases "err = seL4_NoError")
    case True
    then show ?thesis using that [of "[]"] by (simp add: s1_def)
  next
    case False
    then show ?thesis
      using that [of "[LogErr (''seL4_TCB_ReadRegisters returned '' @ fmt_d err @ ''; fault pc unknown'' @ [NL])]"]
      by (simp add: s1_def LOG_VMM_ERR_def out_def)
  qed
  let ?s3 = "(vcpu_set_on P v False (microkit_vcpu_stop P v s1))
    \<lparr>v_last_fault := reported_fault P v f s, v_state := GUEST_STOPPED_BY_FAULT\<rparr>"
  obtain t where t: "print_fault_stop P (trace_guest_event TRACE_GUEST_STOPPED_BY_FAULT (uc_pc regs) ?s3)
      = LOG_VMM t (trace_guest_event TRACE_GUEST_STOPPED_BY_FAULT (uc_pc regs) ?s3)" using print_fault_stop_log by blast
  have "guest_control_fault_stopped P v f s = LOG_VMM t (trace_guest_event TRACE_GUEST_STOPPED_BY_FAULT (uc_pc regs) ?s3)"
    using rd t by (simp add: guest_control_fault_stopped_def s1_def reported_fault_def Let_def)
  also have "\<dots> = s\<lparr>v_k := p_vcpu_set_on P v False (p_vcpu_stop P v (v_k s)), v_state := GUEST_STOPPED_BY_FAULT,
      v_last_fault := reported_fault P v f s,
      v_out := v_out s @ pre @ [VcpuStop v, VcpuSetOn v False,
        Emit (event TRACE_GUEST_STOPPED_BY_FAULT (fs_pc (reported_fault P v f s)) (v_run s) (v_run_vcpu s)), Log t]\<rparr>"
    using rd by (simp add: s1 trace_guest_event_def guest_event_record_def event_def reported_fault_def LOG_VMM_def
        trace_emit_def vcpu_set_on_def microkit_vcpu_stop_def out_def)
  finally show ?thesis using pre by blast
qed

section \<open>The life cycle\<close>

definition gc_fresh :: "config \<Rightarrow> 'k vmm \<Rightarrow> bool" where
  "gc_fresh C s \<longleftrightarrow> v_state s = GUEST_NOT_STARTED \<and> v_run s = 0 \<and> v_run_vcpu s = cf_boot_vcpu C \<and> guest_events (v_out s) = []"

text \<open>
  Commands arrive at any time; a fault stop only comes from the vCPU of a running guest (a stopped
  vCPU does not fault); everything else the VMM does is an \<open>other_step\<close>.
\<close>

inductive gc_reach :: "'k platform \<Rightarrow> config \<Rightarrow> 'k vmm \<Rightarrow> bool" for P C where
  gc_init: "gc_fresh C s \<Longrightarrow> gc_reach P C s"
| gc_start: "gc_reach P C s \<Longrightarrow> gc_reach P C (guest_control_start P C sel s)"
| gc_stop: "gc_reach P C s \<Longrightarrow> gc_reach P C (guest_control_stop P s)"
| gc_fault: "gc_reach P C s \<Longrightarrow> v_state s = GUEST_RUNNING \<Longrightarrow>
    gc_reach P C (guest_control_fault_stopped P (v_run_vcpu s) f s)"
| gc_other: "gc_reach P C s \<Longrightarrow> other_step s s' \<Longrightarrow> gc_reach P C s'"

definition started :: "trace_record \<Rightarrow> bool" where
  "started r \<longleftrightarrow> tr_addr r = TRACE_GUEST_STARTED"

definition stopped :: "trace_record \<Rightarrow> bool" where
  "stopped r \<longleftrightarrow> tr_addr r = TRACE_GUEST_STOPPED_BY_COMMAND \<or> tr_addr r = TRACE_GUEST_STOPPED_BY_FAULT"

text \<open>Every stop event directly follows the start event of the same run on the same vCPU.\<close>

definition events_ok :: "trace_record list \<Rightarrow> bool" where
  "events_ok evs \<longleftrightarrow> (\<forall>r \<in> set evs. started r \<or> stopped r)
     \<and> (\<forall>i < length evs. stopped (evs ! i) \<longrightarrow>
          (\<exists>j. i = Suc j \<and> started (evs ! j) \<and> tr_value (evs ! j) = tr_value (evs ! i) \<and> tr_vcpu (evs ! j) = tr_vcpu (evs ! i)))"

lemma not_started_stopped: "started r \<Longrightarrow> \<not> stopped r"
  by (auto simp: started_def stopped_def)

lemma events_ok_snoc:
  assumes "events_ok evs"
    and "started r \<or> (stopped r \<and> evs \<noteq> [] \<and> started (last evs) \<and> tr_value (last evs) = tr_value r \<and> tr_vcpu (last evs) = tr_vcpu r)"
  shows "events_ok (evs @ [r])"
proof -
  have "\<exists>j. i = Suc j \<and> started ((evs @ [r]) ! j) \<and> tr_value ((evs @ [r]) ! j) = tr_value ((evs @ [r]) ! i)
      \<and> tr_vcpu ((evs @ [r]) ! j) = tr_vcpu ((evs @ [r]) ! i)"
    if i: "i < length (evs @ [r])" and st: "stopped ((evs @ [r]) ! i)" for i
  proof (cases "i < length evs")
    case True
    then obtain j where "i = Suc j" "started (evs ! j)" "tr_value (evs ! j) = tr_value (evs ! i)" "tr_vcpu (evs ! j) = tr_vcpu (evs ! i)"
      using assms(1) st by (auto simp: events_ok_def nth_append)
    with True show ?thesis by (simp add: nth_append)
  next
    case False
    with i have il: "i = length evs" by simp
    with st have "stopped r" by simp
    with assms(2) not_started_stopped have ne: "evs \<noteq> []" and l: "started (last evs)"
      "tr_value (last evs) = tr_value r" "tr_vcpu (last evs) = tr_vcpu r" by auto
    then show ?thesis using il by (intro exI [of _ "length evs - 1"]) (simp add: nth_append last_conv_nth)
  qed
  then show ?thesis using assms by (auto simp: events_ok_def)
qed

text \<open>How the recorded state agrees with the last event.\<close>

definition state_agrees :: "'k vmm \<Rightarrow> bool" where
  "state_agrees s \<longleftrightarrow> (let evs = guest_events (v_out s) in
     case v_state s of
       GUEST_NOT_STARTED \<Rightarrow> evs = []
     | GUEST_RUNNING \<Rightarrow> evs \<noteq> [] \<and> started (last evs) \<and> tr_value (last evs) = v_run s \<and> tr_vcpu (last evs) = ucast (v_run_vcpu s)
     | GUEST_STOPPED_BY_COMMAND \<Rightarrow> evs \<noteq> [] \<and> tr_addr (last evs) = TRACE_GUEST_STOPPED_BY_COMMAND \<and> tr_value (last evs) = v_run s
     | GUEST_STOPPED_BY_FAULT \<Rightarrow> evs \<noteq> [] \<and> tr_addr (last evs) = TRACE_GUEST_STOPPED_BY_FAULT \<and> tr_value (last evs) = v_run s
         \<and> tr_pc (last evs) = fs_pc (v_last_fault s)
     | GUEST_START_FAILED \<Rightarrow> True)"

definition numbered_runs :: "'k vmm \<Rightarrow> bool" where
  "numbered_runs s \<longleftrightarrow> (let starts = filter started (guest_events (v_out s)) in
     v_run s = of_nat (length starts) \<and> map tr_value starts = map (\<lambda>i. of_nat (Suc i)) [0..<length starts])"

definition gc_inv :: "'k vmm \<Rightarrow> bool" where
  "gc_inv s \<longleftrightarrow> events_ok (guest_events (v_out s)) \<and> state_agrees s \<and> numbered_runs s"

lemma event_simps [simp]:
  "started (event k pc r v) \<longleftrightarrow> k = TRACE_GUEST_STARTED" "tr_value (event k pc r v) = r" "tr_vcpu (event k pc r v) = ucast v"
  "tr_addr (event k pc r v) = k" "tr_pc (event k pc r v) = pc" "tr_kind (event k pc r v) = TRACE_KIND_GUEST"
  "stopped (event k pc r v) \<longleftrightarrow> k = TRACE_GUEST_STOPPED_BY_COMMAND \<or> k = TRACE_GUEST_STOPPED_BY_FAULT"
  by (simp_all add: started_def stopped_def event_def)

lemma gc_inv_other: "gc_inv s \<Longrightarrow> other_step s s' \<Longrightarrow> gc_inv s'"
  using other_step_events [of s s'] by (simp add: gc_inv_def state_agrees_def numbered_runs_def other_step_def same_guest_def Let_def
      split: guest_state.splits)

lemma gc_inv_boot:
  assumes inv: "gc_inv s"
  shows "gc_inv (snd (boot_fresh P C sel s))"
proof (cases P C sel s rule: boot_fresh_cases)
  case refused
  then show ?thesis using inv by (simp add: gc_inv_def state_agrees_def numbered_runs_def)
next
  case (late pc)
  let ?e = "event TRACE_GUEST_STARTED pc (v_run s + 1) (GUEST_SELECT_VCPU sel)"
  have "events_ok (guest_events (v_out s) @ [?e])" using inv by (intro events_ok_snoc) (simp_all add: gc_inv_def)
  moreover have "numbered_runs (snd (boot_fresh P C sel s))"
    using inv late by (simp add: gc_inv_def numbered_runs_def add.commute Let_def)
  moreover have "state_agrees (snd (boot_fresh P C sel s))" using late by (simp add: state_agrees_def)
  ultimately show ?thesis using late(4) by (simp add: gc_inv_def)
qed

lemma gc_inv_stop_event:
  assumes inv: "gc_inv s" and run: "v_state s = GUEST_RUNNING" and "stopped e" and "tr_value e = v_run s"
    and "tr_vcpu e = ucast (v_run_vcpu s)"
  shows "events_ok (guest_events (v_out s) @ [e])" and "filter started (guest_events (v_out s) @ [e]) = filter started (guest_events (v_out s))"
  using assms not_started_stopped [of e]
  by (auto simp: gc_inv_def state_agrees_def Let_def intro!: events_ok_snoc)

lemma gc_reach_inv: "gc_reach P C s \<Longrightarrow> gc_inv s"
proof (induction rule: gc_reach.induct)
  case (gc_init s)
  then show ?case by (simp add: gc_inv_def gc_fresh_def events_ok_def state_agrees_def numbered_runs_def)
next
  case (gc_start s sel)
  have "gc_inv (snd (boot_fresh P C sel s))" using gc_start by (intro gc_inv_boot)
  moreover have "gc_inv (LOG_VMM t s)" "gc_inv (LOG_VMM t (snd (boot_fresh P C sel s)))" for t
    using gc_start calculation gc_inv_other other_log(1) by blast+
  ultimately show ?case by (simp add: guest_control_start_def split_beta Let_def)
next
  case (gc_stop s)
  show ?case
  proof (cases "v_state s = GUEST_RUNNING")
    case False
    then show ?thesis using gc_stop stop_refused [of s P] gc_inv_other calm_other quiet_calm by blast
  next
    case True
    let ?e = "event TRACE_GUEST_STOPPED_BY_COMMAND 0 (v_run s) (v_run_vcpu s)"
    from stop_running [OF True] obtain k t where eq: "guest_control_stop P s = s\<lparr>v_k := k, v_state := GUEST_STOPPED_BY_COMMAND,
      v_out := v_out s @ [VcpuStop (v_run_vcpu s), VcpuSetOn (v_run_vcpu s) False, Emit ?e, Log t]\<rparr>" by blast
    have ge: "guest_events (v_out (guest_control_stop P s)) = guest_events (v_out s) @ [?e]"
      by (simp add: eq guest_events_def)
    show ?thesis
      using gc_inv_stop_event [OF gc_stop.IH True, of ?e] gc_stop.IH ge unfolding gc_inv_def state_agrees_def numbered_runs_def
      by (simp add: eq Let_def)
  qed
next
  case (gc_fault s f)
  let ?r = "reported_fault P (v_run_vcpu s) f s"
  let ?e = "event TRACE_GUEST_STOPPED_BY_FAULT (fs_pc ?r) (v_run s) (v_run_vcpu s)"
  from fault_stopped_spec [of P "v_run_vcpu s" f s] obtain k pre t where
    eq: "guest_control_fault_stopped P (v_run_vcpu s) f s = s\<lparr>v_k := k, v_state := GUEST_STOPPED_BY_FAULT, v_last_fault := ?r,
      v_out := v_out s @ pre @ [VcpuStop (v_run_vcpu s), VcpuSetOn (v_run_vcpu s) False, Emit ?e, Log t]\<rparr>"
    and pre: "emitted pre = []" by blast
  have ge: "guest_events (v_out (guest_control_fault_stopped P (v_run_vcpu s) f s)) = guest_events (v_out s) @ [?e]"
    using pre by (simp add: eq guest_events_def)
  show ?case
    using gc_inv_stop_event [OF gc_fault.IH gc_fault.hyps(2), of ?e] gc_fault.IH ge
    unfolding gc_inv_def state_agrees_def numbered_runs_def by (simp add: eq Let_def)
next
  case (gc_other s s')
  then show ?case using gc_inv_other by blast
qed

section \<open>Properties\<close>

text \<open>
  The life cycle of the guest in the trace: in every state the VMM can reach, each STOPPED event
  directly follows the STARTED event of the same run and vCPU, runs are numbered 1, 2, 3, \<dots> in the
  order of their STARTED events and \<open>run\<close> is their number, and the recorded state agrees with the last
  event: no event before a first start, a running guest's last event is its own start, a stopped
  guest's the stop of its run by that cause.
\<close>

theorem guest_lifecycle:
  assumes "gc_reach P C s"
  shows "events_ok (guest_events (v_out s)) \<and> numbered_runs s \<and> state_agrees s"
  using gc_reach_inv [OF assms] by (simp add: gc_inv_def)

definition demo_started :: "u64 vmm" where
  "demo_started = guest_control_start demo_platform demo_config 0x103 demo_vmm"

definition demo_stopped :: "u64 vmm" where
  "demo_stopped = guest_control_stop demo_platform demo_started"

lemmas demo_simps = demo_platform_def demo_vmm_def demo_config_def harness_map_def

lemma demo_fresh: "gc_fresh demo_config demo_vmm"
  by (simp add: gc_fresh_def demo_simps guest_events_def)

lemma demo_boot: "fst (boot_fresh demo_platform demo_config 0x103 demo_vmm)"
  by (simp add: boot_fresh_def guest_image_load_def harness_image_load_def start_vcpu_def tcb_write_registers_def
      GUEST_SELECT_VCPU_def GUEST_SELECT_GUEST_def GUEST_SELECT_IS_HARNESS_def demo_simps Let_def)

theorem guest_lifecycle_witness:
  "state_agrees demo_stopped \<and> v_state demo_stopped = GUEST_STOPPED_BY_COMMAND \<and> v_run demo_stopped = 1"
proof -
  have r: "gc_reach demo_platform demo_config demo_stopped"
    unfolding demo_stopped_def demo_started_def by (intro gc_reach.intros demo_fresh)
  have st: "v_state demo_started = GUEST_RUNNING \<and> v_run demo_started = 1"
  proof (cases demo_platform demo_config "0x103 :: u64" demo_vmm rule: boot_fresh_cases)
    case refused
    then show ?thesis using demo_boot by simp
  next
    case (late pc)
    then show ?thesis
      using demo_boot by (simp add: demo_started_def guest_control_start_def LOG_VMM_def out_def split_beta Let_def)
        (simp add: demo_vmm_def)
  qed
  then have "v_state demo_stopped = GUEST_STOPPED_BY_COMMAND \<and> v_run demo_stopped = 1"
    using stop_running [of demo_started demo_platform] by (auto simp: demo_stopped_def)
  then show ?thesis using guest_lifecycle [OF r] by simp
qed

text \<open>
  C15. A successful start: the image is in place before the vCPU is reset and the STARTED event traced
  with the next run number and the entry point; only then are the registers written (\<open>x0\<close> the boot
  argument, EL1h with all interrupts masked, every other register zero), the vCPU marked on and
  restarted at the entry point.  The vCPU number is one of the build's and the exit statistics start at zero.
\<close>

theorem start_effects:
  assumes "v_state s \<noteq> GUEST_RUNNING" and "fst (boot_fresh P C sel s)"
  defines "v \<equiv> GUEST_SELECT_VCPU sel" and "s' \<equiv> guest_control_start P C sel s"
  shows "\<exists>boot s1 t. guest_image_load P C sel s = (Some boot, s1)
    \<and> v_out s' = v_out s1 @ [VcpuReset v, Emit (event TRACE_GUEST_STARTED (gb_pc boot) (v_run s + 1) v),
        TcbWriteRegisters v (boot_regs boot), VcpuSetOn v True, VcpuRestart v (gb_pc boot), Log t]
    \<and> v_state s' = GUEST_RUNNING \<and> v_run s' = v_run s + 1 \<and> v_run_vcpu s' = v
    \<and> v < gm_num_vcpus (cf_map C) \<and> v_stats s' = (\<lambda>_. \<lparr>es_count = 0, es_last = 0\<rparr>)"
proof -
  have vc: "\<not> gm_num_vcpus (cf_map C) \<le> v" using assms(2) by (auto simp: boot_fresh_def v_def split: if_splits)
  obtain b s1 where ld: "guest_image_load P C sel s = (b, s1)" by fastforce
  then obtain boot where b: "b = Some boot" using assms(2) vc by (cases b) (simp_all add: boot_fresh_def v_def)
  have r1: "v_run s1 = v_run s" using guest_image_load_frame [of s P C sel] ld
    by (simp add: load_frame_def calm_def same_guest_def)
  have stats: "guest_stats_reset P x = x\<lparr>v_stats := (\<lambda>_. \<lparr>es_count = 0, es_last = 0\<rparr>), v_k := snd (p_cntpct P (v_k x)),
      v_last_heartbeat := fst (p_cntpct P (v_k x))\<rparr>" for x :: "'a vmm"
    using stats_reset_zero [of P x]
    by (simp add: guest_stats_reset_def enum_guest_exit_def read_cntpct_def split_beta)
  show ?thesis
    using assms(1,2) vc ld b r1
    by (auto simp: s'_def v_def guest_control_start_def boot_fresh_def start_vcpu_def boot_regs_def trace_guest_event_def
        guest_event_record_def event_def stats vmm_simps split: if_splits)
qed

theorem start_effects_witness:
  "\<exists>t. v_out demo_started = [CacheClean 0x20000000 0x20200000, VcpuReset 0, Emit (event TRACE_GUEST_STARTED 0x80000000 1 0),
     TcbWriteRegisters 0 (zero_context\<lparr>uc_x0 := 3, uc_spsr := 0x1c5, uc_pc := 0x80000000\<rparr>), VcpuSetOn 0 True,
     VcpuRestart 0 0x80000000, Log t]"
proof -
  have nr: "v_state demo_vmm \<noteq> GUEST_RUNNING" by (simp add: demo_vmm_def)
  from start_effects [OF nr demo_boot] obtain boot s1 t where
    ld: "guest_image_load demo_platform demo_config 0x103 demo_vmm = (Some boot, s1)"
    and o: "v_out demo_started = v_out s1 @ [VcpuReset (GUEST_SELECT_VCPU 0x103),
        Emit (event TRACE_GUEST_STARTED (gb_pc boot) (v_run demo_vmm + 1) (GUEST_SELECT_VCPU 0x103)),
        TcbWriteRegisters (GUEST_SELECT_VCPU 0x103) (boot_regs boot), VcpuSetOn (GUEST_SELECT_VCPU 0x103) True,
        VcpuRestart (GUEST_SELECT_VCPU 0x103) (gb_pc boot), Log t]"
    unfolding demo_started_def by blast
  have "v_out s1 = [CacheClean 0x20000000 0x20200000]" "boot = \<lparr>gb_pc = 0x80000000, gb_dtb = 3, gb_initrd = 0\<rparr>"
    using ld by (auto simp: guest_image_load_def harness_image_load_def clean_ram_def out_def ram_memcpy_def ram_memset_def
        GUEST_SELECT_GUEST_def GUEST_SELECT_IS_HARNESS_def GUEST_SELECT_HARNESS_MODE_def demo_simps)
  then show ?thesis
    using o by (simp add: GUEST_SELECT_VCPU_def boot_regs_def boot_spsr_def) (simp add: demo_vmm_def)
qed

text \<open>
  A fault stop takes effect before it is reported: the faulting vCPU is stopped and marked off
  first, then exactly one STOPPED_BY_FAULT event is traced, with the fault's pc and the current run,
  then the cause is logged; the state becomes stopped-by-fault with the cause recorded, and for a
  refused SMC the recorded detail is the guest's \<open>x0\<close>.
\<close>

theorem fault_stop_effects:
  "\<exists>k pre t. guest_control_fault_stopped P v f s = s\<lparr>v_k := k, v_state := GUEST_STOPPED_BY_FAULT,
      v_last_fault := reported_fault P v f s,
      v_out := v_out s @ pre @ [VcpuStop v, VcpuSetOn v False,
        Emit (event TRACE_GUEST_STOPPED_BY_FAULT (fs_pc (reported_fault P v f s)) (v_run s) (v_run_vcpu s)), Log t]\<rparr>
    \<and> emitted pre = []"
  by (rule fault_stopped_spec)

end
