(* ===== verification/Mmio.thy ===== *)
theory Mmio
  imports Guest_Stats
begin

text \<open>
  Guest accesses to device memory: their trace records (\<^verbatim>\<open>vmm/mmio_trace.c\<close>), read-only forwarding of a
  device to the guest (\<^verbatim>\<open>vmm/mmio_forward.c\<close>), and the emulated Exynos UART, whose output becomes lines of the
  console (\<^verbatim>\<open>vmm/exynos_uart_emul.c\<close>).  A handler returns whether it handled the access and the guest's registers,
  which an emulated read updates.
\<close>

section \<open>Records\<close>

definition mmio_record :: "'k platform \<Rightarrow> u64 \<Rightarrow> u64 \<Rightarrow> u64 \<Rightarrow> u64 \<Rightarrow> u8 \<Rightarrow> u64 \<Rightarrow> trace_record" where
  "mmio_record P vcpu_id pc addr fsr flags value =
     zero_record\<lparr>tr_pc := pc, tr_addr := addr, tr_value := value, tr_esr := ucast fsr, tr_vcpu := ucast vcpu_id,
       tr_kind := TRACE_KIND_MMIO, tr_size := ucast (p_fault_width_bytes P fsr),
       tr_flags := flags OR (if p_fault_is_write P fsr then TRACE_MMIO_WRITE else 0)\<rparr>"

definition mmio_trace_emit :: "'k platform \<Rightarrow> u64 \<Rightarrow> u64 \<Rightarrow> u64 \<Rightarrow> u64 \<Rightarrow> u8 \<Rightarrow> u64 \<Rightarrow> 'k vmm \<Rightarrow> 'k vmm" where
  "mmio_trace_emit P vcpu_id pc addr fsr flags value s = trace_emit (mmio_record P vcpu_id pc addr fsr flags value) s"

definition mmio_trace :: "'k platform \<Rightarrow> u64 \<Rightarrow> user_context \<Rightarrow> u64 \<Rightarrow> u64 \<Rightarrow> u8 \<Rightarrow> u64 \<Rightarrow> 'k vmm \<Rightarrow> 'k vmm" where
  "mmio_trace P vcpu_id regs addr fsr flags value s = mmio_trace_emit P vcpu_id (uc_pc regs) addr fsr flags value s"

definition mmio_trace_unhandled :: "'k platform \<Rightarrow> u64 \<Rightarrow> u64 \<Rightarrow> u64 \<Rightarrow> u64 \<Rightarrow> 'k vmm \<Rightarrow> 'k vmm" where
  "mmio_trace_unhandled P vcpu_id pc addr fsr s = mmio_trace_emit P vcpu_id pc addr fsr TRACE_MMIO_UNHANDLED 0 s"

section \<open>Read-only forwarding\<close>

definition forward_access_supported :: "'k platform \<Rightarrow> mmio_forward \<Rightarrow> u64 \<Rightarrow> u64 \<Rightarrow> 'k vmm \<Rightarrow> bool \<times> 'k vmm" where
  "forward_access_supported P fwd offset fsr s =
     (if p_fault_is_write P fsr
      then (False, LOG_VMM_ERR (mf_name fwd @ '': write at offset 0x'' @ fmt_lx offset @ '' refused, forwarding is read-only'' @ [NL]) s)
      else if p_fault_width_bytes P fsr \<noteq> 4 \<or> offset AND 3 \<noteq> 0
      then (False, LOG_VMM_ERR (mf_name fwd @ '': '' @ fmt_lu (p_fault_width_bytes P fsr) @ ''-byte access at offset 0x''
              @ fmt_lx offset @ '' not forwarded'' @ [NL]) s)
      else (True, s))"

definition forward_fault :: "'k platform \<Rightarrow> mmio_forward \<Rightarrow> u64 \<Rightarrow> u64 \<Rightarrow> u64 \<Rightarrow> user_context \<Rightarrow> 'k vmm
    \<Rightarrow> bool \<times> user_context \<times> 'k vmm" where
  "forward_fault P fwd vcpu_id offset fsr regs s =
     (let (supported, s1) = forward_access_supported P fwd offset fsr s in
      if \<not> supported then (False, regs, s1)
      else
        let (val, k) = p_mmio_read32 P (mf_vmm_vaddr fwd + offset) (v_k s1);
            s2 = s1\<lparr>v_k := k\<rparr>;
            regs1 = p_fault_emulate_write P regs offset fsr (ucast val);
            s3 = mmio_trace P vcpu_id regs1 (mf_gpa fwd + offset) fsr TRACE_MMIO_FORWARDED (ucast val) s2
        in (True, regs1, s3))"

definition mmio_forward_read_only_init :: "'k platform \<Rightarrow> mmio_forward \<Rightarrow> 'k vmm \<Rightarrow> bool \<times> 'k vmm" where
  "mmio_forward_read_only_init P fwd s =
     (if mf_vmm_vaddr fwd = 0 \<or> mf_size fwd = 0
      then (False, LOG_VMM_ERR (mf_name fwd @ '': no VMM mapping for forwarded region'' @ [NL]) s)
      else fault_register_vm_exception_handler P (mf_gpa fwd) (mf_size fwd) (ForwardFault fwd) s)"

section \<open>The emulated UART\<close>

abbreviation (input) EXYNOS_UART_ULCON :: u64 where "EXYNOS_UART_ULCON \<equiv> 0x00"
abbreviation (input) EXYNOS_UART_UCON :: u64 where "EXYNOS_UART_UCON \<equiv> 0x04"
abbreviation (input) EXYNOS_UART_UFCON :: u64 where "EXYNOS_UART_UFCON \<equiv> 0x08"
abbreviation (input) EXYNOS_UART_UTRSTAT :: u64 where "EXYNOS_UART_UTRSTAT \<equiv> 0x10"
abbreviation (input) EXYNOS_UART_UERSTAT :: u64 where "EXYNOS_UART_UERSTAT \<equiv> 0x14"
abbreviation (input) EXYNOS_UART_UFSTAT :: u64 where "EXYNOS_UART_UFSTAT \<equiv> 0x18"
abbreviation (input) EXYNOS_UART_UTXH :: u64 where "EXYNOS_UART_UTXH \<equiv> 0x20"
abbreviation (input) EXYNOS_UART_URXH :: u64 where "EXYNOS_UART_URXH \<equiv> 0x24"
abbreviation (input) EXYNOS_UART_UINTM :: u64 where "EXYNOS_UART_UINTM \<equiv> 0x38"
abbreviation (input) EXYNOS_UART_UFCON_FIFOMODE :: u32 where "EXYNOS_UART_UFCON_FIFOMODE \<equiv> 1"
abbreviation (input) EXYNOS_UART_UTRSTAT_TXFE :: u32 where "EXYNOS_UART_UTRSTAT_TXFE \<equiv> 2"
abbreviation (input) EXYNOS_UART_UTRSTAT_TXE :: u32 where "EXYNOS_UART_UTRSTAT_TXE \<equiv> 4"

abbreviation (input) CONSOLE_LINE_MAX :: nat where "CONSOLE_LINE_MAX \<equiv> 256"

text \<open>The text of the line buffer below \<open>line_len\<close>.\<close>

definition uart_text :: "exynos_uart_emul \<Rightarrow> string" where
  "uart_text u = map (ue_line u) [0..<unat (ue_line_len u)]"

text \<open>\<open>console_flush\<close> terminates the line and prints it up to its first NUL; both return the text printed.\<close>

definition uart_console_flush :: "exynos_uart_emul \<Rightarrow> exynos_uart_emul \<times> string list" where
  "uart_console_flush u =
     (let u1 = u\<lparr>ue_line := (ue_line u)(unat (ue_line_len u) := NUL)\<rparr>
      in (u1\<lparr>ue_line_len := 0\<rparr>, [''guest| '' @ c_str (map (ue_line u1) [0..<unat (ue_line_len u) + 1]) @ [NL]]))"

definition uart_console_putc :: "char \<Rightarrow> exynos_uart_emul \<Rightarrow> exynos_uart_emul \<times> string list" where
  "uart_console_putc c u =
     (if c = CR then (u, [])
      else if c = NL then uart_console_flush u
      else let (u1, printed) = (if ue_line_len u = of_nat (CONSOLE_LINE_MAX - 1) then uart_console_flush u else (u, []))
           in (u1\<lparr>ue_line := (ue_line u1)(unat (ue_line_len u1) := c), ue_line_len := ue_line_len u1 + 1\<rparr>, printed))"

definition emul_uart_read :: "'k platform \<Rightarrow> u64 \<Rightarrow> u64 \<Rightarrow> u64 \<Rightarrow> user_context \<Rightarrow> 'k vmm
    \<Rightarrow> bool \<times> user_context \<times> 'k vmm" where
  "emul_uart_read P vcpu_id offset fsr regs s =
     (let val = (if offset = EXYNOS_UART_UFCON then Some EXYNOS_UART_UFCON_FIFOMODE
                 else if offset = EXYNOS_UART_UTRSTAT then Some (EXYNOS_UART_UTRSTAT_TXE OR EXYNOS_UART_UTRSTAT_TXFE)
                 else if offset = EXYNOS_UART_UFSTAT then Some (0 :: u32) else None)
      in case val of
           None \<Rightarrow> (False, regs, LOG_VMM_ERR (''exynos-uart: read of unemulated offset 0x'' @ fmt_lx offset @ [NL]) s)
         | Some v \<Rightarrow>
             let regs1 = p_fault_emulate_write P regs offset fsr (ucast v)
             in (True, regs1, mmio_trace P vcpu_id regs1 (ue_gpa (v_uart s) + offset) fsr 0 (ucast v) s))"

definition emul_uart_write :: "'k platform \<Rightarrow> u64 \<Rightarrow> u64 \<Rightarrow> u64 \<Rightarrow> user_context \<Rightarrow> 'k vmm
    \<Rightarrow> bool \<times> user_context \<times> 'k vmm" where
  "emul_uart_write P vcpu_id offset fsr regs s =
     (if offset = EXYNOS_UART_UTXH
      then let val = p_fault_get_data P regs fsr;
               s1 = mmio_trace P vcpu_id regs (ue_gpa (v_uart s) + offset) fsr 0 val s;
               (u, printed) = uart_console_putc (char_of_byte (ucast (val AND 0xff))) (v_uart s1)
           in (True, regs, foldl (\<lambda>s t. out (Printf t) s) (s1\<lparr>v_uart := u\<rparr>) printed)
      else (False, regs, LOG_VMM_ERR (''exynos-uart: write of unemulated offset 0x'' @ fmt_lx offset @ [NL]) s))"

definition uart_fault :: "'k platform \<Rightarrow> u64 \<Rightarrow> u64 \<Rightarrow> u64 \<Rightarrow> user_context \<Rightarrow> 'k vmm
    \<Rightarrow> bool \<times> user_context \<times> 'k vmm" where
  "uart_fault P vcpu_id offset fsr regs s =
     (if p_fault_is_write P fsr then emul_uart_write P vcpu_id offset fsr regs s
      else emul_uart_read P vcpu_id offset fsr regs s)"

definition exynos_uart_emul_init :: "'k platform \<Rightarrow> u64 \<Rightarrow> u64 \<Rightarrow> 'k vmm \<Rightarrow> bool \<times> 'k vmm" where
  "exynos_uart_emul_init P gpa sz s =
     fault_register_vm_exception_handler P gpa sz UartFault
       (s\<lparr>v_uart := (v_uart s)\<lparr>ue_gpa := gpa, ue_line_len := 0\<rparr>\<rparr>)"

section \<open>Lines\<close>

text \<open>
  The specification of the console side: the text of the current line, and the lines printed.  A
  line ends at a newline or after 255 characters; carriage returns vanish.
\<close>

fun line_putc :: "char \<Rightarrow> string \<times> string list \<Rightarrow> string \<times> string list" where
  "line_putc c (cur, ls) =
     (if c = CR then (cur, ls)
      else if c = NL then ([], ls @ [cur])
      else if length cur = CONSOLE_LINE_MAX - 1 then ([c], ls @ [cur])
      else (cur @ [c], ls))"

definition uart_ok :: "exynos_uart_emul \<Rightarrow> bool" where
  "uart_ok u \<longleftrightarrow> unat (ue_line_len u) \<le> CONSOLE_LINE_MAX - 1"

lemma uart_text_length: "length (uart_text u) = unat (ue_line_len u)"
  by (simp add: uart_text_def)

lemma uart_flush_spec:
  "uart_text (fst (uart_console_flush u)) = []" "uart_ok (fst (uart_console_flush u))"
  "snd (uart_console_flush u) = [''guest| '' @ c_str (uart_text u) @ [NL]]" "ue_line_len (fst (uart_console_flush u)) = 0"
proof -
  have "map ((ue_line u)(unat (ue_line_len u) := NUL)) [0..<unat (ue_line_len u) + 1] = uart_text u @ [NUL]"
    by (simp add: uart_text_def)
  then show "snd (uart_console_flush u) = [''guest| '' @ c_str (uart_text u) @ [NL]]"
    by (simp add: uart_console_flush_def c_str_def takeWhile_tail)
qed (simp_all add: uart_console_flush_def uart_text_def uart_ok_def)

lemma uart_store_spec:
  assumes "unat (ue_line_len u) < CONSOLE_LINE_MAX - 1"
  shows "uart_text (u\<lparr>ue_line := (ue_line u)(unat (ue_line_len u) := c), ue_line_len := ue_line_len u + 1\<rparr>) = uart_text u @ [c]"
    and "uart_ok (u\<lparr>ue_line := (ue_line u)(unat (ue_line_len u) := c), ue_line_len := ue_line_len u + 1\<rparr>)"
proof -
  have "unat (ue_line_len u + 1) = Suc (unat (ue_line_len u))" using assms by (simp add: unat_word_ariths)
  then show "uart_text (u\<lparr>ue_line := (ue_line u)(unat (ue_line_len u) := c), ue_line_len := ue_line_len u + 1\<rparr>) = uart_text u @ [c]"
    and "uart_ok (u\<lparr>ue_line := (ue_line u)(unat (ue_line_len u) := c), ue_line_len := ue_line_len u + 1\<rparr>)"
    using assms by (simp_all add: uart_text_def uart_ok_def)
qed

definition print_line :: "string \<Rightarrow> string" where
  "print_line l = ''guest| '' @ c_str l @ [NL]"

lemma uart_putc_refines:
  assumes "uart_ok u"
  shows "uart_ok (fst (uart_console_putc c u))
    \<and> uart_text (fst (uart_console_putc c u)) = fst (line_putc c (uart_text u, ls))
    \<and> map print_line ls @ snd (uart_console_putc c u) = map print_line (snd (line_putc c (uart_text u, ls)))"
proof (cases "unat (ue_line_len u) = CONSOLE_LINE_MAX - 1")
  case True
  then have "ue_line_len u = of_nat (CONSOLE_LINE_MAX - 1)" by (rule word_of_unat)
  then show ?thesis
    using True uart_store_spec [of "fst (uart_console_flush u)" c] uart_flush_spec [of u] assms
    by (auto simp: uart_console_putc_def split_beta Let_def uart_text_length print_line_def)
next
  case False
  then have ne: "ue_line_len u \<noteq> of_nat (CONSOLE_LINE_MAX - 1)" by auto
  have "unat (ue_line_len u) < CONSOLE_LINE_MAX - 1" using False assms by (simp add: uart_ok_def)
  then show ?thesis
    using ne uart_store_spec [of u c] uart_flush_spec [of u] assms
    by (auto simp: uart_console_putc_def split_beta Let_def uart_text_length print_line_def)
qed

text \<open>A run of characters written by the guest.\<close>

fun uart_feed :: "string \<Rightarrow> exynos_uart_emul \<Rightarrow> exynos_uart_emul \<times> string list" where
  "uart_feed [] u = (u, [])"
| "uart_feed (c # cs) u =
     (let (u1, p1) = uart_console_putc c u; (u2, p2) = uart_feed cs u1 in (u2, p1 @ p2))"

lemma uart_feed_refines:
  assumes "uart_ok u"
  shows "uart_ok (fst (uart_feed cs u))
    \<and> uart_text (fst (uart_feed cs u)) = fst (fold line_putc cs (uart_text u, ls))
    \<and> map print_line ls @ snd (uart_feed cs u) = map print_line (snd (fold line_putc cs (uart_text u, ls)))"
  using assms
proof (induction cs arbitrary: u ls)
  case (Cons c cs)
  obtain u1 p1 where u1: "uart_console_putc c u = (u1, p1)" by fastforce
  obtain u2 p2 where u2: "uart_feed cs u1 = (u2, p2)" by fastforce
  let ?ls = "snd (line_putc c (uart_text u, ls))"
  have "uart_ok u1" "uart_text u1 = fst (line_putc c (uart_text u, ls))" "map print_line ls @ p1 = map print_line ?ls"
    using uart_putc_refines [OF Cons.prems, of c ls] u1 by simp_all
  moreover have "(uart_text u1, ?ls) = line_putc c (uart_text u, ls)"
    using calculation(2) by (metis prod.collapse)
  ultimately show ?case
    using Cons.IH [of u1 ?ls] u1 u2 by (metis (no_types, lifting) append.assoc case_prod_conv fold_simps(2) fst_conv snd_conv uart_feed.simps(2))
qed simp

lemma line_feed_text:
  "concat (snd (fold line_putc cs (cur, ls))) @ fst (fold line_putc cs (cur, ls))
     = concat ls @ cur @ filter (\<lambda>c. c \<noteq> CR \<and> c \<noteq> NL) cs"
  by (induction cs arbitrary: cur ls) auto

definition short_lines :: "string \<times> string list \<Rightarrow> bool" where
  "short_lines p \<longleftrightarrow> length (fst p) \<le> 255 \<and> (\<forall>l \<in> set (snd p). length l \<le> 255)"

lemma line_putc_short: "short_lines p \<Longrightarrow> short_lines (line_putc c p)"
  by (cases p) (auto simp: short_lines_def)

lemma line_feed_short: "short_lines p \<Longrightarrow> short_lines (fold line_putc cs p)"
  by (induction cs arbitrary: p) (simp_all add: line_putc_short del: line_putc.simps)

section \<open>Properties\<close>

text \<open>
  C17. The guest's console output: from any state of the emulated UART whose buffer is in bounds, and for any characters the guest
  writes, the buffer stays in bounds, and the lines printed and the text left in the buffer are what the line specification gives:
  no line is longer than 255 characters, and the lines and the rest together are the guest's characters in order, without carriage
  returns and newlines.  A line is printed behind \<open>guest|\<close> up to its first NUL; when the guest has written none, every line
  is printed in full.
\<close>

theorem uart_lines_refine:
  fixes u :: exynos_uart_emul and cs :: string
  assumes "uart_ok u"
  defines "r \<equiv> fold line_putc cs (uart_text u, [])"
  shows "uart_ok (fst (uart_feed cs u)) \<and> uart_text (fst (uart_feed cs u)) = fst r
    \<and> snd (uart_feed cs u) = map print_line (snd r)
    \<and> concat (snd r) @ fst r = uart_text u @ filter (\<lambda>c. c \<noteq> CR \<and> c \<noteq> NL) cs
    \<and> (\<forall>l \<in> set (snd r). length l \<le> 255)
    \<and> (NUL \<notin> set (uart_text u) \<union> set cs \<longrightarrow> snd (uart_feed cs u) = map (\<lambda>l. ''guest| '' @ l @ [NL]) (snd r))"
proof -
  have feed: "snd (uart_feed cs u) = map print_line (snd r)"
    using uart_feed_refines [OF assms(1), of cs "[]"] by (simp add: r_def)
  have all: "concat (snd r) @ fst r = uart_text u @ filter (\<lambda>c. c \<noteq> CR \<and> c \<noteq> NL) cs"
    using line_feed_text [of cs "uart_text u" "[]"] by (simp add: r_def)
  have "map print_line (snd r) = map (\<lambda>l. ''guest| '' @ l @ [NL]) (snd r)" if "NUL \<notin> set (uart_text u) \<union> set cs"
  proof (rule map_cong [OF refl])
    fix l assume "l \<in> set (snd r)"
    then have "set l \<subseteq> set (concat (snd r) @ fst r)" by auto
    also have "\<dots> \<subseteq> set (uart_text u) \<union> set cs" unfolding all by auto
    finally show "print_line l = ''guest| '' @ l @ [NL]" using that by (auto simp: print_line_def c_str_def takeWhile_eq_all_conv)
  qed
  then show ?thesis
    using uart_feed_refines [OF assms(1), of cs "[]"] line_feed_short [of "(uart_text u, [])" cs] assms(1) feed all
    by (auto simp: r_def uart_ok_def uart_text_length short_lines_def simp del: line_putc.simps)
qed

definition demo_uart :: exynos_uart_emul where
  "demo_uart = \<lparr>ue_gpa = 0x10870000, ue_line = (\<lambda>_. NUL), ue_line_len = 0\<rparr>"

theorem uart_lines_refine_witness:
  "snd (uart_feed (''hi'' @ [CR, NL] @ ''x'') demo_uart) = [''guest| hi'' @ [NL]]"
proof -
  have ok: "uart_ok demo_uart" and empty: "uart_text demo_uart = []"
    by (simp_all add: uart_ok_def uart_text_def demo_uart_def)
  show ?thesis
    using uart_lines_refine [OF ok, of "''hi'' @ [CR, NL] @ ''x''"] unfolding empty
    by (simp add: print_line_def c_str_def)
qed

text \<open>
  The effects of printing lines.
\<close>

lemma printf_out: "foldl (\<lambda>s t. out (Printf t) s) s ts = s\<lparr>v_out := v_out s @ map Printf ts\<rparr>"
  by (induction ts arbitrary: s) (simp_all add: out_def)

lemma emitted_printf [simp]: "emitted (map Printf ts) = []"
  by (induction ts) simp_all

definition uart_value :: "'k platform \<Rightarrow> u64 \<Rightarrow> u64 \<Rightarrow> user_context \<Rightarrow> u64" where
  "uart_value P offset fsr regs =
     (if p_fault_is_write P fsr then p_fault_get_data P regs fsr
      else if offset = EXYNOS_UART_UFCON then 1 else if offset = EXYNOS_UART_UTRSTAT then 6 else 0)"

lemma uart_fault_effect:
  "\<exists>es. v_out (snd (snd (uart_fault P v offset fsr regs s))) = v_out s @ es
    \<and> (fst (uart_fault P v offset fsr regs s)
        \<longleftrightarrow> (if p_fault_is_write P fsr then offset = EXYNOS_UART_UTXH else offset \<in> {EXYNOS_UART_UFCON, EXYNOS_UART_UTRSTAT, EXYNOS_UART_UFSTAT}))
    \<and> emitted es = (if fst (uart_fault P v offset fsr regs s)
        then [mmio_record P v (uc_pc (fst (snd (uart_fault P v offset fsr regs s)))) (ue_gpa (v_uart s) + offset) fsr 0 (uart_value P offset fsr regs)] else [])
    \<and> calm s (snd (snd (uart_fault P v offset fsr regs s))) \<and> v_ram (snd (snd (uart_fault P v offset fsr regs s))) = v_ram s"
proof (cases "p_fault_is_write P fsr")
  case True
  show ?thesis
  proof (cases "offset = EXYNOS_UART_UTXH")
    case False
    then show ?thesis
      using True quiet_calm [OF quiet_err] by (auto simp: uart_fault_def emul_uart_write_def LOG_VMM_ERR_def out_def)
  next
    case tx: True
    obtain u printed where p: "uart_console_putc (char_of_byte (ucast (p_fault_get_data P regs fsr AND 0xff))) (v_uart s) = (u, printed)"
      by fastforce
    let ?r = "mmio_record P v (uc_pc regs) (ue_gpa (v_uart s) + offset) fsr 0 (p_fault_get_data P regs fsr)"
    have eq: "uart_fault P v offset fsr regs s = (True, regs, s\<lparr>v_uart := u, v_out := v_out s @ Emit ?r # map Printf printed\<rparr>)"
      using True tx p by (simp add: uart_fault_def emul_uart_write_def mmio_trace_def mmio_trace_emit_def trace_emit_def out_def
          printf_out [unfolded out_def])
    have "calm s (s\<lparr>v_uart := u, v_out := v_out s @ Emit ?r # map Printf printed\<rparr>)"
      by (simp add: calm_def same_guest_def guest_events_def mmio_record_def)
    then show ?thesis using eq True tx by (auto simp: uart_value_def)
  qed
next
  case False
  have c: "calm s (mmio_trace P v regs1 addr fsr fl val s)" for regs1 addr fl val
    unfolding mmio_trace_def mmio_trace_emit_def by (rule calm_emit) (simp add: mmio_record_def)
  have o: "v_out (mmio_trace P v regs1 addr fsr fl val s) = v_out s @ [Emit (mmio_record P v (uc_pc regs1) addr fsr fl val)]
      \<and> v_ram (mmio_trace P v regs1 addr fsr fl val s) = v_ram s" for regs1 addr fl val
    by (simp add: mmio_trace_def mmio_trace_emit_def trace_emit_def out_def)
  have e: "v_out (LOG_VMM_ERR t s) = v_out s @ [LogErr t] \<and> v_ram (LOG_VMM_ERR t s) = v_ram s" for t
    by (simp add: LOG_VMM_ERR_def out_def)
  show ?thesis
    using False c o e quiet_calm [OF quiet_err [of s]] by (simp add: uart_fault_def emul_uart_read_def uart_value_def Let_def)
qed

text \<open>
  C18. Every access to the emulated UART is either handled, with exactly one trace record carrying its
  address and the value written or read, or refused without one: handled are a write of the transmit
  register and reads of the three status registers.  The guest's control state, command ring and RAM
  are untouched.
\<close>

theorem uart_fault_traced:
  "\<exists>es. v_out (snd (snd (uart_fault P v offset fsr regs s))) = v_out s @ es
    \<and> (fst (uart_fault P v offset fsr regs s)
        \<longleftrightarrow> (if p_fault_is_write P fsr then offset = EXYNOS_UART_UTXH else offset \<in> {EXYNOS_UART_UFCON, EXYNOS_UART_UTRSTAT, EXYNOS_UART_UFSTAT}))
    \<and> emitted es = (if fst (uart_fault P v offset fsr regs s)
        then [mmio_record P v (uc_pc (fst (snd (uart_fault P v offset fsr regs s)))) (ue_gpa (v_uart s) + offset) fsr 0 (uart_value P offset fsr regs)] else [])
    \<and> calm s (snd (snd (uart_fault P v offset fsr regs s))) \<and> v_ram (snd (snd (uart_fault P v offset fsr regs s))) = v_ram s"
  by (rule uart_fault_effect)

text \<open>
  Forwarding is read-only: the forwarded device is read exactly once for a 4-byte aligned read, which
  is traced as forwarded, not a write, with the value the device gave; any other access leaves the
  device and the guest's registers alone, is not traced, and is reported unhandled.
\<close>

theorem forward_read_only:
  "(case forward_fault P fwd v offset fsr regs s of (handled, regs', s') \<Rightarrow>
     (handled \<longleftrightarrow> \<not> p_fault_is_write P fsr \<and> p_fault_width_bytes P fsr = 4 \<and> offset AND 3 = 0)
     \<and> (if handled
        then (case p_mmio_read32 P (mf_vmm_vaddr fwd + offset) (v_k s) of (val, k) \<Rightarrow>
               regs' = p_fault_emulate_write P regs offset fsr (ucast val) \<and> v_k s' = k
               \<and> v_out s' = v_out s @ [Emit (mmio_record P v (uc_pc regs') (mf_gpa fwd + offset) fsr TRACE_MMIO_FORWARDED (ucast val))]
               \<and> tr_flags (mmio_record P v (uc_pc regs') (mf_gpa fwd + offset) fsr TRACE_MMIO_FORWARDED (ucast val)) = TRACE_MMIO_FORWARDED)
        else regs' = regs \<and> v_k s' = v_k s \<and> (\<exists>t. v_out s' = v_out s @ [LogErr t])))"
  by (auto simp: forward_fault_def forward_access_supported_def mmio_trace_def mmio_trace_emit_def mmio_record_def
      LOG_VMM_ERR_def trace_emit_def out_def Let_def split_beta split: if_splits)

end
