(* ===== verification/Smc.thy ===== *)
theory Smc
  imports Guest_Stats
begin

text \<open>
  The guest's SMC instructions: the policy that decides between emulation, forwarding to the
  firmware and refusal (\<^verbatim>\<open>vmm/smc_policy.c\<close>), and the trace records of a call (\<^verbatim>\<open>vmm/smc_trace.c\<close>).
\<close>

section \<open>Trace records of a call\<close>

definition smc_record :: "u8 \<Rightarrow> u64 \<Rightarrow> u64 \<Rightarrow> u64 \<Rightarrow> u8 \<Rightarrow> u8 \<Rightarrow> u64 \<Rightarrow> u64 \<Rightarrow> trace_record" where
  "smc_record kind vcpu_id pc hsr flags first_reg a b =
     zero_record\<lparr>tr_pc := pc, tr_addr := a, tr_value := b, tr_esr := ucast hsr, tr_vcpu := ucast vcpu_id,
       tr_kind := kind, tr_size := first_reg, tr_flags := flags\<rparr>"

definition smc_trace_emit :: "u8 \<Rightarrow> u64 \<Rightarrow> u64 \<Rightarrow> u64 \<Rightarrow> u8 \<Rightarrow> u8 \<Rightarrow> u64 \<Rightarrow> u64 \<Rightarrow> 'k vmm \<Rightarrow> 'k vmm" where
  "smc_trace_emit kind vcpu_id pc hsr flags first_reg a b s =
     trace_emit (smc_record kind vcpu_id pc hsr flags first_reg a b) s"

definition smc_trace_regs :: "u64 \<Rightarrow> u64 \<Rightarrow> u64 \<Rightarrow> u8 \<Rightarrow> user_context \<Rightarrow> 'k vmm \<Rightarrow> 'k vmm" where
  "smc_trace_regs vcpu_id pc hsr flags r s =
     (let s1 = smc_trace_emit TRACE_KIND_SMC_REGS vcpu_id pc hsr flags 2 (uc_x2 r) (uc_x3 r) s;
          s2 = smc_trace_emit TRACE_KIND_SMC_REGS vcpu_id pc hsr flags 4 (uc_x4 r) (uc_x5 r) s1
      in smc_trace_emit TRACE_KIND_SMC_REGS vcpu_id pc hsr flags 6 (uc_x6 r) (uc_x7 r) s2)"

definition smc_trace_enter :: "u64 \<Rightarrow> u64 \<Rightarrow> u64 \<Rightarrow> user_context \<Rightarrow> 'k vmm \<Rightarrow> 'k vmm" where
  "smc_trace_enter vcpu_id pc hsr regs s =
     smc_trace_regs vcpu_id pc hsr 0 regs
       (smc_trace_emit TRACE_KIND_SMC_ENTER vcpu_id pc hsr 0 0 (uc_x0 regs) (uc_x1 regs) s)"

definition smc_trace_exit :: "u64 \<Rightarrow> u64 \<Rightarrow> u64 \<Rightarrow> u8 \<Rightarrow> user_context \<Rightarrow> 'k vmm \<Rightarrow> 'k vmm" where
  "smc_trace_exit vcpu_id pc hsr flags regs s =
     smc_trace_regs vcpu_id pc hsr TRACE_SMC_REGS_EXIT regs
       (smc_trace_emit TRACE_KIND_SMC_EXIT vcpu_id pc hsr flags 0 (uc_x0 regs) (uc_x1 regs) s)"

definition smc_trace_unhandled :: "u64 \<Rightarrow> u64 \<Rightarrow> u64 \<Rightarrow> 'k vmm \<Rightarrow> 'k vmm" where
  "smc_trace_unhandled vcpu_id pc hsr s =
     smc_trace_emit TRACE_KIND_SMC_EXIT vcpu_id pc hsr TRACE_SMC_UNHANDLED 0 0 0 s"

text \<open>The four records that carry \<open>x0\<close> to \<open>x7\<close> into or out of a call.\<close>

definition smc_records :: "u8 \<Rightarrow> u8 \<Rightarrow> u8 \<Rightarrow> u64 \<Rightarrow> u64 \<Rightarrow> u64 \<Rightarrow> user_context \<Rightarrow> trace_record list" where
  "smc_records kind flags regs_flags vcpu_id pc hsr r =
     [smc_record kind vcpu_id pc hsr flags 0 (uc_x0 r) (uc_x1 r),
      smc_record TRACE_KIND_SMC_REGS vcpu_id pc hsr regs_flags 2 (uc_x2 r) (uc_x3 r),
      smc_record TRACE_KIND_SMC_REGS vcpu_id pc hsr regs_flags 4 (uc_x4 r) (uc_x5 r),
      smc_record TRACE_KIND_SMC_REGS vcpu_id pc hsr regs_flags 6 (uc_x6 r) (uc_x7 r)]"

abbreviation (input) smc_enter_records :: "u64 \<Rightarrow> u64 \<Rightarrow> u64 \<Rightarrow> user_context \<Rightarrow> trace_record list" where
  "smc_enter_records \<equiv> smc_records TRACE_KIND_SMC_ENTER 0 0"

abbreviation (input) smc_exit_records :: "u8 \<Rightarrow> u64 \<Rightarrow> u64 \<Rightarrow> u64 \<Rightarrow> user_context \<Rightarrow> trace_record list" where
  "smc_exit_records flags \<equiv> smc_records TRACE_KIND_SMC_EXIT flags TRACE_SMC_REGS_EXIT"

definition smc_unhandled_record :: "u64 \<Rightarrow> u64 \<Rightarrow> u64 \<Rightarrow> trace_record" where
  "smc_unhandled_record vcpu_id pc hsr = smc_record TRACE_KIND_SMC_EXIT vcpu_id pc hsr TRACE_SMC_UNHANDLED 0 0 0"

lemma smc_trace_out:
  "smc_trace_enter v pc hsr r s = s\<lparr>v_out := v_out s @ map Emit (smc_enter_records v pc hsr r)\<rparr>"
  "smc_trace_exit v pc hsr flags r s = s\<lparr>v_out := v_out s @ map Emit (smc_exit_records flags v pc hsr r)\<rparr>"
  "smc_trace_unhandled v pc hsr s = s\<lparr>v_out := v_out s @ [Emit (smc_unhandled_record v pc hsr)]\<rparr>"
  by (simp_all add: smc_trace_enter_def smc_trace_exit_def smc_trace_unhandled_def smc_trace_regs_def
      smc_trace_emit_def trace_emit_def out_def smc_records_def smc_unhandled_record_def)

section \<open>Policy\<close>

abbreviation (input) SMCCC_SERVICE_STD :: u32 where "SMCCC_SERVICE_STD \<equiv> 4"
abbreviation (input) SMCCC_VERSION_FID :: u32 where "SMCCC_VERSION_FID \<equiv> 0x80000000"

definition SMCCC_SERVICE :: "u32 \<Rightarrow> u32" where
  "SMCCC_SERVICE fid = drop_bit 24 fid AND 0x3f"

definition SMCCC_FUNC_NUMBER :: "u32 \<Rightarrow> u32" where
  "SMCCC_FUNC_NUMBER fid = fid AND 0xffff"

datatype smc_action = SMC_EMULATE_PSCI | SMC_FORWARD | SMC_UNHANDLED

definition smc_policy :: "'k platform \<Rightarrow> u32 \<Rightarrow> smc_action" where
  "smc_policy P fid =
     (if SMCCC_SERVICE fid = SMCCC_SERVICE_STD \<and> SMCCC_FUNC_NUMBER fid < PSCI_MAX P then SMC_EMULATE_PSCI
      else if fid = SMCCC_VERSION_FID then SMC_FORWARD
      else SMC_UNHANDLED)"

text \<open>A local \<open>regs\<close> starts uninitialised in C and is read only after a successful call; here it starts zero.\<close>

definition read_regs :: "'k platform \<Rightarrow> u64 \<Rightarrow> 'k vmm \<Rightarrow> user_context option \<times> 'k vmm" where
  "read_regs P vcpu_id s =
     (let (err, regs) = tcb_read_registers P vcpu_id zero_context s in
      if err \<noteq> seL4_NoError
      then (None, LOG_VMM_ERR (''seL4_TCB_ReadRegisters returned '' @ fmt_d err @ [NL]) s)
      else (Some regs, s))"

definition smc_request :: "user_context \<Rightarrow> smc_context" where
  "smc_request r = \<lparr>sm_x0 = uc_x0 r, sm_x1 = uc_x1 r, sm_x2 = uc_x2 r, sm_x3 = uc_x3 r,
     sm_x4 = uc_x4 r, sm_x5 = uc_x5 r, sm_x6 = uc_x6 r, sm_x7 = uc_x7 r\<rparr>"

definition smc_result :: "smc_context \<Rightarrow> user_context \<Rightarrow> user_context" where
  "smc_result c r = r\<lparr>uc_x0 := sm_x0 c, uc_x1 := sm_x1 c, uc_x2 := sm_x2 c, uc_x3 := sm_x3 c,
     uc_x4 := sm_x4 c, uc_x5 := sm_x5 c, uc_x6 := sm_x6 c, uc_x7 := sm_x7 c\<rparr>"

definition smc_forward :: "'k platform \<Rightarrow> user_context \<Rightarrow> 'k vmm \<Rightarrow> user_context \<times> 'k vmm" where
  "smc_forward P regs s =
     (let (response, s1) = microkit_arm_smc_call P (smc_request regs) s in (smc_result response regs, s1))"

definition smc_emulate_psci :: "'k platform \<Rightarrow> u64 \<Rightarrow> u64 \<Rightarrow> u64 \<Rightarrow> 'k vmm \<Rightarrow> bool \<times> 'k vmm" where
  "smc_emulate_psci P vcpu_id pc hsr s =
     (let (handled, s1) = smc_handle P vcpu_id hsr s in
      if \<not> handled then (False, s1)
      else (case read_regs P vcpu_id s1 of
              (None, s2) \<Rightarrow> (False, s2)
            | (Some regs, s2) \<Rightarrow> (True, smc_trace_exit vcpu_id pc hsr 0 regs s2)))"

definition smc_forward_and_resume :: "'k platform \<Rightarrow> u64 \<Rightarrow> u64 \<Rightarrow> u64 \<Rightarrow> user_context \<Rightarrow> 'k vmm
    \<Rightarrow> bool \<times> user_context \<times> 'k vmm" where
  "smc_forward_and_resume P vcpu_id pc hsr regs s =
     (let (regs1, s1) = smc_forward P regs s;
          s2 = smc_trace_exit vcpu_id pc hsr TRACE_SMC_FORWARDED regs1 s1;
          (ok, s3) = fault_advance_vcpu P vcpu_id regs1 s2
      in (ok, regs1, s3))"

definition smc_fault_hsr :: "'k platform \<Rightarrow> msg \<Rightarrow> u64 \<Rightarrow> bool \<times> u64" where
  "smc_fault_hsr P m hsr0 =
     (if m_label m \<noteq> seL4_Fault_VCPUFault P then (False, hsr0)
      else let hsr = m_mr m (seL4_VCPUFault_HSR P)
           in (HSR_EXCEPTION_CLASS P hsr = HSR_SMC_64_EXCEPTION P, hsr))"

definition smc_policy_handle :: "'k platform \<Rightarrow> u64 \<Rightarrow> u64 \<Rightarrow> 'k vmm \<Rightarrow> bool \<times> 'k vmm" where
  "smc_policy_handle P vcpu_id hsr s =
     (case read_regs P vcpu_id s of
        (None, s1) \<Rightarrow> (False, s1)
      | (Some regs, s1) \<Rightarrow>
          (let pc = uc_pc regs;
               s2 = smc_trace_enter vcpu_id pc hsr regs s1;
               (handled, regs1, s3) =
                 (case smc_policy P (ucast (uc_x0 regs)) of
                    SMC_EMULATE_PSCI \<Rightarrow> (let (h, s3) = smc_emulate_psci P vcpu_id pc hsr s2 in (h, regs, s3))
                  | SMC_FORWARD \<Rightarrow> smc_forward_and_resume P vcpu_id pc hsr regs s2
                  | SMC_UNHANDLED \<Rightarrow> (False, regs, s2))
           in if \<not> handled
              then (False, LOG_VMM_ERR (''SMC 0x'' @ fmt_lx (uc_x0 regs1) @ '' at pc 0x'' @ fmt_lx pc
                     @ '' not handled by policy'' @ [NL]) (smc_trace_unhandled vcpu_id pc hsr s3))
              else (True, s3)))"

section \<open>Properties\<close>

lemma emitted_map_Emit [simp]: "emitted (map Emit rs) = rs"
  by (induction rs) simp_all

text \<open>What a call adds to the effects, branch by branch.\<close>

definition smc_tail :: "'k platform \<Rightarrow> u64 \<Rightarrow> u64 \<Rightarrow> user_context \<Rightarrow> bool \<Rightarrow> trace_record list \<Rightarrow> bool" where
  "smc_tail P v hsr regs handled rs \<longleftrightarrow>
     (case smc_policy P (ucast (uc_x0 regs)) of
        SMC_EMULATE_PSCI \<Rightarrow>
          (if handled then (\<exists>regs'. rs = smc_exit_records 0 v (uc_pc regs) hsr regs')
           else rs = [smc_unhandled_record v (uc_pc regs) hsr])
      | SMC_FORWARD \<Rightarrow>
          (\<exists>resp. rs = smc_exit_records TRACE_SMC_FORWARDED v (uc_pc regs) hsr (smc_result resp regs)
             @ (if handled then [] else [smc_unhandled_record v (uc_pc regs) hsr]))
      | SMC_UNHANDLED \<Rightarrow> \<not> handled \<and> rs = [smc_unhandled_record v (uc_pc regs) hsr])"

lemma smc_emulate_psci_out:
  "\<exists>es. v_out (snd (smc_emulate_psci P v pc hsr s)) = v_out s @ SmcHandle v hsr # es
    \<and> (\<forall>req. SmcCall req \<notin> set es)
    \<and> (if fst (smc_emulate_psci P v pc hsr s) then \<exists>regs'. emitted es = smc_exit_records 0 v pc hsr regs' else emitted es = [])"
  by (simp add: smc_emulate_psci_def read_regs_def smc_trace_out vmm_simps)
    (auto simp: smc_records_def)

lemma smc_forward_out:
  "\<exists>resp b. smc_forward_and_resume P v pc hsr regs s = (b, smc_result resp regs, snd (snd (smc_forward_and_resume P v pc hsr regs s)))
    \<and> v_out (snd (snd (smc_forward_and_resume P v pc hsr regs s)))
      = v_out s @ SmcCall (smc_request regs) # map Emit (smc_exit_records TRACE_SMC_FORWARDED v pc hsr (smc_result resp regs))
          @ [AdvanceVcpu v (smc_result resp regs)]"
  by (auto simp: smc_forward_and_resume_def smc_forward_def smc_trace_out vmm_simps)

lemma smc_policy_handle_out:
  assumes "tcb_read_registers P v zero_context s = (seL4_NoError, regs)"
  shows "\<exists>es. v_out (snd (smc_policy_handle P v hsr s)) = v_out s @ es
    \<and> (\<exists>tail. emitted es = smc_enter_records v (uc_pc regs) hsr regs @ tail
         \<and> smc_tail P v hsr regs (fst (smc_policy_handle P v hsr s)) tail)
    \<and> [e \<leftarrow> es. \<exists>req. e = SmcCall req]
      = (if smc_policy P (ucast (uc_x0 regs)) = SMC_FORWARD then [SmcCall (smc_request regs)] else [])"
proof (cases "smc_policy P (ucast (uc_x0 regs))")
  case SMC_EMULATE_PSCI
  let ?s = "s\<lparr>v_out := v_out s @ map Emit (smc_enter_records v (uc_pc regs) hsr regs)\<rparr>"
  obtain h s3 where e: "smc_emulate_psci P v (uc_pc regs) hsr ?s = (h, s3)" by fastforce
  obtain es where es: "v_out s3 = v_out ?s @ SmcHandle v hsr # es" "\<forall>req. SmcCall req \<notin> set es"
    "if h then \<exists>regs'. emitted es = smc_exit_records 0 v (uc_pc regs) hsr regs' else emitted es = []"
    using smc_emulate_psci_out [of P v "uc_pc regs" hsr ?s] e by auto
  show ?thesis
    using assms SMC_EMULATE_PSCI e es
    by (cases h) (auto simp: smc_policy_handle_def read_regs_def smc_trace_out smc_tail_def LOG_VMM_ERR_def out_def smc_records_def Let_def
        filter_empty_conv)
next
  case SMC_FORWARD
  let ?s = "s\<lparr>v_out := v_out s @ map Emit (smc_enter_records v (uc_pc regs) hsr regs)\<rparr>"
  obtain h r s3 where e: "smc_forward_and_resume P v (uc_pc regs) hsr regs ?s = (h, r, s3)" by (metis prod_cases3)
  obtain resp where es: "v_out s3 = v_out ?s @ SmcCall (smc_request regs)
      # map Emit (smc_exit_records TRACE_SMC_FORWARDED v (uc_pc regs) hsr (smc_result resp regs)) @ [AdvanceVcpu v (smc_result resp regs)]"
    using smc_forward_out [of P v "uc_pc regs" hsr regs ?s] e by auto
  show ?thesis
    using assms SMC_FORWARD e es
    by (cases h) (auto simp: smc_policy_handle_def read_regs_def smc_trace_out smc_tail_def LOG_VMM_ERR_def out_def smc_records_def Let_def)
next
  case SMC_UNHANDLED
  then show ?thesis
    using assms by (auto simp: smc_policy_handle_def read_regs_def smc_trace_out smc_tail_def LOG_VMM_ERR_def out_def smc_records_def Let_def)
qed

lemma smc_read_failure:
  assumes "tcb_read_registers P v zero_context s = (err, regs)" and "err \<noteq> seL4_NoError"
  shows "smc_policy_handle P v hsr s
    = (False, LOG_VMM_ERR (''seL4_TCB_ReadRegisters returned '' @ fmt_d err @ [NL]) s)"
  using assms by (simp add: smc_policy_handle_def read_regs_def)

lemma smc_emulate_psci_frame: "io_only s (snd (smc_emulate_psci P v pc hsr s))"
  by (auto simp: io_only_def smc_emulate_psci_def read_regs_def smc_trace_out vmm_simps split: option.splits)

lemma smc_forward_frame: "io_only s (snd (snd (smc_forward_and_resume P v pc hsr regs s)))"
  by (simp add: io_only_def smc_forward_and_resume_def smc_forward_def smc_trace_out vmm_simps)

lemma smc_policy_handle_frame: "io_only s (snd (smc_policy_handle P v hsr s))"
proof -
  obtain err regs where rd: "tcb_read_registers P v zero_context s = (err, regs)" by fastforce
  show ?thesis
  proof (cases "err = seL4_NoError")
    case False
    then show ?thesis using smc_read_failure [OF rd] by (simp add: io_only_def LOG_VMM_ERR_def out_def)
  next
    case True
    let ?s = "s\<lparr>v_out := v_out s @ map Emit (smc_enter_records v (uc_pc regs) hsr regs)\<rparr>"
    obtain h s3 where psci: "smc_emulate_psci P v (uc_pc regs) hsr ?s = (h, s3)" by fastforce
    obtain h' r s4 where fwd: "smc_forward_and_resume P v (uc_pc regs) hsr regs ?s = (h', r, s4)" by (metis prod_cases3)
    have "s3 = s\<lparr>v_k := v_k s3, v_out := v_out s3\<rparr>" "s4 = s\<lparr>v_k := v_k s4, v_out := v_out s4\<rparr>"
      using smc_emulate_psci_frame [of ?s P v "uc_pc regs" hsr] smc_forward_frame [of ?s P v "uc_pc regs" hsr regs] psci fwd
      by (simp_all add: io_only_def)
    then obtain k3 o3 k4 o4 where s34: "s3 = s\<lparr>v_k := k3, v_out := o3\<rparr>" "s4 = s\<lparr>v_k := k4, v_out := o4\<rparr>" by blast
    show ?thesis
      using rd True psci fwd s34
      by (cases "smc_policy P (ucast (uc_x0 regs))")
        (simp_all add: io_only_def smc_policy_handle_def read_regs_def smc_trace_out LOG_VMM_ERR_def out_def Let_def)
  qed
qed

lemma smc_tail_no_guest: "smc_tail P v hsr regs h tail \<Longrightarrow> \<forall>r \<in> set tail. tr_kind r \<noteq> TRACE_KIND_GUEST"
  by (auto simp: smc_tail_def smc_records_def smc_record_def smc_unhandled_record_def
      split: smc_action.splits if_splits)

lemma smc_policy_handle_calm: "calm s (snd (smc_policy_handle P v hsr s))"
proof -
  obtain err regs where rd: "tcb_read_registers P v zero_context s = (err, regs)" by fastforce
  show ?thesis
  proof (cases "err = seL4_NoError")
    case False
    then show ?thesis using smc_read_failure [OF rd] quiet_calm [OF quiet_err] by simp
  next
    case True
    from smc_policy_handle_out [OF rd [unfolded True], of hsr] obtain es tail where
      es: "v_out (snd (smc_policy_handle P v hsr s)) = v_out s @ es"
      and em: "emitted es = smc_enter_records v (uc_pc regs) hsr regs @ tail"
      and tl: "smc_tail P v hsr regs (fst (smc_policy_handle P v hsr s)) tail" by blast
    have "\<forall>r \<in> set (emitted es). tr_kind r \<noteq> TRACE_KIND_GUEST"
      using smc_tail_no_guest [OF tl] em by (auto simp: smc_records_def smc_record_def)
    then have "guest_events es = []" by (simp add: guest_events_def filter_empty_conv)
    then show ?thesis
      using es io_only_fields [OF smc_policy_handle_frame [of s P v hsr]] by (auto simp: calm_def same_guest_def)
  qed
qed

text \<open>
  How a call ends, from the platform's answers alone: the flags and registers of the exit the trace should show, if there is one, and
  whether the call is handled.
\<close>

definition smc_outcome :: "'k platform \<Rightarrow> u64 \<Rightarrow> u64 \<Rightarrow> user_context \<Rightarrow> 'k \<Rightarrow> (u8 \<times> user_context) option \<times> bool" where
  "smc_outcome P v hsr regs k =
     (case smc_policy P (ucast (uc_x0 regs)) of
        SMC_EMULATE_PSCI \<Rightarrow>
          (let (handled, k1) = p_smc_handle P v hsr k; (err, regs1) = p_read_registers P v zero_context k1
           in if handled \<and> err = seL4_NoError then (Some (0, regs1), True) else (None, False))
      | SMC_FORWARD \<Rightarrow>
          (let (response, k1) = p_smc_call P (smc_request regs) k; regs1 = smc_result response regs
           in (Some (TRACE_SMC_FORWARDED, regs1), fst (p_advance_vcpu P v regs1 k1)))
      | SMC_UNHANDLED \<Rightarrow> (None, False))"

fun smc_step_effect :: "effect \<Rightarrow> bool" where
  "smc_step_effect (SmcHandle v hsr) = True"
| "smc_step_effect (SmcCall req) = True"
| "smc_step_effect (AdvanceVcpu v regs) = True"
| "smc_step_effect _ = False"

lemma filter_smc_step_Emit [simp]: "filter smc_step_effect (map Emit rs) = []"
  by (induction rs) simp_all

lemma smc_effects:
  assumes rd: "tcb_read_registers P v zero_context s = (seL4_NoError, regs)"
  shows "\<exists>es. v_out (snd (smc_policy_handle P v hsr s)) = v_out s @ es
    \<and> fst (smc_policy_handle P v hsr s) = snd (smc_outcome P v hsr regs (v_k s))
    \<and> emitted es = smc_enter_records v (uc_pc regs) hsr regs
        @ (case fst (smc_outcome P v hsr regs (v_k s)) of None \<Rightarrow> [] | Some (flags, regs1) \<Rightarrow> smc_exit_records flags v (uc_pc regs) hsr regs1)
        @ (if snd (smc_outcome P v hsr regs (v_k s)) then [] else [smc_unhandled_record v (uc_pc regs) hsr])
    \<and> filter smc_step_effect es
      = (case smc_policy P (ucast (uc_x0 regs)) of
           SMC_EMULATE_PSCI \<Rightarrow> [SmcHandle v hsr]
         | SMC_FORWARD \<Rightarrow> [SmcCall (smc_request regs), AdvanceVcpu v (snd (the (fst (smc_outcome P v hsr regs (v_k s)))))]
         | SMC_UNHANDLED \<Rightarrow> [])"
proof (cases "smc_policy P (ucast (uc_x0 regs))")
  case SMC_EMULATE_PSCI
  obtain h k1 where h: "p_smc_handle P v hsr (v_k s) = (h, k1)" by fastforce
  obtain err regs1 where r: "p_read_registers P v zero_context k1 = (err, regs1)" by fastforce
  show ?thesis
    using rd SMC_EMULATE_PSCI h r
    by (cases "h \<and> err = seL4_NoError")
      (auto simp: smc_policy_handle_def smc_emulate_psci_def read_regs_def smc_outcome_def smc_trace_out vmm_simps Let_def)
next
  case SMC_FORWARD
  obtain resp k1 where c: "p_smc_call P (smc_request regs) (v_k s) = (resp, k1)" by fastforce
  obtain ok k2 where a: "p_advance_vcpu P v (smc_result resp regs) k1 = (ok, k2)" by fastforce
  show ?thesis
    using rd SMC_FORWARD c a
    by (cases ok) (simp_all add: smc_policy_handle_def smc_forward_and_resume_def smc_forward_def read_regs_def smc_outcome_def
        smc_trace_out vmm_simps Let_def)
next
  case SMC_UNHANDLED
  then show ?thesis
    using rd by (simp add: smc_policy_handle_def read_regs_def smc_outcome_def smc_trace_out vmm_simps Let_def)
qed

text \<open>
  C16. Every SMC whose registers can be read is bracketed in the trace by what the guest passed and what it got back: the four records
  with its \<open>x0\<close> to \<open>x7\<close>; then, for an emulated call that succeeds, the registers read back after the
  emulation, and for a forwarded one the firmware's answer in the guest's own registers, the very registers the vCPU is resumed
  with; then one UNHANDLED record exactly when the handler reports failure.  It reports success exactly when the
  emulation and the second read succeed, or the firmware was called and the vCPU could be resumed.  When the registers
  cannot be read it emits nothing and reports failure.
\<close>

theorem smc_call_traced:
  "\<exists>es. v_out (snd (smc_policy_handle P v hsr s)) = v_out s @ es
    \<and> (case tcb_read_registers P v zero_context s of (err, regs) \<Rightarrow>
         if err = seL4_NoError
         then fst (smc_policy_handle P v hsr s) = snd (smc_outcome P v hsr regs (v_k s))
           \<and> emitted es = smc_enter_records v (uc_pc regs) hsr regs
             @ (case fst (smc_outcome P v hsr regs (v_k s)) of None \<Rightarrow> [] | Some (flags, regs1) \<Rightarrow> smc_exit_records flags v (uc_pc regs) hsr regs1)
             @ (if fst (smc_policy_handle P v hsr s) then [] else [smc_unhandled_record v (uc_pc regs) hsr])
           \<and> filter smc_step_effect es
             = (case smc_policy P (ucast (uc_x0 regs)) of
                  SMC_EMULATE_PSCI \<Rightarrow> [SmcHandle v hsr]
                | SMC_FORWARD \<Rightarrow> [SmcCall (smc_request regs), AdvanceVcpu v (snd (the (fst (smc_outcome P v hsr regs (v_k s)))))]
                | SMC_UNHANDLED \<Rightarrow> [])
         else emitted es = [] \<and> \<not> fst (smc_policy_handle P v hsr s))"
proof -
  obtain err regs where rd: "tcb_read_registers P v zero_context s = (err, regs)" by fastforce
  show ?thesis
  proof (cases "err = seL4_NoError")
    case True
    then show ?thesis using smc_effects [of P v s regs hsr] rd by auto
  next
    case False
    then show ?thesis using smc_read_failure [OF rd] rd by (simp add: LOG_VMM_ERR_def out_def)
  qed
qed

lemma forward_iff: "smc_policy P fid = SMC_FORWARD \<longleftrightarrow> fid = SMCCC_VERSION_FID"
  by (auto simp: smc_policy_def SMCCC_SERVICE_def)

text \<open>
  C7. Only SMCCC_VERSION reaches the firmware: handling an SMC makes a firmware call exactly when the
  registers were read and the low word of \<open>x0\<close> is the function id 0x80000000, and then one call, with
  the guest's own \<open>x0\<close> to \<open>x7\<close>.
\<close>

theorem smc_only_version_forwarded:
  "\<exists>es. v_out (snd (smc_policy_handle P v hsr s)) = v_out s @ es
    \<and> [e \<leftarrow> es. \<exists>req. e = SmcCall req]
      = (case tcb_read_registers P v zero_context s of (err, regs) \<Rightarrow>
           if err = seL4_NoError \<and> (ucast (uc_x0 regs) :: u32) = SMCCC_VERSION_FID then [SmcCall (smc_request regs)] else [])"
proof -
  obtain err regs where rd: "tcb_read_registers P v zero_context s = (err, regs)" by fastforce
  show ?thesis
  proof (cases "err = seL4_NoError")
    case True
    then show ?thesis using smc_policy_handle_out [of P v s regs hsr] rd by (auto simp: forward_iff)
  next
    case False
    then show ?thesis using smc_read_failure [OF rd] rd by (simp add: LOG_VMM_ERR_def out_def)
  qed
qed

lemma unat_service: "unat (SMCCC_SERVICE fid) = unat fid div 2 ^ 24 mod 64"
proof -
  have "(0x3f :: u32) = mask 6" by (simp add: mask_eq_exp_minus_1)
  then have "SMCCC_SERVICE fid = take_bit 6 (drop_bit 24 fid)"
    by (simp only: SMCCC_SERVICE_def take_bit_eq_mask)
  then show ?thesis by (simp add: take_bit_eq_mod drop_bit_eq_div unat_mod unat_div)
qed

lemma unat_func_number: "unat (SMCCC_FUNC_NUMBER fid) = unat fid mod 2 ^ 16"
proof -
  have "(0xffff :: u32) = mask 16" by (simp add: mask_eq_exp_minus_1)
  then have "SMCCC_FUNC_NUMBER fid = take_bit 16 fid"
    by (simp only: SMCCC_FUNC_NUMBER_def take_bit_eq_mask)
  then show ?thesis by (simp add: take_bit_eq_mod unat_mod)
qed

text \<open>
  The policy, on the function id as a number: the standard-service ids (bits 24 to 29 equal to 4,
  whatever the other bits) below \<open>PSCI_MAX\<close> are emulated, 0x80000000 alone is forwarded, every other id is
  refused.
\<close>

theorem smc_policy_spec:
  "smc_policy P fid =
     (if unat fid div 2 ^ 24 mod 64 = 4 \<and> unat fid mod 2 ^ 16 < unat (PSCI_MAX P) then SMC_EMULATE_PSCI
      else if unat fid = 2 ^ 31 then SMC_FORWARD else SMC_UNHANDLED)"
proof -
  have "SMCCC_SERVICE fid = SMCCC_SERVICE_STD \<longleftrightarrow> unat fid div 2 ^ 24 mod 64 = 4"
    unfolding unat_service [symmetric] by (auto dest: word_of_unat)
  moreover have "fid = SMCCC_VERSION_FID \<longleftrightarrow> unat fid = 2 ^ 31" by (auto dest: word_of_unat)
  ultimately show ?thesis by (simp add: smc_policy_def word_less_nat_alt unat_func_number)
qed

end
