(* ===== verification/Vmm.thy ===== *)
theory Vmm
  imports Breadcrumb Guest_Control Mmio Smc
begin

text \<open>
  \<^verbatim>\<open>vmm/vmm.c\<close>: the entry points of the VMM protection domain.  \<open>init\<close> registers the emulated devices, \<open>notified\<close>
  runs the commands \<open>uartrx\<close> queued, \<open>fault\<close> handles a fault of the guest and stops the guest if nobody
  does.  The reachable states of the VMM, under commands and faults in any order, satisfy the life
  cycle of \<open>Guest_Control\<close>.
\<close>

section \<open>Initialisation\<close>

definition vmm_init :: "'k platform \<Rightarrow> config \<Rightarrow> 'k vmm \<Rightarrow> 'k vmm" where
  "vmm_init P C s =
     (let s1 = LOG_VMM (''starting '' @ [CHR 0x22] @ microkit_name P @ [CHR 0x22, NL]) s;
          (ok, k) = p_guest_init P (v_k s1); s2 = s1\<lparr>v_k := k\<rparr>
      in if \<not> ok then LOG_VMM_ERR (''failed to initialise guest'' @ [NL]) s2
      else let (ok, s3) = exynos_uart_emul_init P (gm_uart_gpa (cf_map C)) (gm_uart_size (cf_map C)) s2 in
        if \<not> ok then LOG_VMM_ERR (''failed to register UART emulation'' @ [NL]) s3
        else let (ok, s4) = (case gm_watchdog (cf_map C) of
                None \<Rightarrow> (True, s3)
              | Some (gpa, sz) \<Rightarrow> mmio_forward_read_only_init P
                  \<lparr>mf_name = ''watchdog_cl0'', mf_gpa = gpa, mf_vmm_vaddr = cf_watchdog_vaddr C, mf_size = sz\<rparr> s3) in
          if \<not> ok then LOG_VMM_ERR (''failed to register watchdog_cl0 forwarding'' @ [NL]) s4
          else LOG_VMM (''guest not started; type guest-start'' @ [NL]) s4)"

section \<open>Commands\<close>

definition run_command :: "'k platform \<Rightarrow> config \<Rightarrow> cmd_entry \<Rightarrow> 'k vmm \<Rightarrow> 'k vmm" where
  "run_command P C cmd s =
     (if ce_verb cmd = TRACE_CMD_VERB_GUEST_START then guest_control_start P C (ce_arg cmd) s
      else if ce_verb cmd = TRACE_CMD_VERB_GUEST_STOP then guest_control_stop P s
      else if ce_verb cmd = TRACE_CMD_VERB_STATUS then guest_control_status P s
      else if ce_verb cmd = TRACE_CMD_VERB_GUEST_REGS then guest_control_regs s
      else LOG_VMM_ERR (''command '' @ fmt_lu (ce_id cmd) @ '': verb '' @ fmt_lu (ce_verb cmd) @ '' is not a VMM command'' @ [NL]) s)"

text \<open>No operation of the guest control touches the command ring; the loop's termination rests on it.\<close>

lemma boot_fresh_cmd:
  "v_cmd (snd (boot_fresh P C sel s)) = v_cmd s" "v_notifications (snd (boot_fresh P C sel s)) = v_notifications s"
proof -
  obtain b s1 where ld: "guest_image_load P C sel s = (b, s1)" by fastforce
  have "v_cmd s1 = v_cmd s \<and> v_notifications s1 = v_notifications s"
    using guest_image_load_frame [of s P C sel] ld by (simp add: load_frame_def calm_def)
  moreover have "v_cmd (guest_stats_reset P x) = v_cmd x \<and> v_notifications (guest_stats_reset P x) = v_notifications x" for x :: "'a vmm"
    using quiet_stats(1) [of x P] by (simp add: quiet_def)
  ultimately show "v_cmd (snd (boot_fresh P C sel s)) = v_cmd s" "v_notifications (snd (boot_fresh P C sel s)) = v_notifications s"
    using ld by (auto simp: boot_fresh_def start_vcpu_def trace_guest_event_def vmm_simps split: option.splits)
qed

lemma guest_control_cmd:
  "v_cmd (guest_control_start P C sel s) = v_cmd s" "v_notifications (guest_control_start P C sel s) = v_notifications s"
  "v_cmd (guest_control_stop P s) = v_cmd s" "v_notifications (guest_control_stop P s) = v_notifications s"
  "v_cmd (guest_control_fault_stopped P v f s) = v_cmd s"
  "v_notifications (guest_control_fault_stopped P v f s) = v_notifications s"
proof -
  show "v_cmd (guest_control_start P C sel s) = v_cmd s" "v_notifications (guest_control_start P C sel s) = v_notifications s"
    by (simp_all add: guest_control_start_def split_beta boot_fresh_cmd LOG_VMM_def out_def)
  show "v_cmd (guest_control_stop P s) = v_cmd s" "v_notifications (guest_control_stop P s) = v_notifications s"
    by (cases "v_state s = GUEST_RUNNING"; use stop_running [of s P] stop_refused [of s P] in \<open>auto simp: quiet_def\<close>)+
  show "v_cmd (guest_control_fault_stopped P v f s) = v_cmd s"
    "v_notifications (guest_control_fault_stopped P v f s) = v_notifications s"
    using fault_stopped_spec [of P v f s] by auto
qed

lemma run_command_cmd: "v_cmd (run_command P C cmd s) = v_cmd s" "v_notifications (run_command P C cmd s) = v_notifications s"
  using status_quiet [of s P] regs_calm [of s]
  by (simp_all add: run_command_def guest_control_cmd quiet_def calm_def LOG_VMM_ERR_def out_def)

function run_commands :: "'k platform \<Rightarrow> config \<Rightarrow> 'k vmm \<Rightarrow> 'k vmm" where
  "run_commands P C s =
     (if cq_tail (v_cmd s) \<noteq> cq_head (v_cmd s)
      then (let cmd = cq_entries (v_cmd s) (cmd_slot (cq_tail (v_cmd s)));
                s1 = run_command P C cmd s;
                s2 = s1\<lparr>v_cmd := (v_cmd s1)\<lparr>cq_completed_id := ce_id cmd\<rparr>\<rparr>;
                s3 = s2\<lparr>v_cmd := (v_cmd s2)\<lparr>cq_tail := cq_tail (v_cmd s2) + 1\<rparr>\<rparr>
            in run_commands P C s3)
      else s)"
  by pat_completeness auto
termination
proof (relation "measure (\<lambda>(P, C, s). unat (cq_head (v_cmd s) - cq_tail (v_cmd s)))", goal_cases)
  case (2 P C s cmd s1 s2 s3)
  then show ?case
    using unat_diff_pop [of "cq_head (v_cmd s)" "cq_tail (v_cmd s)"] by (simp add: run_command_cmd)
qed simp

declare run_commands.simps [simp del]

definition heartbeat :: "'k platform \<Rightarrow> 'k vmm \<Rightarrow> 'k vmm" where
  "heartbeat P s = guest_stats_heartbeat P (v_notifications s) (cq_head (v_cmd s)) (cq_tail (v_cmd s)) s"

abbreviation (input) CH_TRACER :: u32 where "CH_TRACER \<equiv> 1"
abbreviation (input) CH_UARTRX :: u32 where "CH_UARTRX \<equiv> 2"

definition handle_notification :: "'k platform \<Rightarrow> config \<Rightarrow> u32 \<Rightarrow> 'k vmm \<Rightarrow> 'k vmm" where
  "handle_notification P C ch s =
     (let s1 = s\<lparr>v_notifications := v_notifications s + 1\<rparr> in
      if ch \<noteq> CH_UARTRX then LOG_VMM_ERR (''unexpected notification on channel '' @ fmt_d ch @ [NL]) s1
      else run_commands P C s1)"

definition vmm_notified :: "'k platform \<Rightarrow> config \<Rightarrow> u32 \<Rightarrow> 'k vmm \<Rightarrow> 'k vmm" where
  "vmm_notified P C ch s =
     breadcrumb_leave P (handle_notification P C ch (breadcrumb_enter P VMM_PHASE_NOTIFIED (ucast ch) 0 0 s))"

section \<open>Faults\<close>

record vm_fault =
  vf_label :: u64
  vf_pc :: u64
  vf_addr :: u64
  vf_fsr :: u64
  vf_hsr :: u64

definition vm_fault_save :: "'k platform \<Rightarrow> msg \<Rightarrow> vm_fault" where
  "vm_fault_save P m =
     (let f = \<lparr>vf_label = m_label m, vf_pc = 0, vf_addr = 0, vf_fsr = 0, vf_hsr = 0\<rparr> in
      if m_label m = seL4_Fault_VMFault P
      then f\<lparr>vf_pc := m_mr m (seL4_VMFault_IP P), vf_addr := m_mr m (seL4_VMFault_Addr P), vf_fsr := m_mr m (seL4_VMFault_FSR P)\<rparr>
      else if m_label m = seL4_Fault_VCPUFault P then f\<lparr>vf_hsr := m_mr m (seL4_VCPUFault_HSR P)\<rparr>
      else f)"

definition guest_fault_of :: "'k platform \<Rightarrow> vm_fault \<Rightarrow> guest_fault" where
  "guest_fault_of P f =
     (if vf_label f = seL4_Fault_VMFault P then \<lparr>gf_kind = GUEST_FAULT_MEMORY, gf_detail = vf_addr f\<rparr>
      else if vf_label f = seL4_Fault_VCPUFault P then \<lparr>gf_kind = GUEST_FAULT_VCPU, gf_detail = vf_hsr f\<rparr>
      else \<lparr>gf_kind = GUEST_FAULT_OTHER, gf_detail = vf_label f\<rparr>)"

definition guest_fault_handle :: "'k platform \<Rightarrow> u64 \<Rightarrow> msg \<Rightarrow> 'k vmm \<Rightarrow> bool \<times> guest_fault \<times> 'k vmm" where
  "guest_fault_handle P child m s =
     (let f = vm_fault_save P m; stop = guest_fault_of P f; (ok, s1) = p_fault_handle P child m s in
      if ok then (True, stop, s1)
      else (False, stop, if vf_label f = seL4_Fault_VMFault P
                         then mmio_trace_unhandled P child (vf_pc f) (vf_addr f) (vf_fsr f) s1 else s1))"

text \<open>\<open>handle_fault\<close> and \<open>fault\<close> return whether the guest resumes (with an empty reply).\<close>

definition handle_fault :: "'k platform \<Rightarrow> u64 \<Rightarrow> msg \<Rightarrow> 'k vmm \<Rightarrow> bool \<times> 'k vmm" where
  "handle_fault P child m s =
     (let (is_smc, hsr) = smc_fault_hsr P m 0;
          s1 = guest_stats_count P (m_label m) hsr s;
          s2 = heartbeat P s1;
          (handled, stop, s3) =
            (if is_smc then (let (h, s3) = smc_policy_handle P child hsr s2 in (h, \<lparr>gf_kind = GUEST_FAULT_SMC, gf_detail = 0\<rparr>, s3))
             else guest_fault_handle P child m s2)
      in if \<not> handled then (False, guest_control_fault_stopped P child stop s3) else (True, s3))"

definition vmm_fault :: "'k platform \<Rightarrow> u64 \<Rightarrow> msg \<Rightarrow> 'k vmm \<Rightarrow> bool \<times> 'k vmm" where
  "vmm_fault P child m s =
     (let s1 = breadcrumb_enter P VMM_PHASE_FAULT (m_label m) (m_mr m 0) (m_mr m 1) s;
          (resume, s2) = handle_fault P child m s1
      in (resume, breadcrumb_leave P s2))"

section \<open>Running the queued commands\<close>

text \<open>What one iteration does for the command at the front.\<close>

definition complete_command :: "'k platform \<Rightarrow> config \<Rightarrow> cmd_entry \<Rightarrow> 'k vmm \<Rightarrow> 'k vmm" where
  "complete_command P C cmd s =
     (run_command P C cmd s)\<lparr>v_cmd := (v_cmd s)\<lparr>cq_completed_id := ce_id cmd, cq_tail := cq_tail (v_cmd s) + 1\<rparr>\<rparr>"

lemma run_commands_unfold:
  "run_commands P C s = (if cmd_live (v_cmd s) = [] then s else run_commands P C (complete_command P C (cmd_front (v_cmd s)) s))"
  by (subst run_commands.simps) (simp add: cmd_live_Nil complete_command_def run_command_cmd cmd_front_def Let_def)

lemma complete_command_cmd:
  "v_cmd (complete_command P C cmd s) = cmd_pop ((v_cmd s)\<lparr>cq_completed_id := ce_id cmd\<rparr>)"
  by (simp add: complete_command_def cmd_pop_def)

lemma cmd_ok_completed [simp]:
  "cmd_ok (q\<lparr>cq_completed_id := i\<rparr>) = cmd_ok q" "cmd_live (q\<lparr>cq_completed_id := i\<rparr>) = cmd_live q"
  by (simp_all add: cmd_ok_def cmd_live_def)

lemma run_commands_fold:
  assumes "cmd_ok (v_cmd s)"
  shows "run_commands P C s = fold (complete_command P C) (cmd_live (v_cmd s)) s
    \<and> cmd_live (v_cmd (run_commands P C s)) = [] \<and> cmd_ok (v_cmd (run_commands P C s))
    \<and> cq_completed_id (v_cmd (run_commands P C s))
      = (if cmd_live (v_cmd s) = [] then cq_completed_id (v_cmd s) else ce_id (last (cmd_live (v_cmd s))))
    \<and> cq_breadcrumb (v_cmd (run_commands P C s)) = cq_breadcrumb (v_cmd s)"
  using assms
proof (induction "cmd_live (v_cmd s)" arbitrary: s)
  case Nil
  then show ?case by (simp add: run_commands_unfold [of P C s])
next
  case (Cons e es)
  let ?s = "complete_command P C e s"
  have ne: "cmd_live (v_cmd s) \<noteq> []" using Cons.hyps(2) by (metis list.distinct(1))
  have front: "cmd_front (v_cmd s) = e" using cmd.front_law [OF Cons.prems ne] Cons.hyps(2) by (metis list.sel(1))
  have pop: "cmd_ok (v_cmd ?s)" "cmd_live (v_cmd ?s) = es"
    using cmd.pop_law [of "(v_cmd s)\<lparr>cq_completed_id := ce_id e\<rparr>"] Cons.prems ne Cons.hyps(2)
    by (simp_all add: complete_command_cmd) (metis list.sel(3))
  have run: "run_commands P C s = run_commands P C ?s" using run_commands_unfold [of P C s] ne front by simp
  have "cq_completed_id (v_cmd ?s) = ce_id e" "cq_breadcrumb (v_cmd ?s) = cq_breadcrumb (v_cmd s)"
    by (simp_all add: complete_command_cmd cmd_pop_def)
  then show ?case
    using Cons.hyps(1) [of ?s] pop run Cons.hyps(2) [symmetric] by auto
qed

section \<open>Life cycle of the whole VMM\<close>

text \<open>What libvmm's fault handler may do: run the registered device handlers, not the guest control.\<close>

definition fault_handler_calm :: "'k platform \<Rightarrow> bool" where
  "fault_handler_calm P \<longleftrightarrow> (\<forall>c m s. calm s (snd (p_fault_handle P c m s)))"

inductive vmm_reach :: "'k platform \<Rightarrow> config \<Rightarrow> 'k vmm \<Rightarrow> bool" for P C where
  vr_init: "gc_fresh C s \<Longrightarrow> v_out s = [] \<Longrightarrow> v_cmd s = empty_cmd_ring \<Longrightarrow> vmm_reach P C (vmm_init P C s)"
| vr_notified: "vmm_reach P C s \<Longrightarrow> vmm_reach P C (vmm_notified P C ch s)"
| vr_fault: "vmm_reach P C s \<Longrightarrow> v_state s = GUEST_RUNNING \<Longrightarrow> vmm_reach P C (snd (vmm_fault P (v_run_vcpu s) m s))"
| vr_queue: "vmm_reach P C s \<Longrightarrow> \<not> cmd_full (v_cmd s) \<Longrightarrow> vmm_reach P C (s\<lparr>v_cmd := cmd_push e (v_cmd s)\<rparr>)"

lemma other_cmd: "other_step s (s\<lparr>v_cmd := q\<rparr>)" "other_step s (s\<lparr>v_notifications := n\<rparr>)"
  by (auto simp: other_step_def same_guest_def guest_events_def)

lemma other_phase: "other_step s (set_phase P ph s)" "other_step s (upd_crumb f s)"
  by (auto simp: other_step_def same_guest_def guest_events_def)

lemma other_enter: "other_step s (breadcrumb_enter P ph l a b s)" "other_step s (breadcrumb_leave P s)"
  unfolding breadcrumb_enter_def breadcrumb_leave_def by (blast intro: other_step_trans other_phase)+

lemma gc_run_command: "gc_reach P C s \<Longrightarrow> gc_reach P C (run_command P C cmd s)"
  using gc_other [OF _ calm_other [OF quiet_calm [OF status_quiet]], of P C s P] gc_other [OF _ calm_other [OF regs_calm], of P C s]
    gc_other [OF _ other_log(2), of P C s]
  by (simp add: run_command_def gc_start gc_stop)

lemma gc_complete: "gc_reach P C s \<Longrightarrow> gc_reach P C (complete_command P C cmd s)"
  unfolding complete_command_def by (rule gc_other [OF gc_run_command other_cmd(1)])

lemma gc_fold: "gc_reach P C s \<Longrightarrow> gc_reach P C (fold (complete_command P C) es s)"
  by (induction es arbitrary: s) (simp_all add: gc_complete)

lemma init_other: "other_step s (vmm_init P C s)"
  by (auto simp: vmm_init_def other_step_def same_guest_def exynos_uart_emul_init_def mmio_forward_read_only_init_def
      guest_events_def vmm_simps split: option.split)

lemma handle_fault_cases:
  assumes "fault_handler_calm P"
  shows "\<exists>s3 f. calm s s3 \<and> handle_fault P c m s
    = (if fst (handle_fault P c m s) then (True, s3) else (False, guest_control_fault_stopped P c f s3))"
proof -
  obtain is_smc hsr where sm: "smc_fault_hsr P m 0 = (is_smc, hsr)" by fastforce
  let ?s2 = "heartbeat P (guest_stats_count P (m_label m) hsr s)"
  have c2: "calm s ?s2" unfolding heartbeat_def by (intro quiet_calm quiet_trans [OF quiet_stats(2) quiet_stats(5)])
  have un: "calm x (mmio_trace_unhandled P c pc a fsr x)" for x :: "'a vmm" and pc a fsr
    unfolding mmio_trace_unhandled_def mmio_trace_emit_def by (rule calm_emit) (simp add: mmio_record_def)
  show ?thesis
  proof (cases is_smc)
    case True
    obtain h s3 where "smc_policy_handle P c hsr ?s2 = (h, s3)" by fastforce
    moreover from this have "calm s s3" using calm_trans [OF c2 smc_policy_handle_calm [of ?s2 P c hsr]] by simp
    ultimately show ?thesis using sm True by (auto simp: handle_fault_def Let_def)
  next
    case False
    obtain ok s1 where fh: "p_fault_handle P c m ?s2 = (ok, s1)" by fastforce
    then have c1: "calm s s1" using calm_trans [OF c2] assms unfolding fault_handler_calm_def by (metis snd_conv)
    then have "calm s (mmio_trace_unhandled P c pc a fsr s1)" for pc a fsr using un calm_trans by blast
    then show ?thesis
      using sm False fh c1 by (cases ok; cases "vf_label (vm_fault_save P m) = seL4_Fault_VMFault P")
        (auto simp: handle_fault_def guest_fault_handle_def Let_def)
  qed
qed

lemma gc_fault_step:
  assumes "fault_handler_calm P" and "gc_reach P C s" and "v_state s = GUEST_RUNNING"
  shows "gc_reach P C (snd (vmm_fault P (v_run_vcpu s) m s))"
proof -
  let ?s1 = "breadcrumb_enter P VMM_PHASE_FAULT (m_label m) (m_mr m 0) (m_mr m 1) s"
  have o1: "other_step s ?s1" by (rule other_enter)
  from handle_fault_cases [OF assms(1), of ?s1 "v_run_vcpu s" m] obtain s3 f where c: "calm ?s1 s3"
    and h: "handle_fault P (v_run_vcpu s) m ?s1 = (if fst (handle_fault P (v_run_vcpu s) m ?s1) then (True, s3)
      else (False, guest_control_fault_stopped P (v_run_vcpu s) f s3))" by blast
  have o3: "other_step s s3" using other_step_trans [OF o1 calm_other [OF c]] .
  then have g3: "gc_reach P C s3" and r3: "v_state s3 = GUEST_RUNNING" "v_run_vcpu s3 = v_run_vcpu s"
    using assms(2,3) by (auto simp: other_step_def same_guest_def intro: gc_other)
  have "gc_reach P C (guest_control_fault_stopped P (v_run_vcpu s) f s3)" using gc_fault [OF g3 r3(1), of f] r3(2) by simp
  then have "gc_reach P C (snd (handle_fault P (v_run_vcpu s) m ?s1))" using h g3 by (metis snd_conv)
  then show ?thesis
    using gc_other [OF _ other_enter(2)] by (simp add: vmm_fault_def Let_def split_beta)
qed

text \<open>The invariant between two entries of the VMM.\<close>

definition vmm_inv :: "'k platform \<Rightarrow> config \<Rightarrow> 'k vmm \<Rightarrow> bool" where
  "vmm_inv P C s \<longleftrightarrow> gc_reach P C s \<and> cmd_ok (v_cmd s) \<and> bc_phase (crumb s) = phase_code VMM_PHASE_IDLE"

lemma set_phase_cmd_ok [simp]:
  "cmd_ok (v_cmd (set_phase P ph s)) = cmd_ok (v_cmd s)" "cmd_live (v_cmd (set_phase P ph s)) = cmd_live (v_cmd s)"
  "cmd_ok (v_cmd (upd_crumb f s)) = cmd_ok (v_cmd s)" "cmd_live (v_cmd (upd_crumb f s)) = cmd_live (v_cmd s)"
  by (simp_all add: cmd_ok_iff set_phase_cmd upd_crumb_def)

lemma notified_cmd_ok:
  assumes "cmd_ok (v_cmd s)"
  shows "cmd_ok (v_cmd (vmm_notified P C ch s))"
proof -
  let ?s1 = "(breadcrumb_enter P VMM_PHASE_NOTIFIED (ucast ch) 0 0 s)\<lparr>v_notifications :=
      v_notifications (breadcrumb_enter P VMM_PHASE_NOTIFIED (ucast ch) 0 0 s) + 1\<rparr>"
  have ok: "cmd_ok (v_cmd ?s1)" using assms by (simp add: breadcrumb_enter_def)
  then have "cmd_ok (v_cmd (run_commands P C ?s1))" using run_commands_fold by blast
  moreover have "cmd_ok (v_cmd (LOG_VMM_ERR t ?s1))" for t using ok by (simp add: LOG_VMM_ERR_def out_def)
  ultimately show ?thesis
    by (cases "ch = CH_UARTRX") (simp_all add: vmm_notified_def handle_notification_def breadcrumb_leave_def Let_def)
qed

lemma gc_notified:
  assumes "gc_reach P C s" and "cmd_ok (v_cmd s)"
  shows "gc_reach P C (vmm_notified P C ch s)"
proof -
  let ?s1 = "(breadcrumb_enter P VMM_PHASE_NOTIFIED (ucast ch) 0 0 s)\<lparr>v_notifications :=
      v_notifications (breadcrumb_enter P VMM_PHASE_NOTIFIED (ucast ch) 0 0 s) + 1\<rparr>"
  have g1: "gc_reach P C ?s1" using gc_other [OF gc_other [OF assms(1) other_enter(1)] other_cmd(2)] .
  have "cmd_ok (v_cmd ?s1)" using assms(2) by (simp add: breadcrumb_enter_def)
  then have "gc_reach P C (run_commands P C ?s1)" using run_commands_fold [of ?s1 P C] gc_fold [OF g1] by simp
  moreover have "gc_reach P C (LOG_VMM_ERR t ?s1)" for t using gc_other [OF g1 other_log(2)] .
  ultimately have "gc_reach P C (handle_notification P C ch (breadcrumb_enter P VMM_PHASE_NOTIFIED (ucast ch) 0 0 s))"
    by (cases "ch = CH_UARTRX") (simp_all add: handle_notification_def Let_def)
  then show ?thesis unfolding vmm_notified_def by (rule gc_other [OF _ other_enter(2)])
qed

lemma leave_idle: "bc_phase (crumb (breadcrumb_leave P s)) = phase_code VMM_PHASE_IDLE"
  by (simp add: breadcrumb_leave_def set_phase_crumb)

lemma fault_cmd_ok:
  assumes "fault_handler_calm P" and "cmd_ok (v_cmd s)"
  shows "cmd_ok (v_cmd (snd (vmm_fault P c m s)))"
proof -
  let ?s1 = "breadcrumb_enter P VMM_PHASE_FAULT (m_label m) (m_mr m 0) (m_mr m 1) s"
  from handle_fault_cases [OF assms(1), of ?s1 c m] obtain s3 f where "calm ?s1 s3"
    and h: "handle_fault P c m ?s1 = (if fst (handle_fault P c m ?s1) then (True, s3)
      else (False, guest_control_fault_stopped P c f s3))" by blast
  then have "cmd_ok (v_cmd s3)" using assms(2) by (simp add: calm_def breadcrumb_enter_def)
  then have "cmd_ok (v_cmd (snd (handle_fault P c m ?s1)))" using h by (metis snd_conv guest_control_cmd(5))
  then show ?thesis by (simp add: vmm_fault_def breadcrumb_leave_def split_beta Let_def)
qed

lemma vmm_reach_inv:
  assumes "fault_handler_calm P"
  shows "vmm_reach P C s \<Longrightarrow> vmm_inv P C s"
proof (induction rule: vmm_reach.induct)
  case (vr_init s)
  have "v_cmd (vmm_init P C s) = v_cmd s"
    by (auto simp: vmm_init_def exynos_uart_emul_init_def mmio_forward_read_only_init_def vmm_simps split: option.split)
  then show ?case
    using vr_init gc_other [OF gc_init init_other] by (simp add: vmm_inv_def cmd_ok_iff crumb_def empty_cmd_ring_def cmd_live_def ring_contents_empty)
next
  case (vr_notified s ch)
  then show ?case
    using gc_notified notified_cmd_ok leave_idle unfolding vmm_inv_def vmm_notified_def [symmetric]
    by (metis vmm_notified_def)
next
  case (vr_fault s m)
  then show ?case
    using gc_fault_step [OF assms] fault_cmd_ok [OF assms] leave_idle
    by (simp add: vmm_inv_def vmm_fault_def split_beta Let_def)
next
  case (vr_queue s e)
  then have "0 < cmd_room (v_cmd s)" by (simp add: cmd_full_iff cmd_room_eq)
  then have "cmd_ok (cmd_push e (v_cmd s))" using vr_queue.IH cmd.push_law by (simp add: vmm_inv_def)
  moreover have "gc_reach P C (s\<lparr>v_cmd := cmd_push e (v_cmd s)\<rparr>)"
    using vr_queue.IH gc_other other_cmd(1) unfolding vmm_inv_def by blast
  moreover have "cq_breadcrumb (cmd_push e (v_cmd s)) = cq_breadcrumb (v_cmd s)" by (simp add: cmd_push_def)
  ultimately show ?case using vr_queue.IH by (simp add: vmm_inv_def crumb_def)
qed

section \<open>Properties\<close>

text \<open>
  C5. The VMM as a whole: after its initialisation and any sequence of notifications, queued commands
  and faults of the running vCPU, and with a fault handler of libvmm that leaves the guest control
  alone, the trace of guest events is a well-formed sequence of runs that agrees with the recorded
  state, the command ring is within its capacity, and the breadcrumb says idle.
\<close>

theorem vmm_lifecycle:
  assumes "fault_handler_calm P" and "vmm_reach P C s"
  shows "events_ok (guest_events (v_out s)) \<and> numbered_runs s \<and> state_agrees s
    \<and> length (cmd_live (v_cmd s)) \<le> CMD_RING_CAPACITY \<and> bc_phase (crumb s) = phase_code VMM_PHASE_IDLE"
  using vmm_reach_inv [OF assms] gc_reach_inv [of P C s] by (simp add: vmm_inv_def gc_inv_def cmd_ok_iff)

definition demo_cmd :: cmd_entry where
  "demo_cmd = \<lparr>ce_id = 1, ce_verb = TRACE_CMD_VERB_STATUS, ce_arg = 0\<rparr>"

definition demo_queued :: "u64 vmm" where
  "demo_queued = (let s = vmm_init demo_platform demo_config demo_vmm in s\<lparr>v_cmd := cmd_push demo_cmd (v_cmd s)\<rparr>)"

lemma demo_calm: "fault_handler_calm demo_platform"
  by (simp add: fault_handler_calm_def demo_platform_def calm_refl)

lemma demo_init_cmd: "v_cmd (vmm_init P C s) = v_cmd s"
  by (auto simp: vmm_init_def exynos_uart_emul_init_def mmio_forward_read_only_init_def vmm_simps split: option.split)

lemma demo_queued_reach: "vmm_reach demo_platform demo_config demo_queued"
proof -
  have "vmm_reach demo_platform demo_config (vmm_init demo_platform demo_config demo_vmm)"
    by (rule vr_init [OF demo_fresh]) (simp_all add: demo_vmm_def)
  moreover have "\<not> cmd_full (v_cmd (vmm_init demo_platform demo_config demo_vmm))"
    by (simp add: demo_init_cmd demo_vmm_def empty_cmd_ring_def cmd_full_def)
  ultimately show ?thesis unfolding demo_queued_def Let_def by (rule vr_queue)
qed

theorem vmm_lifecycle_witness:
  "state_agrees (vmm_notified demo_platform demo_config CH_UARTRX demo_queued)
    \<and> bc_phase (crumb (vmm_notified demo_platform demo_config CH_UARTRX demo_queued)) = 0"
  using vmm_lifecycle [OF demo_calm vr_notified [OF demo_queued_reach]] by simp

text \<open>
  C13. Commands run in order, exactly once: from a ring within its capacity (64 entries, which divides
  \<open>2^64\<close>, so the counters may wrap), the loop runs precisely the commands that were queued, first to
  last, marking each complete before it takes the next, and returns with the ring empty and the last
  command's id as \<open>completed_id\<close>.
\<close>

theorem commands_run_in_order:
  assumes "length (cmd_live (v_cmd s)) \<le> CMD_RING_CAPACITY"
  shows "run_commands P C s = fold (complete_command P C) (cmd_live (v_cmd s)) s
    \<and> cmd_live (v_cmd (run_commands P C s)) = []
    \<and> cq_completed_id (v_cmd (run_commands P C s))
      = (if cmd_live (v_cmd s) = [] then cq_completed_id (v_cmd s) else ce_id (last (cmd_live (v_cmd s))))"
  using run_commands_fold [of s P C] assms unfolding cmd_ok_iff by blast

lemma demo_queued_live: "cmd_live (v_cmd demo_queued) = [demo_cmd]"
proof -
  have "cmd_ok (v_cmd demo_vmm)" "0 < cmd_room (v_cmd demo_vmm)" "cmd_live (v_cmd demo_vmm) = []"
    by (simp_all add: cmd_ok_iff cmd_room_eq demo_vmm_def empty_cmd_ring_def cmd_live_def ring_contents_empty)
  then show ?thesis using cmd.push_law by (simp add: demo_queued_def demo_init_cmd Let_def)
qed

theorem commands_run_in_order_witness:
  "cmd_live (v_cmd (run_commands demo_platform demo_config demo_queued)) = []
    \<and> cq_completed_id (v_cmd (run_commands demo_platform demo_config demo_queued)) = 1"
proof -
  have "length (cmd_live (v_cmd demo_queued)) \<le> CMD_RING_CAPACITY" by (simp add: demo_queued_live)
  then have "cmd_live (v_cmd (run_commands demo_platform demo_config demo_queued)) = []
    \<and> cq_completed_id (v_cmd (run_commands demo_platform demo_config demo_queued)) = ce_id (last [demo_cmd])"
    using commands_run_in_order [of demo_queued demo_platform demo_config] unfolding demo_queued_live by auto
  then show ?thesis by (simp add: demo_cmd_def)
qed

text \<open>
  C14. A fault either resumes the guest or stops it: if the handler resumes, the guest's control state is
  unchanged and no guest event is traced; if not, the guest is stopped by fault and exactly one guest
  event is traced, STOPPED_BY_FAULT of the current run.  Either way the breadcrumb is idle again and
  the queued commands are untouched.
\<close>

theorem fault_resumes_or_stops:
  assumes "fault_handler_calm P"
  shows "case vmm_fault P c m s of (resume, s') \<Rightarrow>
    (\<exists>es. v_out s' = v_out s @ es \<and>
       (if resume then same_guest s s' \<and> guest_events es = []
        else v_state s' = GUEST_STOPPED_BY_FAULT \<and> v_run s' = v_run s
          \<and> guest_events es = [event TRACE_GUEST_STOPPED_BY_FAULT (fs_pc (v_last_fault s')) (v_run s) (v_run_vcpu s)]))
    \<and> bc_phase (crumb s') = phase_code VMM_PHASE_IDLE \<and> cmd_live (v_cmd s') = cmd_live (v_cmd s)"
proof -
  let ?s1 = "breadcrumb_enter P VMM_PHASE_FAULT (m_label m) (m_mr m 0) (m_mr m 1) s"
  obtain r s2 where h2: "handle_fault P c m ?s1 = (r, s2)" by fastforce
  from handle_fault_cases [OF assms, of ?s1 c m] obtain s3 f where c: "calm ?s1 s3"
    and h: "(r, s2) = (if r then (True, s3) else (False, guest_control_fault_stopped P c f s3))" unfolding h2 by auto
  have e1: "v_out ?s1 = v_out s" "same_guest s ?s1" "cmd_live (v_cmd ?s1) = cmd_live (v_cmd s)"
    by (simp_all add: breadcrumb_enter_def same_guest_def)
  from c obtain es where es: "v_out s3 = v_out s @ es" "guest_events es = []" using e1(1) by (auto simp: calm_def)
  have g3: "same_guest s s3" using c e1(2) by (simp add: calm_def same_guest_def)
  have l3: "cmd_live (v_cmd s3) = cmd_live (v_cmd s)" using c e1(3) by (simp add: calm_def)
  from fault_stopped_spec [of P c f s3] obtain k pre t where
    fs: "guest_control_fault_stopped P c f s3 = s3\<lparr>v_k := k, v_state := GUEST_STOPPED_BY_FAULT,
      v_last_fault := reported_fault P c f s3, v_out := v_out s3 @ pre @ [VcpuStop c, VcpuSetOn c False,
        Emit (event TRACE_GUEST_STOPPED_BY_FAULT (fs_pc (reported_fault P c f s3)) (v_run s3) (v_run_vcpu s3)), Log t]\<rparr>"
    and pre: "emitted pre = []" by blast
  have eq: "vmm_fault P c m s = (r, breadcrumb_leave P s2)" using h2 by (simp add: vmm_fault_def)
  show ?thesis
  proof (cases r)
    case True
    then show ?thesis using h es g3 l3 leave_idle [of P s3]
      by (simp add: eq) (simp add: breadcrumb_leave_def same_guest_def)
  next
    case False
    then have "s2 = guest_control_fault_stopped P c f s3" using h by simp
    then show ?thesis using False fs pre es g3 l3 leave_idle [of P s2]
      by (simp add: eq) (simp add: breadcrumb_leave_def same_guest_def guest_events_def)
  qed
qed

definition demo_smc_fault :: msg where
  "demo_smc_fault = \<lparr>m_label = 8, m_mr = (\<lambda>_. 0x5e000000)\<rparr>"

theorem fault_resumes_or_stops_witness:
  "case vmm_fault demo_platform 0 demo_smc_fault demo_started of (resume, s') \<Rightarrow>
     bc_phase (crumb s') = 0 \<and> (resume \<or> v_state s' = GUEST_STOPPED_BY_FAULT)"
  using fault_resumes_or_stops [OF demo_calm, where c = 0 and m = demo_smc_fault and s = demo_started] by (auto split: prod.splits if_splits)

end
