(* ===== verification/Uartrx_Parse.thy ===== *)
theory Uartrx_Parse
  imports Cmd_Ring Text_Render Trace_Format
begin

text \<open>
  The command-line parser of \<^verbatim>\<open>uartrx/uartrx.c\<close>.  A pair \<open>(const char *s, size_t len)\<close> is the list of the \<open>len\<close> characters at \<open>s\<close>, so
  \<open>(s + n, len - n)\<close> is \<open>drop n s\<close>; the code never reads past \<open>len\<close>.  A parser's success and output parameter are
  an option; where the C code leaves a partial result behind on failure, the result is a pair.
  The grammar is given separately, on lists of words, and the parser is shown to implement it.
\<close>

section \<open>The code\<close>

fun word_is :: "string \<Rightarrow> string \<Rightarrow> bool" where
  "word_is (c # s) (w # ws) \<longleftrightarrow> (if c \<noteq> w then False else word_is s ws)"
| "word_is s ws \<longleftrightarrow> s = [] \<and> ws = []"

fun token_len :: "string \<Rightarrow> nat" where
  "token_len [] = 0"
| "token_len (c # s) = (if c \<noteq> CHR '' '' then Suc (token_len s) else 0)"

fun skip_spaces :: "string \<Rightarrow> nat" where
  "skip_spaces [] = 0"
| "skip_spaces (c # s) = (if c = CHR '' '' then Suc (skip_spaces s) else 0)"

fun parse_digits :: "u64 \<Rightarrow> string \<Rightarrow> u64 option" where
  "parse_digits val [] = Some val"
| "parse_digits val (c # s) =
     (if (of_char c :: nat) < 48 \<or> 57 < (of_char c :: nat) then None
      else parse_digits (val * 10 + of_nat (of_char c - 48)) s)"

definition parse_decimal :: "string \<Rightarrow> u64 option" where
  "parse_decimal s = (if s = [] then None else parse_digits 0 s)"

definition parse_harness_mode :: "string \<Rightarrow> u64 option" where
  "parse_harness_mode s =
     (if s = [] then Some (GUEST_SELECT_HARNESS OR 0)
      else case parse_decimal s of
             None \<Rightarrow> None
           | Some mode \<Rightarrow> if GUEST_SELECT_HARNESS_MODE (NOT 0) < mode then None else Some (GUEST_SELECT_HARNESS OR mode))"

definition parse_guest_kind :: "string \<Rightarrow> u64 option" where
  "parse_guest_kind s =
     (let word = token_len s; rest = word + skip_spaces (drop word s)
      in if s = [] then Some GUEST_SELECT_DEFAULT
         else if word_is (take word s) ''linux'' \<and> rest = length s then Some GUEST_SELECT_LINUX
         else if word_is (take word s) ''harness'' then parse_harness_mode (drop rest s)
         else None)"

lemma token_or_space: "s \<noteq> [] \<Longrightarrow> 0 < token_len s + skip_spaces (drop (token_len s) s)"
  by (cases s) auto

function find_word_from :: "string \<Rightarrow> string \<Rightarrow> nat \<Rightarrow> nat" where
  "find_word_from s word at =
     (if at < length s
      then let n = token_len (drop at s)
           in if word_is (take n (drop at s)) word then at
              else find_word_from s word (at + (n + skip_spaces (drop (at + n) s)))
      else length s)"
  by pat_completeness auto
termination
proof (relation "measure (\<lambda>(s, word, at). length s - at)", goal_cases)
  case 1
  show ?case by simp
next
  case (2 s word at n)
  then have "0 < n + skip_spaces (drop n (drop at s))" using token_or_space [of "drop at s"] by simp
  then show ?case using 2(1) by (simp add: add.commute) arith
qed

declare find_word_from.simps [simp del]

definition find_word :: "string \<Rightarrow> string \<Rightarrow> nat" where
  "find_word s word = find_word_from s word 0"

fun trim_spaces :: "string \<Rightarrow> nat \<Rightarrow> nat" where
  "trim_spaces s 0 = 0"
| "trim_spaces s (Suc len) = (if s ! len = CHR '' '' then trim_spaces s len else Suc len)"

definition parse_vcpu :: "string \<Rightarrow> u64 option" where
  "parse_vcpu s =
     (let word = token_len s; rest = word + skip_spaces (drop word s)
      in if s = [] then Some 0
         else case parse_decimal (drop rest s) of
                None \<Rightarrow> None
              | Some vcpu \<Rightarrow> if vcpu \<le> GUEST_SELECT_VCPU (NOT 0) then Some vcpu else None)"

text \<open>The result and the value left in \<open>*select\<close>, which a bad vCPU number leaves without its vCPU bits.\<close>

definition parse_guest_select :: "string \<Rightarrow> u64 \<Rightarrow> bool \<times> u64" where
  "parse_guest_select s old =
     (let vcpu_at = find_word s ''vcpu''
      in case parse_guest_kind (take (trim_spaces s vcpu_at) s) of
           None \<Rightarrow> (False, old)
         | Some select \<Rightarrow>
             (case parse_vcpu (drop vcpu_at s) of
                None \<Rightarrow> (False, select)
              | Some vcpu \<Rightarrow> (True, select OR push_bit GUEST_SELECT_VCPU_SHIFT vcpu)))"

definition parse_args :: "u64 \<Rightarrow> string \<Rightarrow> bool \<times> u64" where
  "parse_args verb args =
     (if verb = TRACE_CMD_VERB_GUEST_START then parse_guest_select args 0 else (args = [], 0))"

section \<open>Words\<close>

text \<open>The words of a line and their spacing: the specification's view of a line.\<close>

fun words_from :: "string \<Rightarrow> string \<Rightarrow> string list" where
  "words_from w [] = (if w = [] then [] else [w])"
| "words_from w (c # s) =
     (if c = CHR '' '' then (if w = [] then words_from [] s else w # words_from [] s) else words_from (w @ [c]) s)"

definition words :: "string \<Rightarrow> string list" where
  "words s = words_from [] s"

lemma word_is_eq [simp]: "word_is s w \<longleftrightarrow> s = w"
  by (induction s w rule: word_is.induct) auto

lemma token_len_le: "token_len s \<le> length s"
  by (induction s) auto

lemma take_token: "take (token_len s) s = takeWhile (\<lambda>c. c \<noteq> CHR '' '') s"
  by (induction s) auto

lemma drop_token: "drop (token_len s) s = dropWhile (\<lambda>c. c \<noteq> CHR '' '') s"
  by (induction s) auto

lemma drop_spaces: "drop (skip_spaces s) s = dropWhile (\<lambda>c. c = CHR '' '') s"
  by (induction s) auto

lemma skip_spaces_le: "skip_spaces s \<le> length s"
  by (induction s) auto

text \<open>The word a line starts with, and the rest after its spaces.\<close>

definition first_word :: "string \<Rightarrow> string" where
  "first_word s = takeWhile (\<lambda>c. c \<noteq> CHR '' '') s"

definition after_word :: "string \<Rightarrow> string" where
  "after_word s = dropWhile (\<lambda>c. c = CHR '' '') (dropWhile (\<lambda>c. c \<noteq> CHR '' '') s)"

lemma drop_rest: "drop (token_len s + skip_spaces (drop (token_len s) s)) s = after_word s"
  by (metis add.commute after_word_def drop_drop drop_spaces drop_token)

lemma words_from_Cons:
  "w \<noteq> [] \<or> (s \<noteq> [] \<and> hd s \<noteq> CHR '' '') \<Longrightarrow> words_from w s = (w @ first_word s) # words (after_word s)"
proof (induction s arbitrary: w)
  case Nil
  then show ?case by (simp add: first_word_def after_word_def words_def)
next
  case (Cons c s)
  have spaces: "words_from [] (dropWhile (\<lambda>c. c = CHR '' '') t) = words_from [] t" for t
    by (induction t) auto
  show ?case
    using Cons spaces by (auto simp: first_word_def after_word_def words_def)
qed

lemma words_Nil [simp]: "words [] = []"
  by (simp add: words_def)

lemma words_unfold: "s \<noteq> [] \<Longrightarrow> hd s \<noteq> CHR '' '' \<Longrightarrow> words s = first_word s # words (after_word s)"
  unfolding words_def by (subst words_from_Cons) (auto simp: words_def)

lemma after_word_hd: "after_word s \<noteq> [] \<Longrightarrow> hd (after_word s) \<noteq> CHR '' ''"
  using hd_dropWhile [of "\<lambda>c. c = CHR '' ''"] unfolding after_word_def by blast

lemma words_append: "a = [] \<or> last a = CHR '' '' \<Longrightarrow> words (a @ b) = words a @ words b"
proof -
  have *: "words_from w (a @ CHR '' '' # b) = words_from w (a @ '' '') @ words b" for w and a b :: string
    by (induction a arbitrary: w) (auto simp: words_def)
  assume "a = [] \<or> last a = CHR '' ''"
  then show ?thesis
    using * [of "[]" _ b] by (cases a rule: rev_cases) (auto simp: words_def)
qed

lemma words_from_spaces: "\<forall>c \<in> set s. c = CHR '' '' \<Longrightarrow> words_from w s = (if w = [] then [] else [w])"
  by (induction s arbitrary: w) auto

lemma words_rtrim: "\<forall>c \<in> set b. c = CHR '' '' \<Longrightarrow> words (a @ b) = words a"
proof -
  assume b: "\<forall>c \<in> set b. c = CHR '' ''"
  have "words_from w (a @ b) = words_from w a" for w
    using b by (induction a arbitrary: w) (auto simp: words_from_spaces)
  then show ?thesis by (simp add: words_def)
qed

text \<open>A line without spaces at either end, which is what the parser is given.\<close>

definition trimmed :: "string \<Rightarrow> bool" where
  "trimmed s \<longleftrightarrow> s = [] \<or> (hd s \<noteq> CHR '' '' \<and> last s \<noteq> CHR '' '')"

lemma word_split: "s = first_word s @ takeWhile (\<lambda>c. c = CHR '' '') (dropWhile (\<lambda>c. c \<noteq> CHR '' '') s) @ after_word s"
  by (simp add: first_word_def after_word_def)

lemma last_after_word: "after_word s \<noteq> [] \<Longrightarrow> last (after_word s) = last s"
  by (subst (2) word_split) simp

lemma after_word_NilI [simp]: "after_word [] = []"
  by (simp add: after_word_def)

lemma after_word_trimmed: "trimmed s \<Longrightarrow> trimmed (after_word s)"
  using last_after_word [of s] after_word_hd [of s] by (cases "s = []") (auto simp: trimmed_def)

lemma after_word_Nil: "trimmed s \<Longrightarrow> after_word s = [] \<Longrightarrow> first_word s = s"
proof -
  assume s: "trimmed s" and n: "after_word s = []"
  let ?d = "takeWhile (\<lambda>c. c = CHR '' '') (dropWhile (\<lambda>c. c \<noteq> CHR '' '') s)"
  have eq: "s = first_word s @ ?d" using word_split [of s] n by simp
  have "?d = []"
  proof (rule ccontr)
    assume d: "?d \<noteq> []"
    then have "last s = last ?d" using eq last_appendR by metis
    moreover have "last ?d = CHR '' ''" using last_in_set [OF d] set_takeWhileD by fast
    moreover have "s \<noteq> []" using d by auto
    ultimately show False using s by (simp add: trimmed_def)
  qed
  then show "first_word s = s" using eq by simp
qed

lemma words_eq_Nil: "trimmed s \<Longrightarrow> words s = [] \<longleftrightarrow> s = []"
  by (cases "s = []") (simp_all add: words_unfold trimmed_def)

section \<open>The grammar\<close>

text \<open>
  A number is a non-empty word of digits; its value is taken modulo \<open>2^64\<close>, as the loop computes it.  A guest selection is
  nothing, \<open>linux\<close>, \<open>harness\<close> or \<open>harness N\<close>, followed by nothing or \<open>vcpu K\<close>.
\<close>

definition dec_spec :: "string \<Rightarrow> u64 option" where
  "dec_spec w = (if w \<noteq> [] \<and> list_all is_digit w then Some (of_nat (dec_value w)) else None)"

fun kind_spec :: "string list \<Rightarrow> u64 option" where
  "kind_spec [] = Some GUEST_SELECT_DEFAULT"
| "kind_spec [w] = (if w = ''linux'' then Some GUEST_SELECT_LINUX else if w = ''harness'' then Some GUEST_SELECT_HARNESS else None)"
| "kind_spec [w, n] = (if w = ''harness'' then dec_spec n \<bind> (\<lambda>m. if m \<le> 0xff then Some (GUEST_SELECT_HARNESS OR m) else None) else None)"
| "kind_spec ws = None"

fun vcpu_spec :: "string list \<Rightarrow> u64 option" where
  "vcpu_spec [] = Some 0"
| "vcpu_spec [w, n] = dec_spec n \<bind> (\<lambda>v. if v \<le> 0xff then Some v else None)"
| "vcpu_spec ws = None"

definition select_spec :: "string list \<Rightarrow> u64 option" where
  "select_spec ws = do {
     k \<leftarrow> kind_spec (takeWhile (\<lambda>w. w \<noteq> ''vcpu'') ws);
     v \<leftarrow> vcpu_spec (dropWhile (\<lambda>w. w \<noteq> ''vcpu'') ws);
     Some (k OR push_bit GUEST_SELECT_VCPU_SHIFT v)
   }"

lemma parse_digits_eq:
  "parse_digits (of_nat n) s
     = (if list_all is_digit s then Some (of_nat (foldl (\<lambda>v c. v * 10 + (of_char c - 48)) n s)) else None)"
proof (induction s arbitrary: n)
  case (Cons c s)
  have "of_nat n * 10 + of_nat (of_char c - 48) = (of_nat (n * 10 + (of_char c - 48)) :: u64)" by simp
  then show ?case using Cons.IH [of "n * 10 + (of_char c - 48)"] by (auto simp: is_digit_def)
qed simp

lemma parse_decimal_eq: "parse_decimal s = dec_spec s"
  using parse_digits_eq [of 0 s] by (simp add: parse_decimal_def dec_spec_def dec_value_def)

lemma space_not_digit: "\<not> is_digit (CHR '' '')"
  by (simp add: is_digit_def)

lemma dec_spec_words: "trimmed s \<Longrightarrow> dec_spec s = (case words s of [w] \<Rightarrow> dec_spec w | _ \<Rightarrow> None)"
proof (cases "s = []")
  case False
  assume s: "trimmed s"
  then have w: "words s = first_word s # words (after_word s)" using False words_unfold by (simp add: trimmed_def)
  show ?thesis
  proof (cases "after_word s = []")
    case True
    then show ?thesis using w after_word_Nil [OF s] by simp
  next
    case more: False
    then have "words (after_word s) \<noteq> []" using words_eq_Nil after_word_trimmed s by blast
    moreover have d: "dropWhile (\<lambda>c. c \<noteq> CHR '' '') s \<noteq> []"
    proof
      assume "dropWhile (\<lambda>c. c \<noteq> CHR '' '') s = []"
      then have "after_word s = []" by (simp only: after_word_def dropWhile.simps)
      with more show False by blast
    qed
    have "hd (dropWhile (\<lambda>c. c \<noteq> CHR '' '') s) = CHR '' ''" using hd_dropWhile [OF d] by blast
    then have "CHR '' '' \<in> set (dropWhile (\<lambda>c. c \<noteq> CHR '' '') s)" using hd_in_set [OF d] by simp
    then have "CHR '' '' \<in> set s" by (rule set_dropWhileD)
    then have "dec_spec s = None" using space_not_digit by (auto simp: dec_spec_def list_all_iff)
    ultimately show ?thesis using w by (simp split: list.splits)
  qed
qed (simp add: dec_spec_def)

section \<open>The parser implements the grammar\<close>

lemma kind_limits: "GUEST_SELECT_HARNESS_MODE (- 1) = 0xff" "GUEST_SELECT_VCPU (- 1) = 0xff"
  by (simp_all add: GUEST_SELECT_HARNESS_MODE_def GUEST_SELECT_VCPU_def mask_eq_exp_minus_1)

lemma parse_guest_kind_eq: "trimmed s \<Longrightarrow> parse_guest_kind s = kind_spec (words s)"
proof (cases "s = []")
  case False
  assume s: "trimmed s"
  let ?r = "after_word s"
  let ?rest = "token_len s + skip_spaces (drop (token_len s) s)"
  have w: "words s = first_word s # words ?r" using False s words_unfold by (simp add: trimmed_def)
  have rest: "?rest = length s \<longleftrightarrow> ?r = []"
    using drop_rest [of s] token_len_le [of s] skip_spaces_le [of "drop (token_len s) s"]
    by (metis add_diff_inverse_nat diff_is_0_eq drop_all drop_eq_Nil le_antisym length_drop linorder_not_le nat_add_left_cancel_le)
  have p: "parse_guest_kind s = (if first_word s = ''linux'' \<and> ?r = [] then Some GUEST_SELECT_LINUX
      else if first_word s = ''harness'' then parse_harness_mode ?r else None)"
    using False rest by (simp add: parse_guest_kind_def take_token first_word_def drop_rest Let_def)
  have r: "trimmed ?r" using s by (rule after_word_trimmed)
  have h: "parse_harness_mode ?r = kind_spec (''harness'' # words ?r)"
  proof (cases "words ?r")
    case Nil
    then show ?thesis using words_eq_Nil [OF r] by (simp add: parse_harness_mode_def)
  next
    case (Cons v vs)
    then have ne: "?r \<noteq> []" by auto
    show ?thesis
      using ne Cons dec_spec_words [OF r]
      by (cases vs) (auto simp: parse_harness_mode_def parse_decimal_eq kind_limits split: option.splits)
  qed
  have "kind_spec (first_word s # words ?r) = (if first_word s = ''linux'' \<and> ?r = [] then Some GUEST_SELECT_LINUX
      else if first_word s = ''harness'' then kind_spec (''harness'' # words ?r) else None)"
    using words_eq_Nil [OF r] by (cases "first_word s # words ?r" rule: kind_spec.cases) auto
  then show ?thesis using p h w by simp
qed (simp add: parse_guest_kind_def)

lemma parse_vcpu_eq: "trimmed s \<Longrightarrow> parse_vcpu s = vcpu_spec (words s)"
proof (cases "s = []")
  case False
  assume s: "trimmed s"
  let ?r = "after_word s"
  have w: "words s = first_word s # words ?r" using False s words_unfold by (simp add: trimmed_def)
  have p: "parse_vcpu s = parse_decimal ?r \<bind> (\<lambda>v. if v \<le> 0xff then Some v else None)"
    using False by (simp add: parse_vcpu_def drop_rest kind_limits Let_def split: option.splits)
  show ?thesis
    using dec_spec_words [OF after_word_trimmed [OF s]]
    by (cases "first_word s # words ?r" rule: vcpu_spec.cases) (auto simp: p w parse_decimal_eq)
qed (simp add: parse_vcpu_def)

text \<open>One word and the spaces after it, followed by part of the rest.\<close>

lemma words_first_word: "s \<noteq> [] \<Longrightarrow> hd s \<noteq> CHR '' '' \<Longrightarrow> words (first_word s) = [first_word s]"
proof -
  assume "s \<noteq> []" "hd s \<noteq> CHR '' ''"
  then have "first_word s \<noteq> []" by (cases s) (auto simp: first_word_def)
  moreover have "CHR '' '' \<notin> set (first_word s)" by (auto simp: first_word_def dest: set_takeWhileD)
  moreover have "words_from w t = [w @ t]" if "CHR '' '' \<notin> set t" "w @ t \<noteq> []" for w t
    using that by (induction t arbitrary: w) auto
  ultimately show ?thesis by (simp add: words_def)
qed

lemma words_step:
  assumes "t \<noteq> []" "hd t \<noteq> CHR '' ''" and "after_word t = [] \<longrightarrow> u = []"
  shows "words (take (token_len t + skip_spaces (drop (token_len t) t)) t @ u) = first_word t # words u"
proof -
  let ?k = "token_len t + skip_spaces (drop (token_len t) t)"
  let ?gap = "takeWhile (\<lambda>c. c = CHR '' '') (dropWhile (\<lambda>c. c \<noteq> CHR '' '') t)"
  have "take ?k t @ after_word t = t" using append_take_drop_id [of ?k t] by (simp only: drop_rest)
  moreover have "(first_word t @ ?gap) @ after_word t = t" using word_split [of t] by simp
  ultimately have k: "take ?k t = first_word t @ ?gap" by (metis append_same_eq)
  have sp: "\<forall>c \<in> set ?gap. c = CHR '' ''" using set_takeWhileD by fast
  have w: "words (first_word t @ ?gap) = [first_word t]"
    using words_rtrim [OF sp] words_first_word [OF assms(1,2)] by simp
  show ?thesis
  proof (cases "?gap = []")
    case True
    moreover have "?gap \<noteq> []" if "dropWhile (\<lambda>c. c \<noteq> CHR '' '') t \<noteq> []"
      using that hd_dropWhile [OF that] by (cases "dropWhile (\<lambda>c. c \<noteq> CHR '' '') t") simp_all
    ultimately have "after_word t = []" unfolding after_word_def by (metis dropWhile.simps(1))
    then show ?thesis using assms(3) w k by simp
  next
    case False
    have "last ?gap = CHR '' ''" using sp last_in_set [OF False] by blast
    then have "last (first_word t @ ?gap) = CHR '' ''" using False by (simp only: last_append if_False)
    then show ?thesis unfolding k using words_append [of "first_word t @ ?gap" u] w by simp
  qed
qed

lemma find_word_from_spec:
  "trimmed (drop at s) \<Longrightarrow> \<exists>n. find_word_from s word at = at + n \<and> n \<le> length (drop at s) \<and> trimmed (drop n (drop at s))
     \<and> words (take n (drop at s)) = takeWhile (\<lambda>w. w \<noteq> word) (words (drop at s))
     \<and> words (drop n (drop at s)) = dropWhile (\<lambda>w. w \<noteq> word) (words (drop at s))"
  if "at \<le> length s"
  using that
proof (induction s word at rule: find_word_from.induct)
  case (1 s word at)
  let ?t = "drop at s"
  show ?case
  proof (cases "at < length s")
    case False
    then show ?thesis using 1(3) by (subst find_word_from.simps) (simp add: trimmed_def)
  next
    case True
    then have t: "?t \<noteq> []" "hd ?t \<noteq> CHR '' ''" using 1(2) by (auto simp: trimmed_def)
    have w: "words ?t = first_word ?t # words (after_word ?t)" using t by (rule words_unfold)
    show ?thesis
    proof (cases "first_word ?t = word")
      case found: True
      then have "find_word_from s word at = at"
        using True by (subst find_word_from.simps) (simp add: take_token first_word_def)
      then show ?thesis using found w 1(2) by (intro exI [of _ 0]) simp
    next
      case other: False
      define k where "k = token_len ?t + skip_spaces (drop (at + token_len ?t) s)"
      have k: "k = token_len ?t + skip_spaces (drop (token_len ?t) ?t)" by (simp add: k_def add.commute)
      have dk: "drop k ?t = after_word ?t" unfolding k by (rule drop_rest)
      then have d: "drop (at + k) s = after_word ?t" by (simp add: add.commute)
      have le: "k \<le> length ?t"
        using token_len_le [of ?t] skip_spaces_le [of "drop (token_len ?t) ?t"] unfolding k by simp
      have step: "find_word_from s word at = find_word_from s word (at + k)"
        using True other by (subst find_word_from.simps) (simp add: take_token first_word_def Let_def k_def)
      have "\<exists>n. find_word_from s word (at + k) = at + k + n \<and> n \<le> length (after_word ?t) \<and> trimmed (drop n (after_word ?t))
          \<and> words (take n (after_word ?t)) = takeWhile (\<lambda>w. w \<noteq> word) (words (after_word ?t))
          \<and> words (drop n (after_word ?t)) = dropWhile (\<lambda>w. w \<noteq> word) (words (after_word ?t))"
        using 1(1) [OF True refl, unfolded word_is_eq take_token, folded first_word_def, OF other, folded k_def, unfolded d]
          after_word_trimmed [OF 1(2)] le True by simp
      then obtain n where n: "find_word_from s word (at + k) = at + k + n" "n \<le> length (after_word ?t)" "trimmed (drop n (after_word ?t))"
          "words (take n (after_word ?t)) = takeWhile (\<lambda>w. w \<noteq> word) (words (after_word ?t))"
          "words (drop n (after_word ?t)) = dropWhile (\<lambda>w. w \<noteq> word) (words (after_word ?t))" by blast
      have "take (k + n) ?t = take k ?t @ take n (after_word ?t)" by (simp only: take_add dk)
      then have "words (take (k + n) ?t) = first_word ?t # words (take n (after_word ?t))"
        using words_step [OF t, of "take n (after_word ?t)", folded k] by simp
      moreover have "drop (k + n) ?t = drop n (after_word ?t)" unfolding dk [symmetric] by (simp add: ac_simps)
      moreover have "k + n \<le> length ?t" using n(2) le unfolding dk [symmetric] by simp
      ultimately have "find_word_from s word at = at + (k + n) \<and> k + n \<le> length ?t \<and> trimmed (drop (k + n) ?t)
          \<and> words (take (k + n) ?t) = takeWhile (\<lambda>w. w \<noteq> word) (words ?t)
          \<and> words (drop (k + n) ?t) = dropWhile (\<lambda>w. w \<noteq> word) (words ?t)"
        using n step w other by (simp del: drop_drop)
      then show ?thesis by blast
    qed
  qed
qed

lemma trim_spaces_spec:
  "len \<le> length s \<Longrightarrow> \<exists>sp. take len s = take (trim_spaces s len) s @ sp \<and> (\<forall>c \<in> set sp. c = CHR '' '')
     \<and> trim_spaces s len \<le> len \<and> (trim_spaces s len \<noteq> 0 \<longrightarrow> s ! (trim_spaces s len - 1) \<noteq> CHR '' '')"
proof (induction len)
  case (Suc len)
  have snoc: "take (Suc len) s = take len s @ [s ! len]" using Suc.prems by (simp add: take_Suc_conv_app_nth)
  show ?case
  proof (cases "s ! len = CHR '' ''")
    case True
    then obtain sp where "take len s = take (trim_spaces s len) s @ sp" "\<forall>c \<in> set sp. c = CHR '' ''"
      "trim_spaces s len \<le> len" "trim_spaces s len \<noteq> 0 \<longrightarrow> s ! (trim_spaces s len - 1) \<noteq> CHR '' ''"
      using Suc.IH [OF Suc_leD [OF Suc.prems]] by blast
    then show ?thesis using snoc True by (intro exI [of _ "sp @ '' ''"]) simp
  next
    case False
    then show ?thesis by (intro exI [of _ "[]"]) simp
  qed
qed simp

lemma trimmed_take:
  assumes "trimmed s" and "n \<le> length s" and "n \<noteq> 0 \<longrightarrow> s ! (n - 1) \<noteq> CHR '' ''"
  shows "trimmed (take n s)"
proof (cases "n = 0")
  case False
  then have "s \<noteq> []" using assms(2) by auto
  then have "hd s \<noteq> CHR '' ''" using assms(1) by (simp add: trimmed_def)
  moreover have "hd (take n s) = hd s" using False by simp
  moreover have "last (take n s) = s ! (n - 1)"
    using False assms(2) by (subst last_conv_nth) auto
  ultimately show ?thesis using assms(3) False by (simp add: trimmed_def)
qed (simp add: trimmed_def)

lemma parse_guest_select_words:
  assumes "trimmed s"
  shows "fst (parse_guest_select s old) \<longleftrightarrow> select_spec (words s) \<noteq> None"
    and "fst (parse_guest_select s old) \<Longrightarrow> select_spec (words s) = Some (snd (parse_guest_select s old))"
proof -
  let ?at = "find_word s ''vcpu''"
  let ?k = "take (trim_spaces s ?at) s"
  have at: "?at \<le> length s" "trimmed (drop ?at s)" "words (take ?at s) = takeWhile (\<lambda>w. w \<noteq> ''vcpu'') (words s)"
    "words (drop ?at s) = dropWhile (\<lambda>w. w \<noteq> ''vcpu'') (words s)"
    using find_word_from_spec [of 0 s "''vcpu''"] assms by (auto simp: find_word_def)
  obtain sp where sp: "take ?at s = ?k @ sp" "\<forall>c \<in> set sp. c = CHR '' ''" "trim_spaces s ?at \<le> ?at"
    "trim_spaces s ?at \<noteq> 0 \<longrightarrow> s ! (trim_spaces s ?at - 1) \<noteq> CHR '' ''" using trim_spaces_spec [OF at(1)] by blast
  have "words ?k = takeWhile (\<lambda>w. w \<noteq> ''vcpu'') (words s)" using at(3) sp(1) words_rtrim [OF sp(2)] by simp
  moreover have "trimmed ?k" using assms at(1) sp(3,4) by (intro trimmed_take) auto
  ultimately have k: "parse_guest_kind ?k = kind_spec (takeWhile (\<lambda>w. w \<noteq> ''vcpu'') (words s))"
    using parse_guest_kind_eq by metis
  have v: "parse_vcpu (drop ?at s) = vcpu_spec (dropWhile (\<lambda>w. w \<noteq> ''vcpu'') (words s))"
    using parse_vcpu_eq [OF at(2)] at(4) by simp
  show "fst (parse_guest_select s old) \<longleftrightarrow> select_spec (words s) \<noteq> None"
    unfolding parse_guest_select_def select_spec_def Let_def k v by (auto split: option.splits bind_splits)
  show "fst (parse_guest_select s old) \<Longrightarrow> select_spec (words s) = Some (snd (parse_guest_select s old))"
    unfolding parse_guest_select_def select_spec_def Let_def k v by (auto split: option.splits bind_splits)
qed

text \<open>
  C29. On arguments without spaces at either end, which is all it is given, the guest selection parser implements the grammar
  of words: it accepts exactly the sentences of the grammar, however they are spaced, and computes their selection.
\<close>

theorem guest_select_implements_grammar:
  assumes "trimmed s"
  shows "(if fst (parse_guest_select s old) then Some (snd (parse_guest_select s old)) else None) = select_spec (words s)"
  using parse_guest_select_words [OF assms, of old] by auto

theorem guest_select_implements_grammar_witness:
  "(if fst (parse_guest_select ''harness  7 vcpu   2'' 0) then Some (snd (parse_guest_select ''harness  7 vcpu   2'' 0)) else None)
     = Some 0x20107"
proof -
  have "trimmed ''harness  7 vcpu   2''" by (simp add: trimmed_def)
  moreover have "words ''harness  7 vcpu   2'' = [''harness'', ''7'', ''vcpu'', ''2'']" by (simp add: words_def)
  ultimately show ?thesis
    using guest_select_implements_grammar [of "''harness  7 vcpu   2''" 0]
    by (simp add: select_spec_def dec_spec_def is_digit_def dec_value_def)
qed

section \<open>Printing a selection and reading it back\<close>

datatype guest_choice = AnyGuest | LinuxGuest | HarnessGuest u64

fun choice_text :: "guest_choice \<Rightarrow> string" where
  "choice_text AnyGuest = []"
| "choice_text LinuxGuest = ''linux ''"
| "choice_text (HarnessGuest mode) = ''harness '' @ put_dec mode @ '' ''"

definition select_text :: "guest_choice \<Rightarrow> u64 \<Rightarrow> string" where
  "select_text g vcpu = choice_text g @ ''vcpu '' @ put_dec vcpu"

fun choice_code :: "guest_choice \<Rightarrow> u64" where
  "choice_code AnyGuest = GUEST_SELECT_DEFAULT"
| "choice_code LinuxGuest = GUEST_SELECT_LINUX"
| "choice_code (HarnessGuest mode) = GUEST_SELECT_HARNESS OR mode"

definition choice_ok :: "guest_choice \<Rightarrow> bool" where
  "choice_ok g \<longleftrightarrow> (case g of HarnessGuest mode \<Rightarrow> mode \<le> 0xff | _ \<Rightarrow> True)"

lemma put_dec_digits: "list_all is_digit (put_dec v)" "put_dec v \<noteq> []" "CHR '' '' \<notin> set (put_dec v)"
  using space_not_digit dec_digits_digits by (auto simp: put_dec_eq dec_digits_not_Nil list_all_iff)

lemma dec_spec_put_dec: "dec_spec (put_dec v) = Some v"
  using put_dec_digits [of v] by (simp add: dec_spec_def put_dec_eq dec_value_digits)

lemma words_put_dec: "words (put_dec v) = [put_dec v]"
proof -
  have h: "hd (put_dec v) \<noteq> CHR '' ''" using put_dec_digits(2,3) [of v] hd_in_set by fastforce
  have "first_word (put_dec v) = put_dec v"
    using put_dec_digits(3) [of v] by (auto simp: first_word_def takeWhile_eq_all_conv)
  then show ?thesis using words_first_word [OF put_dec_digits(2) h] by simp
qed

lemma words_select_text:
  "words (select_text g v) = (case g of AnyGuest \<Rightarrow> [] | LinuxGuest \<Rightarrow> [''linux''] | HarnessGuest m \<Rightarrow> [''harness'', put_dec m])
     @ [''vcpu'', put_dec v]"
proof -
  have c: "words (choice_text g) = (case g of AnyGuest \<Rightarrow> [] | LinuxGuest \<Rightarrow> [''linux''] | HarnessGuest m \<Rightarrow> [''harness'', put_dec m])"
  proof (cases g)
    case (HarnessGuest m)
    have "words (''harness '' @ put_dec m @ '' '') = words ''harness '' @ words (put_dec m @ '' '')"
      by (rule words_append) simp
    also have "\<dots> = [''harness'', put_dec m]" using words_rtrim [of "'' ''" "put_dec m"] words_put_dec by (simp add: words_def)
    finally show ?thesis using HarnessGuest by simp
  qed (simp_all add: words_def)
  have "words (select_text g v) = words (choice_text g) @ words (''vcpu '' @ put_dec v)"
    unfolding select_text_def by (rule words_append) (cases g; simp)
  also have "words (''vcpu '' @ put_dec v) = words ''vcpu '' @ words (put_dec v)" by (rule words_append) simp
  finally show ?thesis using c words_put_dec by (simp add: words_def)
qed

lemma trimmed_select_text: "trimmed (select_text g v)"
proof -
  have "last (put_dec v) \<noteq> CHR '' ''" using put_dec_digits(2,3) [of v] last_in_set by fastforce
  then show ?thesis using put_dec_digits(2) [of v] by (cases g) (simp_all add: select_text_def trimmed_def)
qed

lemma put_dec_not_vcpu: "put_dec m \<noteq> ''vcpu''"
  using put_dec_digits(1) [of m] by (auto simp: is_digit_def)

lemma harness_code:
  assumes "m \<le> 0xff"
  shows "unat (GUEST_SELECT_HARNESS OR m) = 0x100 + unat m"
proof -
  have m: "unat m < 256" using assms by (simp add: word_le_nat_alt)
  have "GUEST_SELECT_HARNESS AND m = 0"
  proof (rule bit_word_eqI)
    fix n
    assume "n < LENGTH(64)"
    have "take_bit 8 m = m" using m by (simp add: take_bit_eq_mod word_arith_nat_mod)
    then have "\<not> bit m 8" by (metis bit_take_bit_iff less_irrefl)
    moreover have "GUEST_SELECT_HARNESS = 2 ^ 8" by simp
    then have "bit GUEST_SELECT_HARNESS n \<Longrightarrow> n = 8" by (simp only: bit_exp_iff)
    ultimately show "bit (GUEST_SELECT_HARNESS AND m) n = bit (0 :: u64) n" by (auto simp: bit_and_iff)
  qed
  then have "GUEST_SELECT_HARNESS OR m = GUEST_SELECT_HARNESS + m" by (rule disjunctive_add_eq_or [symmetric])
  then show ?thesis using m by (simp add: unat_word_ariths)
qed

lemma harness_fields:
  assumes "m \<le> 0xff"
  shows "(GUEST_SELECT_HARNESS OR m) AND NOT 0xff = GUEST_SELECT_HARNESS" "(GUEST_SELECT_HARNESS OR m) AND 0xff = m"
proof -
  have "unat m < 256" using assms by (simp add: word_le_nat_alt)
  then have "unat (m AND 0xff) = unat m" by (simp add: unat_and_ff)
  then have m: "m AND 0xff = m" by (rule unsigned_word_eqI)
  then have "m AND NOT 0xff = 0" by (metis and.assoc bit.conj_cancel_right bit.conj_zero_right)
  then show "(GUEST_SELECT_HARNESS OR m) AND NOT 0xff = GUEST_SELECT_HARNESS"
    unfolding bit.conj_disj_distrib2 by simp
  show "(GUEST_SELECT_HARNESS OR m) AND 0xff = m"
    unfolding bit.conj_disj_distrib2 m by simp
qed

lemma parse_select_text:
  assumes "choice_ok g" and "v \<le> 0xff"
  shows "parse_guest_select (select_text g v) old = (True, choice_code g OR push_bit 16 v)"
proof -
  have "select_spec (words (select_text g v)) = Some (choice_code g OR push_bit 16 v)"
    using assms put_dec_not_vcpu
    by (cases g) (auto simp: select_spec_def words_select_text dec_spec_put_dec choice_ok_def)
  then show ?thesis
    using parse_guest_select_words [OF trimmed_select_text, of g v old] by (cases "parse_guest_select (select_text g v) old") auto
qed

lemma choice_fields:
  assumes "choice_ok g" and "v \<le> 0xff"
  shows "GUEST_SELECT_GUEST (choice_code g OR push_bit 16 v) = choice_code g"
    and "GUEST_SELECT_VCPU (choice_code g OR push_bit 16 v) = v"
    and "GUEST_SELECT_HARNESS_MODE (choice_code g OR push_bit 16 v) = choice_code g AND 0xff"
proof -
  have "unat (choice_code g) < 512"
    using assms(1) harness_code by (cases g) (auto simp: choice_ok_def word_le_nat_alt)
  then have g: "choice_code g < 0x10000" by (simp add: word_less_nat_alt)
  have v: "v < 0x100" using assms(2) by (simp add: word_le_nat_alt word_less_nat_alt)
  show "GUEST_SELECT_GUEST (choice_code g OR push_bit 16 v) = choice_code g"
    "GUEST_SELECT_VCPU (choice_code g OR push_bit 16 v) = v"
    "GUEST_SELECT_HARNESS_MODE (choice_code g OR push_bit 16 v) = choice_code g AND 0xff"
    by (rule select_fields [OF g v])+
qed

text \<open>
  C30. A guest selection written as a command's arguments is accepted and reads back: the VMM's own field accessors recover the
  vCPU number, the guest and the harness mode from the word the parser computes.
\<close>

theorem guest_select_roundtrip:
  assumes "choice_ok g" and "v \<le> 0xff"
  shows "\<exists>sel. parse_guest_select (select_text g v) old = (True, sel) \<and> GUEST_SELECT_VCPU sel = v \<and> GUEST_SELECT_GUEST sel = choice_code g
    \<and> (GUEST_SELECT_IS_HARNESS sel \<longleftrightarrow> (\<exists>m. g = HarnessGuest m)) \<and> (\<forall>m. g = HarnessGuest m \<longrightarrow> GUEST_SELECT_HARNESS_MODE sel = m)"
proof -
  let ?sel = "choice_code g OR push_bit 16 v"
  note p = parse_select_text [OF assms, of old] and f = choice_fields [OF assms]
  have "GUEST_SELECT_IS_HARNESS ?sel \<longleftrightarrow> (\<exists>m. g = HarnessGuest m)"
    unfolding GUEST_SELECT_IS_HARNESS_def f(1)
    using assms(1) harness_fields by (cases g) (auto simp: choice_ok_def)
  moreover have "GUEST_SELECT_HARNESS_MODE ?sel = m" if "g = HarnessGuest m" for m
    unfolding f(3) using assms(1) harness_fields that by (simp add: choice_ok_def)
  ultimately show ?thesis using p f(1,2) by blast
qed

theorem guest_select_roundtrip_witness:
  "\<exists>sel. parse_guest_select (select_text (HarnessGuest 5) 2) 0 = (True, sel) \<and> GUEST_SELECT_VCPU sel = 2
    \<and> GUEST_SELECT_IS_HARNESS sel \<and> GUEST_SELECT_HARNESS_MODE sel = 5"
  using guest_select_roundtrip [of "HarnessGuest 5" 2 0] by (auto simp: choice_ok_def)

end
