(* ===== verification/Machine.thy ===== *)
theory Machine
  imports Text_Render
begin

text \<open>
  The machine the bare-metal code of \<^verbatim>\<open>uartrx/\<close>, \<^verbatim>\<open>freezewatch/\<close>, \<^verbatim>\<open>fbcon/\<close>, \<^verbatim>\<open>diag/\<close> and \<^verbatim>\<open>guests/harness/\<close> runs on.  Device
  registers answer as they please: they are the operations of the record \<open>machine\<close>, on a device
  state of any type \<open>'d\<close>.  A domain's state extends \<open>io\<close>, which logs every volatile access in order
  together with the value it transferred.  Busy-waiting code returns an option: \<open>None\<close> is never
  returning.
\<close>

record 'd machine =
  mc_read32 :: "u64 \<Rightarrow> 'd \<Rightarrow> u32 \<times> 'd"
  mc_write32 :: "u64 \<Rightarrow> u32 \<Rightarrow> 'd \<Rightarrow> 'd"
  mc_read64 :: "u64 \<Rightarrow> 'd \<Rightarrow> u64 \<times> 'd"
  mc_cntpct :: "'d \<Rightarrow> u64 \<times> 'd"
  mc_cntfrq :: u64

datatype access = Read32 u64 u32 | Write32 u64 u32 | Read64 u64 u64

record 'd io =
  io_dev :: 'd
  io_log :: "access list"

fun access_addr :: "access \<Rightarrow> u64" where
  "access_addr (Read32 a v) = a"
| "access_addr (Write32 a v) = a"
| "access_addr (Read64 a w) = a"

definition read32 :: "'d machine \<Rightarrow> u64 \<Rightarrow> ('d, 'z) io_scheme \<Rightarrow> u32 \<times> ('d, 'z) io_scheme" where
  "read32 M a s = (let (v, d) = mc_read32 M a (io_dev s) in (v, s\<lparr>io_dev := d, io_log := io_log s @ [Read32 a v]\<rparr>))"

definition write32 :: "'d machine \<Rightarrow> u64 \<Rightarrow> u32 \<Rightarrow> ('d, 'z) io_scheme \<Rightarrow> ('d, 'z) io_scheme" where
  "write32 M a v s = s\<lparr>io_dev := mc_write32 M a v (io_dev s), io_log := io_log s @ [Write32 a v]\<rparr>"

definition read64 :: "'d machine \<Rightarrow> u64 \<Rightarrow> ('d, 'z) io_scheme \<Rightarrow> u64 \<times> ('d, 'z) io_scheme" where
  "read64 M a s = (let (v, d) = mc_read64 M a (io_dev s) in (v, s\<lparr>io_dev := d, io_log := io_log s @ [Read64 a v]\<rparr>))"

definition cntpct :: "'d machine \<Rightarrow> ('d, 'z) io_scheme \<Rightarrow> u64 \<times> ('d, 'z) io_scheme" where
  "cntpct M s = (let (t, d) = mc_cntpct M (io_dev s) in (t, s\<lparr>io_dev := d\<rparr>))"

text \<open>A counted loop whose body may fail to return.\<close>

fun for_each :: "('i \<Rightarrow> 's \<Rightarrow> 's option) \<Rightarrow> 'i list \<Rightarrow> 's \<Rightarrow> 's option" where
  "for_each f [] s = Some s"
| "for_each f (x # xs) s = f x s \<bind> for_each f xs"

lemma bind_total: "\<exists>x. m = Some x \<Longrightarrow> (\<And>x. \<exists>y. f x = Some y) \<Longrightarrow> \<exists>y. m \<bind> f = Some y"
  by auto

lemma if_total: "\<exists>x. a = Some x \<Longrightarrow> \<exists>x. b = Some x \<Longrightarrow> \<exists>y. (if c then a else b) = Some y"
  by simp

lemma Some_total: "\<exists>y. Some x = Some y"
  by simp

lemmas total_intros = bind_total if_total Some_total

lemma for_each_append: "for_each f (xs @ ys) s = for_each f xs s \<bind> for_each f ys"
  by (induction xs arbitrary: s) (auto split: bind_split)

lemma for_each_total: "(\<And>x s. x \<in> set xs \<Longrightarrow> \<exists>s'. f x s = Some s') \<Longrightarrow> \<exists>s'. for_each f xs s = Some s'"
proof (induction xs arbitrary: s)
  case (Cons x xs)
  obtain s1 where "f x s = Some s1" using Cons.prems by fastforce
  then show ?case using Cons by simp
qed simp

text \<open>An accumulating observation of a loop: what each iteration adds to it.\<close>

lemma for_each_obs:
  assumes "\<And>x s s'. x \<in> set xs \<Longrightarrow> f x s = Some s' \<Longrightarrow> \<exists>ys. g s' = g s @ ys \<and> P x ys"
    and "for_each f xs s = Some s'"
  shows "\<exists>yss. g s' = g s @ concat yss \<and> list_all2 P xs yss"
  using assms
proof (induction xs arbitrary: s)
  case (Cons x xs)
  obtain s1 where s1: "f x s = Some s1" "for_each f xs s1 = Some s'"
    using Cons.prems(2) by (auto split: bind_splits)
  obtain ys where ys: "g s1 = g s @ ys" "P x ys" using Cons.prems(1) s1(1) by fastforce
  obtain yss where "g s' = g s1 @ concat yss" "list_all2 P xs yss"
    using Cons.IH [OF Cons.prems(1) s1(2)] by auto
  then have "g s' = g s @ concat (ys # yss) \<and> list_all2 P (x # xs) (ys # yss)" using ys by simp
  then show ?case by blast
qed simp

lemma for_each_inv:
  assumes "\<And>x s s'. f x s = Some s' \<Longrightarrow> I s \<Longrightarrow> I s'" and "for_each f xs s = Some s'" and "I s"
  shows "I s'"
  using assms(2,3) by (induction xs arbitrary: s) (auto split: bind_splits intro: assms(1))

section \<open>Polling a register\<close>

text \<open>\<open>while (!ready(*reg)) {}\<close>: returns when a read satisfies \<open>P\<close>, and only then.\<close>

partial_function (option) poll :: "'d machine \<Rightarrow> u64 \<Rightarrow> (u32 \<Rightarrow> bool) \<Rightarrow> ('d, 'z) io_scheme \<Rightarrow> ('d, 'z) io_scheme option" where
  "poll M a P s = (case read32 M a s of (v, s1) \<Rightarrow> if P v then Some s1 else poll M a P s1)"

text \<open>The \<open>n\<close>-th of a series of reads of one register, and the device left after it.\<close>

fun nth_read :: "'d machine \<Rightarrow> u64 \<Rightarrow> nat \<Rightarrow> 'd \<Rightarrow> u32" where
  "nth_read M a 0 d = fst (mc_read32 M a d)"
| "nth_read M a (Suc n) d = nth_read M a n (snd (mc_read32 M a d))"

lemma poll_returns: "P (nth_read M a n (io_dev s)) \<Longrightarrow> \<exists>s'. poll M a P s = Some s'"
proof (induction n arbitrary: s)
  case 0
  then show ?case by (subst poll.simps) (simp add: read32_def split_beta Let_def)
next
  case (Suc n)
  then have "P (nth_read M a n (io_dev (snd (read32 M a s))))" by (simp add: read32_def split_beta Let_def)
  then have "\<exists>s'. poll M a P (snd (read32 M a s)) = Some s'" by (rule Suc.IH)
  then show ?case by (subst poll.simps) (simp add: split_beta)
qed

text \<open>What a poll that returned did: reads only, all but the last of them not ready.\<close>

definition polled :: "u64 \<Rightarrow> (u32 \<Rightarrow> bool) \<Rightarrow> access list \<Rightarrow> bool" where
  "polled a P as \<longleftrightarrow> (\<exists>vs v. as = map (Read32 a) vs @ [Read32 a v] \<and> P v \<and> (\<forall>u\<in>set vs. \<not> P u))"

lemma poll_induct [consumes 1, case_names ready busy]:
  assumes "poll M a P s = Some y"
    and ready: "\<And>s v s1. read32 M a s = (v, s1) \<Longrightarrow> P v \<Longrightarrow> Q s s1"
    and busy: "\<And>s v s1 y. read32 M a s = (v, s1) \<Longrightarrow> \<not> P v \<Longrightarrow> Q s1 y \<Longrightarrow> Q s y"
  shows "Q s y"
proof -
  let ?R = "\<lambda>(((M', a'), P'), s) y. M' = M \<and> a' = a \<and> P' = P \<longrightarrow> Q s y"
  have "?R (((M, a), P), s) y"
  proof (rule poll.raw_induct [OF _ assms(1)])
    fix f :: "'a machine \<Rightarrow> u64 \<Rightarrow> (u32 \<Rightarrow> bool) \<Rightarrow> ('a, 'b) io_scheme \<Rightarrow> ('a, 'b) io_scheme option" and M' a' P' s y
    assume IH: "\<And>M' a' P' s y. f M' a' P' s = Some y \<Longrightarrow> ?R (((M', a'), P'), s) y"
      and eq: "(case read32 M' a' s of (v, s1) \<Rightarrow> if P' v then Some s1 else f M' a' P' s1) = Some y"
    obtain v s1 where "read32 M' a' s = (v, s1)" by fastforce
    then show "?R (((M', a'), P'), s) y"
      using eq IH [of M' a' P' s1 y] ready [of s v s1] busy [of s v s1 y] by (auto split: if_splits)
  qed
  then show ?thesis by simp
qed

lemma poll_log:
  "poll M a P s = Some s' \<Longrightarrow> \<exists>as d. s' = s\<lparr>io_dev := d, io_log := io_log s @ as\<rparr> \<and> polled a P as"
proof (induction rule: poll_induct)
  case (ready s v s1)
  then have "s1 = s\<lparr>io_dev := io_dev s1, io_log := io_log s @ [Read32 a v]\<rparr> \<and> polled a P [Read32 a v]"
    by (auto simp: polled_def read32_def split_beta Let_def)
  then show ?case by (intro exI)
next
  case (busy s v s1 s')
  then obtain vs w d where vs: "s' = s1\<lparr>io_dev := d, io_log := io_log s1 @ map (Read32 a) vs @ [Read32 a w]\<rparr>"
      "P w" "\<forall>u\<in>set vs. \<not> P u" by (auto simp: polled_def)
  have "s' = s\<lparr>io_dev := d, io_log := io_log s @ map (Read32 a) (v # vs) @ [Read32 a w]\<rparr>"
    using vs(1) busy(1) by (auto simp: read32_def split_beta Let_def)
  moreover have "polled a P (map (Read32 a) (v # vs) @ [Read32 a w])"
    using vs(2,3) busy(2) unfolding polled_def by (intro exI [of _ "v # vs"] exI [of _ w]) simp
  ultimately show ?case by (intro exI conjI)
qed

section \<open>The UART\<close>

text \<open>The registers of the UART (\<^verbatim>\<open>include/hw/exynos_uart.h\<close>), and where the system description maps it.\<close>

definition uart_vaddr :: u64 where "uart_vaddr = 0x30000000"

abbreviation (input) EXYNOS_UART_ULCON :: u64 where "EXYNOS_UART_ULCON \<equiv> 0x00"
abbreviation (input) EXYNOS_UART_UCON :: u64 where "EXYNOS_UART_UCON \<equiv> 0x04"
abbreviation (input) EXYNOS_UART_UFCON :: u64 where "EXYNOS_UART_UFCON \<equiv> 0x08"
abbreviation (input) EXYNOS_UART_UTRSTAT :: u64 where "EXYNOS_UART_UTRSTAT \<equiv> 0x10"
abbreviation (input) EXYNOS_UART_UERSTAT :: u64 where "EXYNOS_UART_UERSTAT \<equiv> 0x14"
abbreviation (input) EXYNOS_UART_UFSTAT :: u64 where "EXYNOS_UART_UFSTAT \<equiv> 0x18"
abbreviation (input) EXYNOS_UART_UTXH :: u64 where "EXYNOS_UART_UTXH \<equiv> 0x20"
abbreviation (input) EXYNOS_UART_URXH :: u64 where "EXYNOS_UART_URXH \<equiv> 0x24"
abbreviation (input) EXYNOS_UART_UINTM :: u64 where "EXYNOS_UART_UINTM \<equiv> 0x38"
abbreviation (input) EXYNOS_UART_UFCON_FIFOMODE :: u32 where "EXYNOS_UART_UFCON_FIFOMODE \<equiv> 0x1"
abbreviation (input) EXYNOS_UART_UFSTAT_RXCOUNT :: u32 where "EXYNOS_UART_UFSTAT_RXCOUNT \<equiv> 0xff"
abbreviation (input) EXYNOS_UART_UFSTAT_RXFULL :: u32 where "EXYNOS_UART_UFSTAT_RXFULL \<equiv> 0x100"
abbreviation (input) EXYNOS_UART_UFSTAT_TXFULL :: u32 where "EXYNOS_UART_UFSTAT_TXFULL \<equiv> 0x1000000"
abbreviation (input) EXYNOS_UART_UTRSTAT_RXDR :: u32 where "EXYNOS_UART_UTRSTAT_RXDR \<equiv> 0x1"
abbreviation (input) EXYNOS_UART_UTRSTAT_TXFE :: u32 where "EXYNOS_UART_UTRSTAT_TXFE \<equiv> 0x2"
abbreviation (input) EXYNOS_UART_UTRSTAT_TXE :: u32 where "EXYNOS_UART_UTRSTAT_TXE \<equiv> 0x4"

definition uart_read :: "'d machine \<Rightarrow> u64 \<Rightarrow> ('d, 'z) io_scheme \<Rightarrow> u32 \<times> ('d, 'z) io_scheme" where
  "uart_read M reg s = read32 M (uart_vaddr + reg) s"

end
