(* ===== verification/Coresight.thy ===== *)
theory Coresight
  imports Machine
begin

text \<open>
  \<^verbatim>\<open>diag/coresight.c\<close>: sampling the program counter of every core through its CoreSight debug and PMU pages.
  The code prints through a function pointer, \<open>puts\<close>, that its clients \<open>uartrx\<close> and \<open>freezewatch\<close> supply; what
  it relies on is the locale \<open>cs_printer\<close>: printing does not touch the CoreSight pages.
\<close>

abbreviation (input) CS_NUM_CORES :: nat where "CS_NUM_CORES \<equiv> 8"
abbreviation (input) CS_VADDR_BASE :: u64 where "CS_VADDR_BASE \<equiv> 0x50000000"
abbreviation (input) CS_DBGOSLAR :: u64 where "CS_DBGOSLAR \<equiv> 0x300"
abbreviation (input) CS_DBGPRSR :: u64 where "CS_DBGPRSR \<equiv> 0x314"
abbreviation (input) CS_MIDR :: u64 where "CS_MIDR \<equiv> 0xd00"
abbreviation (input) CS_DBGLAR :: u64 where "CS_DBGLAR \<equiv> 0xfb0"
abbreviation (input) CS_PMUPCSR :: u64 where "CS_PMUPCSR \<equiv> 0x200"
abbreviation (input) CS_OSLOCK_MAGIC :: u32 where "CS_OSLOCK_MAGIC \<equiv> 0xc5acce55"
abbreviation (input) CS_LOCK :: u32 where "CS_LOCK \<equiv> 0x1"
abbreviation (input) CS_PRSR_POWER_UP :: u32 where "CS_PRSR_POWER_UP \<equiv> 0x1"
abbreviation (input) CS_PRSR_RESET_STATE :: u32 where "CS_PRSR_RESET_STATE \<equiv> 0x4"
abbreviation (input) CS_PCSR_SAMPLES :: nat where "CS_PCSR_SAMPLES \<equiv> 5"

definition CS_DBG_VADDR :: "nat \<Rightarrow> u64" where
  "CS_DBG_VADDR n = CS_VADDR_BASE + of_nat n * 0x2000"

definition CS_PMU_VADDR :: "nat \<Rightarrow> u64" where
  "CS_PMU_VADDR n = CS_VADDR_BASE + of_nat n * 0x2000 + 0x1000"

definition CS_PCSR_NS :: "u64 \<Rightarrow> u64" where
  "CS_PCSR_NS v = drop_bit 63 v AND 0x1"

definition CS_PCSR_EL :: "u64 \<Rightarrow> u64" where
  "CS_PCSR_EL v = drop_bit 61 v AND 0x3"

type_synonym ('d, 'z) printer = "string \<Rightarrow> ('d, 'z) io_scheme \<Rightarrow> ('d, 'z) io_scheme option"

definition cs_read :: "'d machine \<Rightarrow> u64 \<Rightarrow> u64 \<Rightarrow> ('d, 'z) io_scheme \<Rightarrow> u32 \<times> ('d, 'z) io_scheme" where
  "cs_read M base offset s = read32 M (base + offset) s"

definition cs_write :: "'d machine \<Rightarrow> u64 \<Rightarrow> u64 \<Rightarrow> u32 \<Rightarrow> ('d, 'z) io_scheme \<Rightarrow> ('d, 'z) io_scheme" where
  "cs_write M base offset v s = write32 M (base + offset) v s"

definition cs_read64 :: "'d machine \<Rightarrow> u64 \<Rightarrow> u64 \<Rightarrow> ('d, 'z) io_scheme \<Rightarrow> u64 \<times> ('d, 'z) io_scheme" where
  "cs_read64 M base offset s = read64 M (base + offset) s"

definition put_hex :: "('d, 'z) printer \<Rightarrow> u64 \<Rightarrow> nat \<Rightarrow> ('d, 'z) io_scheme \<Rightarrow> ('d, 'z) io_scheme option" where
  "put_hex puts val digits s = puts (''0x'' @ hex_nibbles val digits) s"

definition put_digit :: "('d, 'z) printer \<Rightarrow> u32 \<Rightarrow> ('d, 'z) io_scheme \<Rightarrow> ('d, 'z) io_scheme option" where
  "put_digit puts val s = puts [digit_char (unat (val mod 10))] s"

definition sample_line :: "('d, 'z) printer \<Rightarrow> nat \<Rightarrow> u64 \<Rightarrow> ('d, 'z) io_scheme \<Rightarrow> ('d, 'z) io_scheme option" where
  "sample_line puts core pcsr s0 = do {
     s1 \<leftarrow> puts ''  core '' s0;
     s2 \<leftarrow> put_digit puts (of_nat core) s1;
     s3 \<leftarrow> puts '' PMUPCSR '' s2;
     s4 \<leftarrow> put_hex puts pcsr 16 s3;
     s5 \<leftarrow> puts '' ns '' s4;
     s6 \<leftarrow> put_digit puts (ucast (CS_PCSR_NS pcsr)) s5;
     s7 \<leftarrow> puts '' el '' s6;
     s8 \<leftarrow> put_digit puts (ucast (CS_PCSR_EL pcsr)) s7;
     puts [NL] s8
   }"

definition sampleable :: "'d machine \<Rightarrow> ('d, 'z) printer \<Rightarrow> nat \<Rightarrow> u64 \<Rightarrow> ('d, 'z) io_scheme
    \<Rightarrow> (bool \<times> ('d, 'z) io_scheme) option" where
  "sampleable M puts core dbg s = do {
     let (prsr, s0) = cs_read M dbg CS_DBGPRSR s;
     s1 \<leftarrow> puts ''core '' s0;
     s2 \<leftarrow> put_digit puts (of_nat core) s1;
     s3 \<leftarrow> puts '': DBGPRSR '' s2;
     s4 \<leftarrow> put_hex puts (ucast prsr) 8 s3;
     s5 \<leftarrow> puts '' MIDR '' s4;
     let (midr, s6) = cs_read M dbg CS_MIDR s5;
     s7 \<leftarrow> put_hex puts (ucast midr) 8 s6;
     s8 \<leftarrow> puts [NL] s7;
     if prsr AND CS_PRSR_POWER_UP = 0 \<or> prsr AND CS_PRSR_RESET_STATE \<noteq> 0
     then do {
       s9 \<leftarrow> puts (''  powered down or in reset; not sampled'' @ [NL]) s8;
       Some (False, s9)
     }
     else Some (True, s8)
   }"

definition sample_once :: "'d machine \<Rightarrow> ('d, 'z) printer \<Rightarrow> nat \<Rightarrow> u64 \<Rightarrow> nat \<Rightarrow> ('d, 'z) io_scheme
    \<Rightarrow> ('d, 'z) io_scheme option" where
  "sample_once M puts core pmu i s =
     (let (_, s1) = cs_read64 M pmu CS_PMUPCSR s;
          (pcsr, s2) = cs_read64 M pmu CS_PMUPCSR s1
      in sample_line puts core pcsr s2)"

definition sample_core :: "'d machine \<Rightarrow> ('d, 'z) printer \<Rightarrow> nat \<Rightarrow> ('d, 'z) io_scheme \<Rightarrow> ('d, 'z) io_scheme option" where
  "sample_core M puts core s = do {
     let dbg = CS_DBG_VADDR core;
     let pmu = CS_PMU_VADDR core;
     (ok, s1) \<leftarrow> sampleable M puts core dbg s;
     if \<not> ok then Some s1
     else do {
       let s2 = cs_write M dbg CS_DBGLAR CS_OSLOCK_MAGIC s1;
       let s3 = cs_write M dbg CS_DBGOSLAR 0 s2;
       let s4 = cs_write M pmu CS_DBGLAR CS_OSLOCK_MAGIC s3;
       s5 \<leftarrow> for_each (sample_once M puts core pmu) [0..<CS_PCSR_SAMPLES] s4;
       Some (cs_write M pmu CS_DBGLAR CS_LOCK s5)
     }
   }"

definition cs_sample_all :: "'d machine \<Rightarrow> ('d, 'z) printer \<Rightarrow> ('d, 'z) io_scheme \<Rightarrow> ('d, 'z) io_scheme option" where
  "cs_sample_all M puts s = for_each (sample_core M puts) [0..<CS_NUM_CORES] s"

section \<open>The accesses of a sampling\<close>

definition cs_window :: "u64 \<Rightarrow> bool" where
  "cs_window a \<longleftrightarrow> CS_VADDR_BASE \<le> a \<and> a < CS_VADDR_BASE + 0x10000"

definition cs_accesses :: "access list \<Rightarrow> access list" where
  "cs_accesses = filter (\<lambda>x. cs_window (access_addr x))"

definition cs_powered :: "u32 \<Rightarrow> bool" where
  "cs_powered prsr \<longleftrightarrow> prsr AND CS_PRSR_POWER_UP \<noteq> 0 \<and> prsr AND CS_PRSR_RESET_STATE = 0"

text \<open>
  The protocol of one core: identify it; if it is powered and out of reset, unlock it, take the samples
  (each read twice, the first read triggering it) and lock the PMU again.
\<close>

definition core_session :: "nat \<Rightarrow> u32 \<Rightarrow> u32 \<Rightarrow> u64 list \<Rightarrow> access list" where
  "core_session core prsr midr samples =
     [Read32 (CS_DBG_VADDR core + CS_DBGPRSR) prsr, Read32 (CS_DBG_VADDR core + CS_MIDR) midr]
     @ (if cs_powered prsr
        then [Write32 (CS_DBG_VADDR core + CS_DBGLAR) CS_OSLOCK_MAGIC, Write32 (CS_DBG_VADDR core + CS_DBGOSLAR) 0,
              Write32 (CS_PMU_VADDR core + CS_DBGLAR) CS_OSLOCK_MAGIC]
             @ map (Read64 (CS_PMU_VADDR core + CS_PMUPCSR)) samples
             @ [Write32 (CS_PMU_VADDR core + CS_DBGLAR) CS_LOCK]
        else [])"

definition is_session :: "nat \<Rightarrow> access list \<Rightarrow> bool" where
  "is_session core as \<longleftrightarrow> (\<exists>prsr midr samples. as = core_session core prsr midr samples \<and> length samples = 2 * CS_PCSR_SAMPLES)"

lemma cs_accesses_append [simp]: "cs_accesses (xs @ ys) = cs_accesses xs @ cs_accesses ys"
  by (simp add: cs_accesses_def)

lemma cs_accesses_Cons: "cs_accesses (x # xs) = (if cs_window (access_addr x) then [x] else []) @ cs_accesses xs"
  by (simp add: cs_accesses_def)

lemma cs_accesses_Nil [simp]: "cs_accesses [] = []"
  by (simp add: cs_accesses_def)

lemma cs_window_offset:
  assumes "core < CS_NUM_CORES" and "off < 0x1000"
  shows "cs_window (CS_DBG_VADDR core + off)" "cs_window (CS_PMU_VADDR core + off)"
proof -
  have c: "unat (of_nat core :: u64) = core" using assms(1) by (simp add: unat_of_nat)
  have o': "unat off < 0x1000" using assms(2) by (simp add: word_less_nat_alt)
  have d: "unat (CS_DBG_VADDR core + off) = 0x50000000 + core * 0x2000 + unat off"
    and p: "unat (CS_PMU_VADDR core + off) = 0x50000000 + core * 0x2000 + 0x1000 + unat off"
    using assms(1) o' by (simp_all add: CS_DBG_VADDR_def CS_PMU_VADDR_def unat_word_ariths c)
  show "cs_window (CS_DBG_VADDR core + off)" "cs_window (CS_PMU_VADDR core + off)"
    using assms(1) o' by (simp_all add: cs_window_def word_le_nat_alt word_less_nat_alt d p)
qed

lemma cs_io:
  "cs_read M b off s = (v, s') \<Longrightarrow> io_log s' = io_log s @ [Read32 (b + off) v]"
  "cs_read64 M b off s = (w, s') \<Longrightarrow> io_log s' = io_log s @ [Read64 (b + off) w]"
  "io_log (cs_write M b off v s) = io_log s @ [Write32 (b + off) v]"
  by (auto simp: cs_read_def cs_read64_def cs_write_def read32_def read64_def write32_def Let_def split_beta)

lemma concat_reads:
  "list_all2 (\<lambda>i ys. \<exists>vs. ys = map f vs \<and> length vs = n) xs yss
     \<Longrightarrow> \<exists>vs. concat yss = map f vs \<and> length vs = n * length xs"
proof (induction rule: list_all2_induct)
  case (Cons x xs y ys)
  then obtain us vs where "y = map f us" "length us = n" "concat ys = map f vs" "length vs = n * length xs"
    by auto
  then have "concat (y # ys) = map f (us @ vs) \<and> length (us @ vs) = n * length (x # xs)" by simp
  then show ?case by blast
qed simp

text \<open>What a client's printer owes.\<close>

locale cs_printer =
  fixes puts :: "string \<Rightarrow> ('d, 'z) io_scheme \<Rightarrow> ('d, 'z) io_scheme option"
  assumes puts_quiet: "puts t s = Some s' \<Longrightarrow> cs_accesses (io_log s') = cs_accesses (io_log s)"
begin

lemma put_hex_quiet: "put_hex puts v n s = Some s' \<Longrightarrow> cs_accesses (io_log s') = cs_accesses (io_log s)"
  by (simp add: put_hex_def puts_quiet)

lemma put_digit_quiet: "put_digit puts v s = Some s' \<Longrightarrow> cs_accesses (io_log s') = cs_accesses (io_log s)"
  by (simp add: put_digit_def puts_quiet)

lemmas prints_quiet = puts_quiet put_hex_quiet put_digit_quiet

lemma sample_line_quiet: "sample_line puts c v s = Some s' \<Longrightarrow> cs_accesses (io_log s') = cs_accesses (io_log s)"
  unfolding sample_line_def by (auto split: bind_splits dest!: prints_quiet)

lemma sampleable_session:
  assumes "core < CS_NUM_CORES" and "sampleable M puts core (CS_DBG_VADDR core) s = Some (ok, s')"
  shows "\<exists>prsr midr. cs_accesses (io_log s') = cs_accesses (io_log s)
      @ [Read32 (CS_DBG_VADDR core + CS_DBGPRSR) prsr, Read32 (CS_DBG_VADDR core + CS_MIDR) midr] \<and> ok = cs_powered prsr"
proof -
  obtain prsr s0 where r: "cs_read M (CS_DBG_VADDR core) CS_DBGPRSR s = (prsr, s0)" by fastforce
  obtain s5 where s5: "cs_accesses (io_log s5) = cs_accesses (io_log s0)"
    and rest: "(let (midr, s6) = cs_read M (CS_DBG_VADDR core) CS_MIDR s5 in do {
       s7 \<leftarrow> put_hex puts (ucast midr) 8 s6;
       s8 \<leftarrow> puts [NL] s7;
       if prsr AND CS_PRSR_POWER_UP = 0 \<or> prsr AND CS_PRSR_RESET_STATE \<noteq> 0
       then do { s9 \<leftarrow> puts (''  powered down or in reset; not sampled'' @ [NL]) s8; Some (False, s9) }
       else Some (True, s8) }) = Some (ok, s')"
    using assms(2) unfolding sampleable_def by (auto simp: r split: bind_splits dest!: prints_quiet)
  obtain midr s6 where m: "cs_read M (CS_DBG_VADDR core) CS_MIDR s5 = (midr, s6)" by fastforce
  have "cs_accesses (io_log s') = cs_accesses (io_log s6)" and "ok = cs_powered prsr"
    using rest by (auto simp: m cs_powered_def split: bind_splits if_splits dest!: prints_quiet)
  then show ?thesis
    using cs_io(1) [OF r] cs_io(1) [OF m] s5 cs_window_offset(1) [OF assms(1)] by (auto simp: cs_accesses_Cons)
qed

lemma sample_once_reads:
  assumes "core < CS_NUM_CORES" and "sample_once M puts core (CS_PMU_VADDR core) i s = Some s'"
  shows "\<exists>vs. cs_accesses (io_log s') = cs_accesses (io_log s) @ map (Read64 (CS_PMU_VADDR core + CS_PMUPCSR)) vs \<and> length vs = 2"
proof -
  obtain v1 s1 where r1: "cs_read64 M (CS_PMU_VADDR core) CS_PMUPCSR s = (v1, s1)" by fastforce
  obtain v2 s2 where r2: "cs_read64 M (CS_PMU_VADDR core) CS_PMUPCSR s1 = (v2, s2)" by fastforce
  have "sample_line puts core v2 s2 = Some s'" using assms(2) by (simp add: sample_once_def r1 r2)
  then have "cs_accesses (io_log s') = cs_accesses (io_log s2)" by (rule sample_line_quiet)
  then have "cs_accesses (io_log s') = cs_accesses (io_log s) @ map (Read64 (CS_PMU_VADDR core + CS_PMUPCSR)) [v1, v2]"
    using cs_io(2) [OF r1] cs_io(2) [OF r2] cs_window_offset(2) [OF assms(1)] by (simp add: cs_accesses_Cons)
  then show ?thesis by (intro exI [of _ "[v1, v2]"]) simp
qed

lemma sample_core_session:
  assumes "core < CS_NUM_CORES" and "sample_core M puts core s = Some s'"
  shows "\<exists>as. cs_accesses (io_log s') = cs_accesses (io_log s) @ as \<and> is_session core as"
proof -
  let ?w = "cs_window_offset [OF assms(1)]" and ?rd = "Read64 (CS_PMU_VADDR core + CS_PMUPCSR)"
  obtain ok s1 where s1: "sampleable M puts core (CS_DBG_VADDR core) s = Some (ok, s1)"
    using assms(2) by (auto simp: sample_core_def Let_def split: bind_splits)
  obtain prsr midr where pm: "cs_accesses (io_log s1) = cs_accesses (io_log s)
      @ [Read32 (CS_DBG_VADDR core + CS_DBGPRSR) prsr, Read32 (CS_DBG_VADDR core + CS_MIDR) midr]" "ok = cs_powered prsr"
    using sampleable_session [OF assms(1) s1] by blast
  show ?thesis
  proof (cases ok)
    case False
    then have "cs_accesses (io_log s') = cs_accesses (io_log s) @ core_session core prsr midr (replicate (2 * CS_PCSR_SAMPLES) 0)"
      using assms(2) s1 pm by (simp add: sample_core_def core_session_def)
    then show ?thesis unfolding is_session_def by (metis length_replicate)
  next
    case True
    let ?s4 = "cs_write M (CS_PMU_VADDR core) CS_DBGLAR CS_OSLOCK_MAGIC (cs_write M (CS_DBG_VADDR core) CS_DBGOSLAR 0
        (cs_write M (CS_DBG_VADDR core) CS_DBGLAR CS_OSLOCK_MAGIC s1))"
    obtain s5 where s5: "for_each (sample_once M puts core (CS_PMU_VADDR core)) [0..<CS_PCSR_SAMPLES] ?s4 = Some s5"
      and s': "s' = cs_write M (CS_PMU_VADDR core) CS_DBGLAR CS_LOCK s5"
      using assms(2) s1 True by (auto simp: sample_core_def Let_def simp del: upt_Suc split: bind_splits)
    have "\<exists>yss. cs_accesses (io_log s5) = cs_accesses (io_log ?s4) @ concat yss
        \<and> list_all2 (\<lambda>i ys. \<exists>vs. ys = map ?rd vs \<and> length vs = 2) [0..<CS_PCSR_SAMPLES] yss"
    proof (rule for_each_obs [where g = "\<lambda>s. cs_accesses (io_log s)", OF _ s5])
      fix i :: nat and t t'
      assume "sample_once M puts core (CS_PMU_VADDR core) i t = Some t'"
      then obtain vs where "cs_accesses (io_log t') = cs_accesses (io_log t) @ map ?rd vs" "length vs = 2"
        using sample_once_reads [OF assms(1), of M i t t'] by auto
      then show "\<exists>ys. cs_accesses (io_log t') = cs_accesses (io_log t) @ ys \<and> (\<exists>vs. ys = map ?rd vs \<and> length vs = 2)"
        by (intro exI [of _ "map ?rd vs"]) auto
    qed
    then obtain yss where yss: "cs_accesses (io_log s5) = cs_accesses (io_log ?s4) @ concat yss"
      and all: "list_all2 (\<lambda>i ys. \<exists>vs. ys = map ?rd vs \<and> length vs = 2) [0..<CS_PCSR_SAMPLES] yss" by blast
    have "\<exists>samples. concat yss = map ?rd samples \<and> length samples = 2 * length [0..<CS_PCSR_SAMPLES]"
      using all by (rule concat_reads)
    then obtain samples where sm: "concat yss = map ?rd samples" "length samples = 2 * CS_PCSR_SAMPLES" by auto
    have "cs_accesses (io_log s') = cs_accesses (io_log s) @ core_session core prsr midr samples"
      using True pm yss sm(1) cs_window_offset [OF assms(1)] by (simp add: s' cs_io(3) core_session_def cs_accesses_Cons)
    then show ?thesis using sm(2) by (auto simp: is_session_def)
  qed
qed

lemma sample_all_sessions:
  assumes "cs_sample_all M puts s = Some s'"
  shows "\<exists>sessions. cs_accesses (io_log s') = cs_accesses (io_log s) @ concat sessions
    \<and> list_all2 is_session [0..<CS_NUM_CORES] sessions"
proof (rule for_each_obs [where g = "\<lambda>s. cs_accesses (io_log s)"])
  show "for_each (sample_core M puts) [0..<CS_NUM_CORES] s = Some s'" using assms by (simp add: cs_sample_all_def)
qed (simp add: sample_core_session)

end

text \<open>A printer that always returns makes the sampling return.\<close>

locale cs_total_printer = cs_printer +
  assumes puts_total: "\<exists>s'. puts t s = Some s'"
begin

lemma sample_line_total: "\<exists>s'. sample_line puts c v s = Some s'"
  unfolding sample_line_def put_digit_def put_hex_def by (intro total_intros puts_total)

lemma sampleable_total: "\<exists>r. sampleable M puts c d s = Some r"
  unfolding sampleable_def put_digit_def put_hex_def Let_def split_beta
  by (intro total_intros puts_total)

lemma sample_core_total: "\<exists>s'. sample_core M puts core s = Some s'"
proof -
  have "\<exists>s'. for_each (sample_once M puts core (CS_PMU_VADDR core)) [0..<CS_PCSR_SAMPLES] s4 = Some s'" for s4
    by (rule for_each_total) (simp add: sample_once_def split_beta sample_line_total)
  then show ?thesis
    unfolding sample_core_def Let_def split_beta by (intro total_intros sampleable_total)
qed

lemma sample_all_total: "\<exists>s'. cs_sample_all M puts s = Some s'"
  unfolding cs_sample_all_def by (rule for_each_total) (rule sample_core_total)

end

text \<open>
  A relation between states that printing and accesses inside the CoreSight pages both establish, such as a client's
  discipline on another device, holds across a whole sampling.
\<close>

locale cs_discipline =
  fixes M :: "'d machine" and puts :: "string \<Rightarrow> ('d, 'z) io_scheme \<Rightarrow> ('d, 'z) io_scheme option"
    and R :: "('d, 'z) io_scheme \<Rightarrow> ('d, 'z) io_scheme \<Rightarrow> bool"
  assumes R_refl: "R s s"
    and R_trans: "R s t \<Longrightarrow> R t u \<Longrightarrow> R s u"
    and R_puts: "puts x s = Some s' \<Longrightarrow> R s s'"
    and R_read: "cs_window a \<Longrightarrow> R s (snd (read32 M a s))"
    and R_read64: "cs_window a \<Longrightarrow> R s (snd (read64 M a s))"
    and R_write: "cs_window a \<Longrightarrow> R s (write32 M a v s)"
begin

definition keeps :: "('r \<Rightarrow> ('d, 'z) io_scheme) \<Rightarrow> ('d, 'z) io_scheme \<Rightarrow> 'r option \<Rightarrow> bool" where
  "keeps p s m \<longleftrightarrow> (\<forall>r. m = Some r \<longrightarrow> R s (p r))"

lemma keeps_bind: "keeps (\<lambda>x. x) s m \<Longrightarrow> (\<And>x. keeps p x (f x)) \<Longrightarrow> keeps p s (m \<bind> f)"
  by (auto simp: keeps_def split: bind_splits intro: R_trans)

lemma keeps_if: "keeps p s a \<Longrightarrow> keeps p s b \<Longrightarrow> keeps p s (if c then a else b)"
  by simp

lemma keeps_Some: "R s (p r) \<Longrightarrow> keeps p s (Some r)"
  by (simp add: keeps_def)

lemma keeps_before: "R s t \<Longrightarrow> keeps p t m \<Longrightarrow> keeps p s m"
  unfolding keeps_def by (metis R_trans)

lemma keeps_puts: "keeps (\<lambda>x. x) s (puts x s)"
  by (simp add: keeps_def R_puts)

lemma keeps_put_hex: "keeps (\<lambda>x. x) s (put_hex puts v n s)"
  by (simp add: put_hex_def keeps_puts)

lemma keeps_put_digit: "keeps (\<lambda>x. x) s (put_digit puts v s)"
  by (simp add: put_digit_def keeps_puts)

lemmas keeps_intros = keeps_bind keeps_if keeps_puts keeps_put_hex keeps_put_digit

lemma R_sample_line: "sample_line puts c v s = Some s' \<Longrightarrow> R s s'"
proof -
  have "keeps (\<lambda>x. x) s (sample_line puts c v s)" unfolding sample_line_def by (intro keeps_intros)
  then show "sample_line puts c v s = Some s' \<Longrightarrow> R s s'" by (simp add: keeps_def)
qed

lemma R_sampleable:
  assumes "core < CS_NUM_CORES" and "sampleable M puts core (CS_DBG_VADDR core) s = Some (ok, s')"
  shows "R s s'"
proof -
  have r: "R t (snd (cs_read M (CS_DBG_VADDR core) CS_DBGPRSR t))" "R t (snd (cs_read M (CS_DBG_VADDR core) CS_MIDR t))" for t
    using R_read cs_window_offset(1) [OF assms(1)] by (simp_all add: cs_read_def)
  have midr: "keeps snd t (case cs_read M (CS_DBG_VADDR core) CS_MIDR t of (v, t') \<Rightarrow> f v t')"
    if "\<And>v t'. keeps snd t' (f v t')" for f :: "u32 \<Rightarrow> ('d, 'z) io_scheme \<Rightarrow> (bool \<times> ('d, 'z) io_scheme) option" and t
    by (rule keeps_before [OF r(2)]) (simp add: split_beta that)
  have "keeps snd s (sampleable M puts core (CS_DBG_VADDR core) s)"
    unfolding sampleable_def Let_def
    by (subst split_beta, rule keeps_before [OF r(1)])
      (intro keeps_bind keeps_puts keeps_put_hex keeps_put_digit midr keeps_if keeps_Some, simp_all add: R_refl)
  then show ?thesis using assms(2) by (simp add: keeps_def)
qed

lemma R_for_each: "(\<And>x s s'. x \<in> set xs \<Longrightarrow> f x s = Some s' \<Longrightarrow> R s s') \<Longrightarrow> for_each f xs s = Some s' \<Longrightarrow> R s s'"
proof (induction xs arbitrary: s)
  case (Cons x xs)
  then obtain s1 where "f x s = Some s1" "for_each f xs s1 = Some s'" by (auto split: bind_splits)
  then show ?case using Cons by (metis R_trans list.set_intros)
qed (simp add: R_refl)

lemma R_sample_once:
  assumes "core < CS_NUM_CORES" and "sample_once M puts core (CS_PMU_VADDR core) i s = Some s'"
  shows "R s s'"
proof -
  have r: "R t (snd (cs_read64 M (CS_PMU_VADDR core) CS_PMUPCSR t))" for t
    using R_read64 cs_window_offset(2) [OF assms(1)] by (simp add: cs_read64_def)
  let ?s1 = "snd (cs_read64 M (CS_PMU_VADDR core) CS_PMUPCSR s)"
  have "R (snd (cs_read64 M (CS_PMU_VADDR core) CS_PMUPCSR ?s1)) s'"
    using assms(2) R_sample_line unfolding sample_once_def Let_def split_beta by blast
  then show ?thesis using r [of s] r [of ?s1] by (blast intro: R_trans)
qed

lemma R_sample_core:
  assumes "core < CS_NUM_CORES" and "sample_core M puts core s = Some s'"
  shows "R s s'"
proof -
  have w: "R t (cs_write M (CS_DBG_VADDR core) off v t)" "R t (cs_write M (CS_PMU_VADDR core) off v t)" if "off < 0x1000" for t off v
    using R_write cs_window_offset [OF assms(1) that] by (simp_all add: cs_write_def)
  obtain ok s1 where s1: "sampleable M puts core (CS_DBG_VADDR core) s = Some (ok, s1)"
    using assms(2) by (auto simp: sample_core_def Let_def split: bind_splits)
  have R1: "R s s1" using assms(1) s1 by (rule R_sampleable)
  show ?thesis
  proof (cases ok)
    case False
    then show ?thesis using assms(2) s1 R1 by (simp add: sample_core_def)
  next
    case True
    let ?s2 = "cs_write M (CS_DBG_VADDR core) CS_DBGLAR CS_OSLOCK_MAGIC s1"
    let ?s3 = "cs_write M (CS_DBG_VADDR core) CS_DBGOSLAR 0 ?s2"
    let ?s4 = "cs_write M (CS_PMU_VADDR core) CS_DBGLAR CS_OSLOCK_MAGIC ?s3"
    obtain s5 where s5: "for_each (sample_once M puts core (CS_PMU_VADDR core)) [0..<CS_PCSR_SAMPLES] ?s4 = Some s5"
      and s': "s' = cs_write M (CS_PMU_VADDR core) CS_DBGLAR CS_LOCK s5"
      using assms(2) s1 True by (auto simp: sample_core_def Let_def simp del: upt_Suc split: bind_splits)
    have "R s1 ?s2" "R ?s2 ?s3" "R ?s3 ?s4" "R s5 s'" by (simp_all add: w s')
    moreover have "R ?s4 s5" using R_sample_once [OF assms(1)] s5 by (rule R_for_each)
    ultimately show ?thesis using R1 by (blast intro: R_trans)
  qed
qed

lemma R_sample_all: "cs_sample_all M puts s = Some s' \<Longrightarrow> R s s'"
  unfolding cs_sample_all_def by (rule R_for_each [rotated]) (auto intro: R_sample_core)

end

end
