(* ===== verification/Uartrx.thy ===== *)
theory Uartrx
  imports Uartrx_Parse Coresight
begin

text \<open>
  \<^verbatim>\<open>uartrx/uartrx.c\<close>, the domain that owns the receiving side of the console UART: the line editor, the command table and its
  handlers, and the exchange with the VMM over the shared command page.  Its static variables are the record
  \<open>uartrx\<close>, what it does to the outside is logged in \<open>rx_out\<close>; \<open>Console_Ring\<close> has the code that carries the printed text, and
  \<open>Trace_Producer\<close> that of \<open>trace_emit\<close>.  The VMM works on the command page concurrently: whatever it has done to
  the page by the time of a load is the parameter \<open>rp_vmm\<close>.  The waiting loop may not end, so operations that can
  reach it return an option.
\<close>

section \<open>State and surroundings\<close>

abbreviation (input) LINE_MAX :: nat where "LINE_MAX \<equiv> 128"
abbreviation (input) ASCII_BS :: u8 where "ASCII_BS \<equiv> 0x08"
abbreviation (input) ASCII_DEL :: u8 where "ASCII_DEL \<equiv> 0x7f"
abbreviation (input) VMM_REPLY_TIMEOUT_MS :: u64 where "VMM_REPLY_TIMEOUT_MS \<equiv> 2000"
abbreviation (input) TLBI_STRESS_BATCHES :: nat where "TLBI_STRESS_BATCHES \<equiv> 1000"
abbreviation (input) TLBI_STRESS_BATCH :: u32 where "TLBI_STRESS_BATCH \<equiv> 10000"
abbreviation (input) TLBI_STRESS_REPORT_EVERY :: nat where "TLBI_STRESS_REPORT_EVERY \<equiv> 100"

datatype rx_effect =
    Say string                 \<comment> \<open>console text\<close>
  | NotifyTracer               \<comment> \<open>\<open>microkit_notify(TRACER_CH)\<close>\<close>
  | NotifyVmm                  \<comment> \<open>\<open>microkit_notify(VMM_CH)\<close>\<close>
  | EmitRecord trace_record    \<comment> \<open>\<open>trace_emit\<close>\<close>
  | GICDump                    \<comment> \<open>\<open>seL4_DebugGICDump\<close>\<close>

record 'd uartrx = "'d io" +
  rx_out :: "rx_effect list"
  rx_line :: string
  rx_line_len :: nat
  rx_line_errors :: u32
  rx_last_was_cr :: bool
  rx_commands_received :: u64
  rx_command_arg :: u64
  rx_cmd :: cmd_ring
  rx_dump_requests :: u64

record 'd rx_platform =
  rp_machine :: "'d machine"
  rp_vmm :: "cmd_ring \<Rightarrow> 'd \<Rightarrow> cmd_ring \<times> 'd"
  rp_tlbi_stress :: "u32 \<Rightarrow> 'd \<Rightarrow> u64 \<times> 'd"

definition rx_do :: "rx_effect \<Rightarrow> 'd uartrx \<Rightarrow> 'd uartrx" where
  "rx_do e s = s\<lparr>rx_out := rx_out s @ [e]\<rparr>"

text \<open>A load from the command page sees what the VMM has done to it by then.\<close>

definition load_cmd :: "'d rx_platform \<Rightarrow> 'd uartrx \<Rightarrow> 'd uartrx" where
  "load_cmd P s = (let (q, d) = rp_vmm P (rx_cmd s) (io_dev s) in s\<lparr>io_dev := d, rx_cmd := q\<rparr>)"

section \<open>Console output\<close>

definition console_putc :: "char \<Rightarrow> 'd uartrx \<Rightarrow> 'd uartrx" where
  "console_putc c s = rx_do (Say [c]) s"

definition console_flush :: "'d uartrx \<Rightarrow> 'd uartrx" where
  "console_flush s = rx_do NotifyTracer s"

definition console_puts :: "string \<Rightarrow> 'd uartrx \<Rightarrow> 'd uartrx" where
  "console_puts t s = rx_do (Say t) s"

definition console_puthex32 :: "u32 \<Rightarrow> 'd uartrx \<Rightarrow> 'd uartrx" where
  "console_puthex32 val s = fold console_putc (hex_nibbles (ucast val) 8) (console_puts ''0x'' s)"

definition console_puthex64 :: "u64 \<Rightarrow> 'd uartrx \<Rightarrow> 'd uartrx" where
  "console_puthex64 val s = fold console_putc (hex_nibbles val 16) (console_puts ''0x'' s)"

definition console_putdec :: "u64 \<Rightarrow> 'd uartrx \<Rightarrow> 'd uartrx" where
  "console_putdec val s = console_puts (put_dec val) s"

definition prompt :: "'d uartrx \<Rightarrow> 'd uartrx" where
  "prompt s = console_flush (console_puts ''> '' s)"

definition log_uart_reg :: "'d rx_platform \<Rightarrow> string \<Rightarrow> u64 \<Rightarrow> 'd uartrx \<Rightarrow> 'd uartrx" where
  "log_uart_reg P name reg s0 =
     (let s1 = console_puts ''UARTRX|INFO: '' s0;
          s2 = console_puts name s1;
          s3 = console_puts '' '' s2;
          (v, s4) = uart_read (rp_machine P) reg s3
      in console_puts [NL] (console_puthex32 v s4))"

definition log_uart_config :: "'d rx_platform \<Rightarrow> 'd uartrx \<Rightarrow> 'd uartrx" where
  "log_uart_config P s =
     console_flush (log_uart_reg P ''UINTM'' EXYNOS_UART_UINTM (log_uart_reg P ''UFCON'' EXYNOS_UART_UFCON
       (log_uart_reg P ''UCON'' EXYNOS_UART_UCON (log_uart_reg P ''ULCON'' EXYNOS_UART_ULCON s))))"

definition rx_ready :: "'d rx_platform \<Rightarrow> 'd uartrx \<Rightarrow> bool \<times> 'd uartrx" where
  "rx_ready P s =
     (let (ufcon, s1) = uart_read (rp_machine P) EXYNOS_UART_UFCON s
      in if ufcon AND EXYNOS_UART_UFCON_FIFOMODE \<noteq> 0
         then let (ufstat, s2) = uart_read (rp_machine P) EXYNOS_UART_UFSTAT s1
              in (ufstat AND EXYNOS_UART_UFSTAT_RXCOUNT \<noteq> 0 \<or> ufstat AND EXYNOS_UART_UFSTAT_RXFULL \<noteq> 0, s2)
         else let (utrstat, s2) = uart_read (rp_machine P) EXYNOS_UART_UTRSTAT s1
              in (utrstat AND EXYNOS_UART_UTRSTAT_RXDR \<noteq> 0, s2))"

section \<open>Commands\<close>

definition cmd_help :: "'d uartrx \<Rightarrow> 'd uartrx" where
  "cmd_help s = fold (\<lambda>t. console_puts (t @ [NL]))
     [''commands:'',
      ''  help         this list'',
      ''  ping         answers pong'',
      ''  trace-dump   print every trace record recorded so far'',
      ''  guest-start [linux | harness N] [vcpu K]  start a guest from a fresh image (refused while one runs)'',
      ''               vcpu 0 = CPU 3 (A520), 1 = CPU 6 (A720), 2 = CPU 7 (X4); 1 and 2 only in the lab build'',
      ''  guest-stop   stop the running guest (refused if none is running)'',
      ''  status       show whether the guest is running, and why it stopped'',
      ''  guest-regs   print the guest vCPU's registers (stalls the vCPU's core)'',
      ''  gic-dump     print every core's GIC redistributor state (debug kernel)'',
      ''  pc-sample    sample every core's PC, EL and security state via CoreSight'',
      ''  tlbi-stress  10M broadcast TLB invalidations from CPU 2 (debug kernel)''] s"

definition cmd_ping :: "'d uartrx \<Rightarrow> 'd uartrx" where
  "cmd_ping s = console_puts (''pong'' @ [NL]) s"

definition vmm_phase_name :: "u64 \<Rightarrow> string" where
  "vmm_phase_name phase =
     (if phase = phase_code VMM_PHASE_IDLE then ''idle in its event loop''
      else if phase = phase_code VMM_PHASE_FAULT then ''inside fault()''
      else if phase = phase_code VMM_PHASE_NOTIFIED then ''inside notified()''
      else ''in an unknown phase'')"

definition crumb_load :: "'d rx_platform \<Rightarrow> (vmm_breadcrumb \<Rightarrow> u64) \<Rightarrow> 'd uartrx \<Rightarrow> u64 \<times> 'd uartrx" where
  "crumb_load P f s = (let s1 = load_cmd P s in (f (cq_breadcrumb (rx_cmd s1)), s1))"

definition report_vmm_breadcrumb :: "'d rx_platform \<Rightarrow> 'd uartrx \<Rightarrow> 'd uartrx" where
  "report_vmm_breadcrumb P s0 =
     (let (seq, s1) = crumb_load P bc_seq s0;
          (since, s2) = crumb_load P bc_since s1;
          (now, s3) = cntpct (rp_machine P) s2;
          ms = (now - since) div (mc_cntfrq (rp_machine P) div 1000);
          s4 = console_puts ''UARTRX|WARN: VMM breadcrumb: '' s3;
          (phase, s5) = crumb_load P bc_phase s4;
          s6 = console_puts '' for '' (console_puts (vmm_phase_name phase) s5);
          s7 = console_puts '' ms, label/ch '' (console_putdec ms s6);
          (label, s8) = crumb_load P bc_label s7;
          s9 = console_puts '' mr0 '' (console_putdec label s8);
          (mr0, s10) = crumb_load P bc_mr0 s9;
          s11 = console_puts '' mr1 '' (console_puthex64 mr0 s10);
          (mr1, s12) = crumb_load P bc_mr1 s11;
          s13 = console_puts '', seq '' (console_puthex64 mr1 s12);
          s14 = console_puts '', console waits '' (console_putdec seq s13);
          (waits, s15) = crumb_load P bc_console_waits s14
      in console_puts [NL] (console_putdec waits s15))"

partial_function (option) wait_loop :: "'d rx_platform \<Rightarrow> u64 \<Rightarrow> u64 \<Rightarrow> 'd uartrx \<Rightarrow> (bool \<times> 'd uartrx) option" where
  "wait_loop P i deadline s =
     (if cq_completed_id (rx_cmd (load_cmd P s)) < i
      then (case cntpct (rp_machine P) (load_cmd P s) of
              (now, s2) \<Rightarrow> if deadline < now then Some (False, s2) else wait_loop P i deadline s2)
      else Some (True, load_cmd P s))"

definition wait_for_vmm :: "'d rx_platform \<Rightarrow> u64 \<Rightarrow> 'd uartrx \<Rightarrow> (bool \<times> 'd uartrx) option" where
  "wait_for_vmm P i s =
     (let (now, s1) = cntpct (rp_machine P) s;
          deadline = now + mc_cntfrq (rp_machine P) div 1000 * VMM_REPLY_TIMEOUT_MS
      in wait_loop P i deadline s1)"

definition cmd_to_vmm :: "'d rx_platform \<Rightarrow> u64 \<Rightarrow> u64 \<Rightarrow> 'd uartrx \<Rightarrow> 'd uartrx option" where
  "cmd_to_vmm P i verb s =
     (let head = cq_head (rx_cmd s);
          s1 = load_cmd P s
      in if of_nat CMD_RING_CAPACITY \<le> head - cq_tail (rx_cmd s1)
         then Some (console_puts (''UARTRX|ERROR: the VMM has too many commands queued; command dropped'' @ [NL]) s1)
         else do {
           let e = \<lparr>ce_id = i, ce_verb = verb, ce_arg = rx_command_arg s1\<rparr>;
           let s2 = s1\<lparr>rx_cmd := (rx_cmd s1)\<lparr>cq_entries := (cq_entries (rx_cmd s1))(cmd_slot head := e)\<rparr>\<rparr>;
           let s3 = s2\<lparr>rx_cmd := (rx_cmd s2)\<lparr>cq_head := head + 1\<rparr>\<rparr>;
           (finished, s4) \<leftarrow> wait_for_vmm P i (rx_do NotifyVmm s3);
           if finished then Some s4
           else Some (report_vmm_breadcrumb P (console_puts ('' within 2 s'' @ [NL])
                  (console_putdec i (console_puts ''UARTRX|WARN: the VMM did not finish command '' s4))))
         })"

definition cmd_pc_sample :: "'d rx_platform \<Rightarrow> 'd uartrx \<Rightarrow> 'd uartrx option" where
  "cmd_pc_sample P s =
     cs_sample_all (rp_machine P) (\<lambda>t s. Some (console_puts t s))
       (console_puts (''sampling every core's PC through CoreSight (exynos-coresight sequence)'' @ [NL]) s)"

definition tlbi_stress_progress :: "nat \<Rightarrow> u64 \<Rightarrow> 'd uartrx \<Rightarrow> 'd uartrx" where
  "tlbi_stress_progress batches worst s =
     console_flush (console_puts ('' ticks'' @ [NL]) (console_putdec worst
       (console_puts '' broadcast invalidations completed, worst tlbi+dsb ''
         (console_putdec (of_nat batches * ucast TLBI_STRESS_BATCH) (console_puts ''tlbi-stress: '' s)))))"

definition tlbi_stress_batch :: "'d rx_platform \<Rightarrow> nat \<Rightarrow> u64 \<times> 'd uartrx \<Rightarrow> u64 \<times> 'd uartrx" where
  "tlbi_stress_batch P batch = (\<lambda>(worst, s).
     let (batch_worst, d) = rp_tlbi_stress P TLBI_STRESS_BATCH (io_dev s);
         s1 = s\<lparr>io_dev := d\<rparr>;
         worst1 = (if worst < batch_worst then batch_worst else worst)
     in (worst1, if batch mod TLBI_STRESS_REPORT_EVERY = 0 then tlbi_stress_progress batch worst1 s1 else s1))"

definition cmd_tlbi_stress :: "'d rx_platform \<Rightarrow> 'd uartrx \<Rightarrow> 'd uartrx" where
  "cmd_tlbi_stress P s =
     (let s1 = console_flush (console_puts (''tlbi-stress: tlbi vaale1is + dsb ish from CPU 2 in the kernel; don't type until it finishes'' @ [NL]) s);
          (worst, s2) = fold (tlbi_stress_batch P) [1..<TLBI_STRESS_BATCHES + 1] (0, s1)
      in console_puts (''tlbi-stress: done'' @ [NL]) s2)"

definition cmd_gic_dump :: "'d uartrx \<Rightarrow> 'd uartrx" where
  "cmd_gic_dump s =
     rx_do GICDump (console_flush (console_puts (''dumping GIC state; the kernel prints it directly'' @ [NL]) s))"

definition cmd_trace_dump :: "'d uartrx \<Rightarrow> 'd uartrx" where
  "cmd_trace_dump s = (let s1 = console_puts (''dumping trace'' @ [NL]) s in s1\<lparr>rx_dump_requests := rx_dump_requests s1 + 1\<rparr>)"

datatype handler = CmdHelp | CmdPing | CmdTraceDump | CmdToVmm | CmdGicDump | CmdPcSample | CmdTlbiStress

record command =
  co_name :: string
  co_verb :: u64
  co_run :: handler

definition commands :: "command list" where
  "commands =
     [\<lparr>co_name = ''help'', co_verb = TRACE_CMD_VERB_HELP, co_run = CmdHelp\<rparr>,
      \<lparr>co_name = ''ping'', co_verb = TRACE_CMD_VERB_PING, co_run = CmdPing\<rparr>,
      \<lparr>co_name = ''trace-dump'', co_verb = TRACE_CMD_VERB_TRACE_DUMP, co_run = CmdTraceDump\<rparr>,
      \<lparr>co_name = ''guest-start'', co_verb = TRACE_CMD_VERB_GUEST_START, co_run = CmdToVmm\<rparr>,
      \<lparr>co_name = ''guest-stop'', co_verb = TRACE_CMD_VERB_GUEST_STOP, co_run = CmdToVmm\<rparr>,
      \<lparr>co_name = ''status'', co_verb = TRACE_CMD_VERB_STATUS, co_run = CmdToVmm\<rparr>,
      \<lparr>co_name = ''guest-regs'', co_verb = TRACE_CMD_VERB_GUEST_REGS, co_run = CmdToVmm\<rparr>,
      \<lparr>co_name = ''gic-dump'', co_verb = TRACE_CMD_VERB_GIC_DUMP, co_run = CmdGicDump\<rparr>,
      \<lparr>co_name = ''pc-sample'', co_verb = TRACE_CMD_VERB_PC_SAMPLE, co_run = CmdPcSample\<rparr>,
      \<lparr>co_name = ''tlbi-stress'', co_verb = TRACE_CMD_VERB_TLBI_STRESS, co_run = CmdTlbiStress\<rparr>]"

fun run_handler :: "'d rx_platform \<Rightarrow> handler \<Rightarrow> u64 \<Rightarrow> u64 \<Rightarrow> 'd uartrx \<Rightarrow> 'd uartrx option" where
  "run_handler P CmdHelp i verb s = Some (cmd_help s)"
| "run_handler P CmdPing i verb s = Some (cmd_ping s)"
| "run_handler P CmdTraceDump i verb s = Some (cmd_trace_dump s)"
| "run_handler P CmdToVmm i verb s = cmd_to_vmm P i verb s"
| "run_handler P CmdGicDump i verb s = Some (cmd_gic_dump s)"
| "run_handler P CmdPcSample i verb s = cmd_pc_sample P s"
| "run_handler P CmdTlbiStress i verb s = Some (cmd_tlbi_stress P s)"

fun lookup_in :: "command list \<Rightarrow> string \<Rightarrow> command option" where
  "lookup_in [] verb = None"
| "lookup_in (c # cs) verb = (if word_is verb (co_name c) then Some c else lookup_in cs verb)"

definition lookup :: "string \<Rightarrow> command option" where
  "lookup verb = lookup_in commands verb"

definition cmd_record :: "u64 \<Rightarrow> u64 \<Rightarrow> u8 \<Rightarrow> u64 \<Rightarrow> trace_record" where
  "cmd_record verb i flags arg =
     zero_record\<lparr>tr_pc := arg, tr_addr := verb, tr_value := i, tr_kind := TRACE_KIND_CMD, tr_flags := flags\<rparr>"

definition record_command :: "u64 \<Rightarrow> u64 \<Rightarrow> u8 \<Rightarrow> u64 \<Rightarrow> 'd uartrx \<Rightarrow> 'd uartrx" where
  "record_command verb i flags arg s = rx_do (EmitRecord (cmd_record verb i flags arg)) s"

definition report_line_errors :: "'d uartrx \<Rightarrow> 'd uartrx" where
  "report_line_errors s =
     (if rx_line_errors s \<noteq> 0
      then console_puts [NL] (console_puthex32 (rx_line_errors s)
             (console_puts ''UARTRX|WARN: receive errors on this line, UERSTAT '' s))
      else s)"

definition run_line :: "'d rx_platform \<Rightarrow> string \<Rightarrow> 'd uartrx \<Rightarrow> 'd uartrx option" where
  "run_line P line s =
     (let l1 = drop (skip_spaces line) line;
          l = take (trim_spaces l1 (length l1)) l1
      in if l = [] then Some s
         else let i = rx_commands_received s + 1;
                  s1 = s\<lparr>rx_commands_received := i\<rparr>;
                  verb_len = token_len l;
                  args_at = verb_len + skip_spaces (drop verb_len l)
              in case lookup (take verb_len l) of
                   None \<Rightarrow> Some (console_puts (''unknown command; type help'' @ [NL])
                             (record_command TRACE_CMD_VERB_NONE i TRACE_CMD_REJECTED_VERB 0 s1))
                 | Some cmd \<Rightarrow>
                     (case parse_args (co_verb cmd) (drop args_at l) of
                        (ok, arg) \<Rightarrow>
                          let s2 = s1\<lparr>rx_command_arg := arg\<rparr>
                          in if \<not> ok
                             then Some (console_puts (''bad arguments; type help'' @ [NL])
                                    (record_command (co_verb cmd) i TRACE_CMD_REJECTED_ARGS 0 s2))
                             else run_handler P (co_run cmd) i (co_verb cmd)
                                    (record_command (co_verb cmd) i TRACE_CMD_ACCEPTED (rx_command_arg s2) s2)))"

section \<open>The line editor\<close>

definition end_line :: "'d rx_platform \<Rightarrow> 'd uartrx \<Rightarrow> 'd uartrx option" where
  "end_line P s = do {
     let s1 = report_line_errors (console_puts [NL] s);
     s2 \<leftarrow> run_line P (take (rx_line_len s1) (rx_line s1)) s1;
     Some (prompt (s2\<lparr>rx_line_len := 0, rx_line_errors := 0\<rparr>))
   }"

definition erase_char :: "'d uartrx \<Rightarrow> 'd uartrx" where
  "erase_char s =
     (if 0 < rx_line_len s
      then console_flush (console_puts (CHR 0x08 # '' '' @ [CHR 0x08]) (s\<lparr>rx_line_len := rx_line_len s - 1\<rparr>))
      else s)"

definition add_char :: "char \<Rightarrow> 'd uartrx \<Rightarrow> 'd uartrx" where
  "add_char c s =
     (if rx_line_len s = LINE_MAX then s
      else console_flush (console_putc c
             (s\<lparr>rx_line := (rx_line s)[rx_line_len s := c], rx_line_len := rx_line_len s + 1\<rparr>)))"

definition rx_byte :: "'d rx_platform \<Rightarrow> u8 \<Rightarrow> u32 \<Rightarrow> 'd uartrx \<Rightarrow> 'd uartrx option" where
  "rx_byte P c uerstat s =
     (let after_cr = rx_last_was_cr s;
          s1 = s\<lparr>rx_last_was_cr := (c = 0x0d), rx_line_errors := rx_line_errors s OR uerstat\<rparr>
      in if c = 0x0a \<and> after_cr then Some s1
         else if c = 0x0d \<or> c = 0x0a then end_line P s1
         else if c = ASCII_BS \<or> c = ASCII_DEL then Some (erase_char s1)
         else if 0x20 \<le> c \<and> c < 0x7f then Some (add_char (char_of_byte c) s1)
         else Some s1)"

text \<open>One turn of the polling loop; \<open>init\<close> up to it; \<open>notified\<close> does nothing.\<close>

definition rx_poll :: "'d rx_platform \<Rightarrow> 'd uartrx \<Rightarrow> 'd uartrx option" where
  "rx_poll P s =
     (let (r, s1) = rx_ready P s
      in if r
         then let (uerstat, s2) = uart_read (rp_machine P) EXYNOS_UART_UERSTAT s1;
                  (urxh, s3) = uart_read (rp_machine P) EXYNOS_UART_URXH s2
              in rx_byte P (ucast (urxh AND 0xff)) uerstat s3
         else Some s1)"

definition uartrx_init :: "'d rx_platform \<Rightarrow> 'd uartrx \<Rightarrow> 'd uartrx" where
  "uartrx_init P s = prompt (log_uart_config P s)"

definition uartrx_boot :: "'d \<Rightarrow> cmd_ring \<Rightarrow> 'd uartrx" where
  "uartrx_boot d q = \<lparr>io_dev = d, io_log = [], rx_out = [], rx_line = replicate LINE_MAX NUL, rx_line_len = 0,
     rx_line_errors = 0, rx_last_was_cr = False, rx_commands_received = 0, rx_command_arg = 0, rx_cmd = q,
     rx_dump_requests = 0\<rparr>"

section \<open>What handlers leave alone\<close>

text \<open>The records emitted and the line editor's variables: nothing but the line editor and \<open>run_line\<close> changes them.\<close>

fun rx_emitted :: "rx_effect list \<Rightarrow> trace_record list" where
  "rx_emitted [] = []"
| "rx_emitted (EmitRecord r # es) = r # rx_emitted es"
| "rx_emitted (e # es) = rx_emitted es"

lemma rx_emitted_append [simp]: "rx_emitted (xs @ ys) = rx_emitted xs @ rx_emitted ys"
  by (induction xs rule: rx_emitted.induct) simp_all

type_synonym rx_view = "trace_record list \<times> string \<times> nat \<times> u32 \<times> bool \<times> u64"

definition view :: "'d uartrx \<Rightarrow> rx_view" where
  "view s = (rx_emitted (rx_out s), rx_line s, rx_line_len s, rx_line_errors s, rx_last_was_cr s, rx_commands_received s)"

named_theorems view_simps "operations that leave the view alone"

lemma view_do [view_simps]:
  "view (rx_do (Say t) s) = view s" "view (rx_do NotifyTracer s) = view s" "view (rx_do NotifyVmm s) = view s"
  "view (rx_do GICDump s) = view s"
  by (simp_all add: view_def rx_do_def)

lemma view_upd [view_simps]:
  "view (s\<lparr>io_dev := d\<rparr>) = view s" "view (s\<lparr>io_log := l\<rparr>) = view s" "view (s\<lparr>rx_cmd := q\<rparr>) = view s"
  "view (s\<lparr>rx_dump_requests := r\<rparr>) = view s" "view (s\<lparr>rx_command_arg := a\<rparr>) = view s"
  by (simp_all add: view_def)

lemma view_load [view_simps]: "view (load_cmd P s) = view s"
  by (simp add: load_cmd_def split_beta Let_def view_simps)

lemma view_io [view_simps]:
  "view (snd (read32 M a s)) = view s" "view (snd (read64 M a s)) = view s" "view (write32 M a v s) = view s"
  "view (snd (cntpct M s)) = view s" "view (snd (uart_read M r s)) = view s"
  by (simp_all add: read32_def read64_def write32_def cntpct_def uart_read_def split_beta Let_def view_simps)

lemma view_console [view_simps]:
  "view (console_putc c s) = view s" "view (console_puts t s) = view s" "view (console_flush s) = view s"
  "view (console_putdec v s) = view s" "view (prompt s) = view s"
  by (simp_all add: console_putc_def console_puts_def console_flush_def console_putdec_def prompt_def view_simps)

lemma view_fold: "(\<And>x s. view (f x s) = view s) \<Longrightarrow> view (fold f xs s) = view s"
  by (induction xs arbitrary: s) simp_all

lemma view_hex [view_simps]: "view (console_puthex32 v s) = view s" "view (console_puthex64 w s) = view s"
  by (simp_all add: console_puthex32_def console_puthex64_def view_fold view_simps)

lemma view_crumb [view_simps]: "view (snd (crumb_load P f s)) = view s"
  by (simp add: crumb_load_def Let_def view_simps)

lemma view_breadcrumb [view_simps]: "view (report_vmm_breadcrumb P s) = view s"
  by (simp add: report_vmm_breadcrumb_def Let_def split_beta view_simps)

lemma view_log_reg [view_simps]: "view (log_uart_reg P n r s) = view s"
  by (simp add: log_uart_reg_def Let_def split_beta view_simps)

lemma view_init: "view (uartrx_init P s) = view s"
  by (simp add: uartrx_init_def log_uart_config_def view_simps)

lemma view_ready [view_simps]: "view (snd (rx_ready P s)) = view s"
  by (simp add: rx_ready_def Let_def split_beta view_simps)

lemma view_tlbi [view_simps]: "view (cmd_tlbi_stress P s) = view s"
proof -
  have b: "view (snd (tlbi_stress_batch P b ws)) = view (snd ws)" for b ws
    by (simp add: tlbi_stress_batch_def tlbi_stress_progress_def split_beta Let_def view_simps)
  have "view (snd (fold (tlbi_stress_batch P) bs ws)) = view (snd ws)" for bs ws
    by (induction bs arbitrary: ws) (simp_all add: b)
  then show ?thesis by (simp add: cmd_tlbi_stress_def split_beta Let_def view_simps del: upt_Suc)
qed

text \<open>The waiting loop, unrolled: it ends when the completed id has caught up or the deadline has passed.\<close>

lemma wait_loop_induct [consumes 1, case_names completed timeout again]:
  assumes "wait_loop P i deadline s = Some r"
    and completed: "\<And>s. \<not> cq_completed_id (rx_cmd (load_cmd P s)) < i \<Longrightarrow> Q s (True, load_cmd P s)"
    and timeout: "\<And>s now s2. cq_completed_id (rx_cmd (load_cmd P s)) < i \<Longrightarrow> cntpct (rp_machine P) (load_cmd P s) = (now, s2)
        \<Longrightarrow> deadline < now \<Longrightarrow> Q s (False, s2)"
    and again: "\<And>s now s2 r. cq_completed_id (rx_cmd (load_cmd P s)) < i \<Longrightarrow> cntpct (rp_machine P) (load_cmd P s) = (now, s2)
        \<Longrightarrow> \<not> deadline < now \<Longrightarrow> Q s2 r \<Longrightarrow> Q s r"
  shows "Q s r"
proof -
  let ?R = "\<lambda>(((P', i'), dl'), s) r. P' = P \<and> i' = i \<and> dl' = deadline \<longrightarrow> Q s r"
  have "?R (((P, i), deadline), s) r"
  proof (rule wait_loop.raw_induct [OF _ assms(1)])
    fix f :: "'a rx_platform \<Rightarrow> u64 \<Rightarrow> u64 \<Rightarrow> 'a uartrx \<Rightarrow> (bool \<times> 'a uartrx) option" and P' i' dl' s r
    assume IH: "\<And>P' i' dl' s r. f P' i' dl' s = Some r \<Longrightarrow> ?R (((P', i'), dl'), s) r"
      and eq: "(if cq_completed_id (rx_cmd (load_cmd P' s)) < i'
        then (case cntpct (rp_machine P') (load_cmd P' s) of (now, s2) \<Rightarrow> if dl' < now then Some (False, s2) else f P' i' dl' s2)
        else Some (True, load_cmd P' s)) = Some r"
    obtain now s2 where c: "cntpct (rp_machine P') (load_cmd P' s) = (now, s2)" by fastforce
    show "?R (((P', i'), dl'), s) r"
      using eq c IH [of P' i' dl' s2 r] completed [of s] timeout [of s now s2] again [of s now s2 r] by (auto split: if_splits)
  qed
  then show ?thesis by simp
qed

lemma view_wait: "wait_loop P i deadline s = Some r \<Longrightarrow> view (snd r) = view s"
proof (induction rule: wait_loop_induct)
  case (completed s)
  then show ?case by (simp add: view_simps)
next
  case (timeout s now s2)
  then show ?case using view_io(4) [of "rp_machine P" "load_cmd P s"] by (simp add: view_simps)
next
  case (again s now s2 r)
  then show ?case using view_io(4) [of "rp_machine P" "load_cmd P s"] by (simp add: view_simps)
qed

lemma view_wait_for: "wait_for_vmm P i s = Some r \<Longrightarrow> view (snd r) = view s"
  using view_wait view_io(4) by (fastforce simp: wait_for_vmm_def split_beta Let_def)

lemma view_to_vmm: "cmd_to_vmm P i verb s = Some s' \<Longrightarrow> view s' = view s"
  by (auto simp: cmd_to_vmm_def Let_def view_simps split: if_splits bind_splits dest!: view_wait_for)

text \<open>The console is a printer CoreSight sampling may use, and sampling leaves the view alone.\<close>

interpretation rx: cs_total_printer "\<lambda>t s. Some (console_puts t s)"
  by unfold_locales (auto simp: console_puts_def rx_do_def)

interpretation rx_view: cs_discipline M "\<lambda>t s. Some (console_puts t s)" "\<lambda>s s'. view s' = view s" for M
  by unfold_locales (auto simp: view_simps)

lemma view_handler: "run_handler P h i verb s = Some s' \<Longrightarrow> view s' = view s"
proof (cases h)
  case CmdToVmm
  then show "run_handler P h i verb s = Some s' \<Longrightarrow> view s' = view s" by (simp add: view_to_vmm)
next
  case CmdPcSample
  then show "run_handler P h i verb s = Some s' \<Longrightarrow> view s' = view s"
    using rx_view.R_sample_all by (fastforce simp: cmd_pc_sample_def view_simps)
qed (auto simp: cmd_help_def cmd_ping_def cmd_trace_dump_def cmd_gic_dump_def Let_def view_simps)

section \<open>From bytes to records\<close>

text \<open>
  The specification: an editor on a list of characters that turns received bytes into lines, and the record each
  non-blank line is owed, with ids counted up from the number of commands received so far.
\<close>

definition type_byte :: "u8 \<Rightarrow> bool \<times> string \<Rightarrow> (bool \<times> string) \<times> string list" where
  "type_byte c = (\<lambda>(after_cr, cur).
     if c = 0x0a \<and> after_cr then ((False, cur), [])
     else if c = 0x0d \<or> c = 0x0a then ((c = 0x0d, []), [cur])
     else if c = ASCII_BS \<or> c = ASCII_DEL then ((False, butlast cur), [])
     else if 0x20 \<le> c \<and> c < 0x7f \<and> length cur < LINE_MAX then ((False, cur @ [char_of_byte c]), [])
     else ((False, cur), []))"

fun typed_lines :: "bool \<times> string \<Rightarrow> u8 list \<Rightarrow> string list" where
  "typed_lines st [] = []"
| "typed_lines st (c # cs) = (case type_byte c st of (st', ls) \<Rightarrow> ls @ typed_lines st' cs)"

definition command_verb :: "string \<Rightarrow> u64 option" where
  "command_verb v = map_of (map (\<lambda>c. (co_name c, co_verb c)) commands) v"

definition args_spec :: "u64 \<Rightarrow> string list \<Rightarrow> u64 option" where
  "args_spec verb args = (if verb = TRACE_CMD_VERB_GUEST_START then select_spec args else if args = [] then Some 0 else None)"

definition line_record :: "u64 \<Rightarrow> string \<Rightarrow> trace_record" where
  "line_record i l =
     (case command_verb (hd (words l)) of
        None \<Rightarrow> cmd_record TRACE_CMD_VERB_NONE i TRACE_CMD_REJECTED_VERB 0
      | Some verb \<Rightarrow>
          (case args_spec verb (tl (words l)) of
             None \<Rightarrow> cmd_record verb i TRACE_CMD_REJECTED_ARGS 0
           | Some arg \<Rightarrow> cmd_record verb i TRACE_CMD_ACCEPTED arg))"

fun line_records :: "u64 \<Rightarrow> string list \<Rightarrow> trace_record list" where
  "line_records n [] = []"
| "line_records n (l # ls) = (if words l = [] then line_records n ls else line_record (n + 1) l # line_records (n + 1) ls)"

definition command_count :: "string list \<Rightarrow> u64" where
  "command_count ls = of_nat (length (filter (\<lambda>l. words l \<noteq> []) ls))"

lemma line_records_append: "line_records n (ls @ ms) = line_records n ls @ line_records (n + command_count ls) ms"
  by (induction n ls rule: line_records.induct) (auto simp: command_count_def add.assoc)

lemma lookup_verb: "command_verb v = map_option co_verb (lookup v)"
proof -
  have "map_of (map (\<lambda>c. (co_name c, co_verb c)) cs) v = map_option co_verb (lookup_in cs v)" for cs
    by (induction cs) auto
  then show ?thesis by (simp add: command_verb_def lookup_def)
qed

text \<open>The stripping loops leave a line without outer spaces and with the same words.\<close>

definition stripped :: "string \<Rightarrow> string" where
  "stripped line = (let l1 = drop (skip_spaces line) line in take (trim_spaces l1 (length l1)) l1)"

lemma stripped_spec: "trimmed (stripped line)" "words (stripped line) = words line"
proof -
  let ?l1 = "drop (skip_spaces line) line"
  have l1: "?l1 = dropWhile (\<lambda>c. c = CHR '' '') line" by (rule drop_spaces)
  obtain sp where sp: "?l1 = stripped line @ sp" "\<forall>c \<in> set sp. c = CHR '' ''" "trim_spaces ?l1 (length ?l1) \<le> length ?l1"
      "trim_spaces ?l1 (length ?l1) \<noteq> 0 \<longrightarrow> ?l1 ! (trim_spaces ?l1 (length ?l1) - 1) \<noteq> CHR '' ''"
    using trim_spaces_spec [of "length ?l1" ?l1] unfolding stripped_def Let_def by (metis order_refl take_all)
  have hd: "hd ?l1 \<noteq> CHR '' ''" if "?l1 \<noteq> []" using that hd_dropWhile unfolding l1 by blast
  show "trimmed (stripped line)"
  proof (cases "stripped line = []")
    case False
    have st: "stripped line = take (trim_spaces ?l1 (length ?l1)) ?l1" by (simp only: stripped_def Let_def)
    then have n: "trim_spaces ?l1 (length ?l1) \<noteq> 0" and ne: "?l1 \<noteq> []" using False by auto
    have "last (stripped line) = ?l1 ! (trim_spaces ?l1 (length ?l1) - 1)"
      unfolding st using n sp(3) ne by (subst last_conv_nth) auto
    moreover have "hd (stripped line) = hd ?l1" using sp(1) False by (metis hd_append2)
    ultimately show ?thesis using sp(4) n hd [OF ne] by (simp add: trimmed_def)
  qed (simp add: trimmed_def)
  have "words ?l1 = words line"
  proof -
    have "words_from [] (dropWhile (\<lambda>c. c = CHR '' '') t) = words_from [] t" for t by (induction t) auto
    then show ?thesis by (simp add: l1 words_def)
  qed
  then show "words (stripped line) = words line" using sp(1) words_rtrim [OF sp(2), of "stripped line"] by simp
qed

lemma run_line_stripped:
  fixes line
  defines "l \<equiv> stripped line"
  assumes "l \<noteq> []"
  shows "run_line P line s = (case lookup (first_word l) of
      None \<Rightarrow> Some (console_puts (''unknown command; type help'' @ [NL])
        (record_command TRACE_CMD_VERB_NONE (rx_commands_received s + 1) TRACE_CMD_REJECTED_VERB 0
          (s\<lparr>rx_commands_received := rx_commands_received s + 1\<rparr>)))
    | Some cmd \<Rightarrow> (case parse_args (co_verb cmd) (after_word l) of (ok, arg) \<Rightarrow>
        let i = rx_commands_received s + 1; s2 = s\<lparr>rx_commands_received := i\<rparr>\<lparr>rx_command_arg := arg\<rparr>
        in if \<not> ok then Some (console_puts (''bad arguments; type help'' @ [NL]) (record_command (co_verb cmd) i TRACE_CMD_REJECTED_ARGS 0 s2))
           else run_handler P (co_run cmd) i (co_verb cmd) (record_command (co_verb cmd) i TRACE_CMD_ACCEPTED (rx_command_arg s2) s2)))"
  using assms(2) drop_rest [of l] take_token [of l]
  unfolding run_line_def Let_def l_def stripped_def first_word_def by (simp only: if_False Let_def)

lemma stripped_trimmed: "trimmed l \<Longrightarrow> stripped l = l"
proof (cases "l = []")
  case False
  assume "trimmed l"
  with False have "skip_spaces l = 0" "last l \<noteq> CHR '' ''" by (cases l; simp add: trimmed_def)+
  moreover have "trim_spaces l (length l) = length l"
    using False calculation(2) by (cases "length l") (auto simp: last_conv_nth)
  ultimately show ?thesis by (simp add: stripped_def)
qed (simp add: stripped_def)

lemma run_line_view:
  assumes "run_line P line s = Some s'" and "view s = (rs, ln, len, er, cr, n)"
  shows "view s' = (if words line = [] then view s else (rs @ [line_record (n + 1) line], ln, len, er, cr, n + 1))"
proof (cases "words line = []")
  case True
  then have "stripped line = []" using stripped_spec [of line] words_eq_Nil by metis
  then show ?thesis using assms True by (simp add: run_line_def stripped_def Let_def)
next
  case False
  let ?l = "stripped line"
  have t: "trimmed ?l" and w: "words ?l = words line" by (rule stripped_spec)+
  have ne: "?l \<noteq> []" using False w by auto
  have ws: "words line = first_word ?l # words (after_word ?l)" using words_unfold [of ?l] ne t w by (simp add: trimmed_def)
  have n: "rx_commands_received s = n" using assms(2) by (simp add: view_def)
  let ?i = "n + 1"
  let ?s1 = "s\<lparr>rx_commands_received := ?i\<rparr>"
  have v1: "view ?s1 = (rs, ln, len, er, cr, ?i)" using assms(2) by (simp add: view_def)
  have rec: "view (record_command v i f a u) = (x @ [cmd_record v i f a], y)" if "view u = (x, y)" for v i f a x y and u :: "'a uartrx"
    using that by (simp add: view_def record_command_def rx_do_def)
  note run = run_line_stripped [OF ne, of P s, unfolded n Let_def]
  show ?thesis
  proof (cases "lookup (first_word ?l)")
    case None
    then have "line_record ?i line = cmd_record TRACE_CMD_VERB_NONE ?i TRACE_CMD_REJECTED_VERB 0"
      by (simp add: line_record_def ws lookup_verb)
    then show ?thesis using assms(1) run None False rec [OF v1] by (auto simp: view_simps)
  next
    case (Some cmd)
    obtain ok arg where pa: "parse_args (co_verb cmd) (after_word ?l) = (ok, arg)" by fastforce
    have args: "args_spec (co_verb cmd) (words (after_word ?l)) = (if ok then Some arg else None)"
      using pa parse_guest_select_words [OF after_word_trimmed [OF t], of 0] words_eq_Nil [OF after_word_trimmed [OF t]]
      by (auto simp: parse_args_def args_spec_def split: if_splits)
    then have lr: "line_record ?i line = (if ok then cmd_record (co_verb cmd) ?i TRACE_CMD_ACCEPTED arg
        else cmd_record (co_verb cmd) ?i TRACE_CMD_REJECTED_ARGS 0)"
      using Some by (simp add: line_record_def ws lookup_verb)
    have v2: "view (?s1\<lparr>rx_command_arg := arg\<rparr>) = (rs, ln, len, er, cr, ?i)" using v1 by (simp add: view_simps)
    show ?thesis
      using assms(1) run Some pa lr False rec [OF v2] by (auto simp: view_simps split: if_splits dest!: view_handler)
  qed
qed

text \<open>The editor's buffer stays in bounds; \<open>cur\<close> is the line typed so far.\<close>

definition rx_ok :: "'d uartrx \<Rightarrow> bool" where
  "rx_ok s \<longleftrightarrow> length (rx_line s) = LINE_MAX \<and> rx_line_len s \<le> LINE_MAX"

definition cur :: "'d uartrx \<Rightarrow> string" where
  "cur s = take (rx_line_len s) (rx_line s)"

text \<open>What the editor and the records amount to, as one value.\<close>

definition rx_summary :: "'d uartrx \<Rightarrow> trace_record list \<times> u64 \<times> bool \<times> string" where
  "rx_summary s = (rx_emitted (rx_out s), rx_commands_received s, rx_last_was_cr s, cur s)"

lemma view_summary: "view s' = view s \<Longrightarrow> rx_summary s' = rx_summary s \<and> rx_ok s' = rx_ok s"
  by (simp add: view_def rx_summary_def cur_def rx_ok_def)

lemma end_line_summary:
  assumes "end_line P s = Some s'" and "rx_ok s" and "rx_summary s = (rs, n, cr, l)"
  shows "rx_ok s' \<and> rx_summary s' = (rs @ line_records n [l], n + command_count [l], cr, [])"
proof -
  let ?s1 = "report_line_errors (console_puts [NL] s)"
  have v1: "view ?s1 = view s" by (simp add: report_line_errors_def view_simps)
  obtain ln len er where v: "view s = (rs, ln, len, er, cr, n)" and l: "l = take len ln" and ok: "length ln = LINE_MAX"
    using assms(2,3) by (auto simp: view_def rx_summary_def cur_def rx_ok_def)
  have "take (rx_line_len ?s1) (rx_line ?s1) = l" using v1 v l by (simp add: view_def)
  then obtain s2 where s2: "run_line P l ?s1 = Some s2" and s': "s' = prompt (s2\<lparr>rx_line_len := 0, rx_line_errors := 0\<rparr>)"
    using assms(1) by (auto simp: end_line_def Let_def split: bind_splits)
  have "view s2 = (if words l = [] then (rs, ln, len, er, cr, n) else (rs @ [line_record (n + 1) l], ln, len, er, cr, n + 1))"
    using run_line_view [OF s2, of rs ln len er cr n] v v1 by simp
  moreover have "view s' = view (s2\<lparr>rx_line_len := 0, rx_line_errors := 0\<rparr>)" by (simp add: s' view_simps)
  ultimately show ?thesis
    using ok by (auto simp: view_def rx_summary_def cur_def rx_ok_def command_count_def split: if_splits)
qed

lemma erase_char_summary:
  "rx_ok s \<Longrightarrow> rx_ok (erase_char s) \<and> rx_summary (erase_char s) = (rx_emitted (rx_out s), rx_commands_received s, rx_last_was_cr s, butlast (cur s))"
  by (auto simp: erase_char_def console_puts_def console_flush_def rx_do_def rx_ok_def rx_summary_def cur_def butlast_take)

lemma add_char_summary:
  assumes "rx_ok s"
  shows "rx_ok (add_char c s) \<and> rx_summary (add_char c s) = (rx_emitted (rx_out s), rx_commands_received s, rx_last_was_cr s,
    if length (cur s) < LINE_MAX then cur s @ [c] else cur s)"
proof (cases "rx_line_len s = LINE_MAX")
  case False
  then have "rx_line_len s < length (rx_line s)" using assms by (simp add: rx_ok_def)
  then have "take (Suc (rx_line_len s)) ((rx_line s)[rx_line_len s := c]) = take (rx_line_len s) (rx_line s) @ [c]"
    by (simp add: take_Suc_conv_app_nth)
  then show ?thesis using assms False
    by (simp add: add_char_def console_putc_def console_flush_def rx_do_def rx_ok_def rx_summary_def cur_def min_def)
qed (use assms in \<open>simp add: add_char_def rx_ok_def rx_summary_def cur_def\<close>)

lemma rx_byte_summary:
  assumes "rx_byte P c e s = Some s'" and "rx_ok s" and "rx_summary s = (rs, n, cr, l)" and "type_byte c (cr, l) = ((cr', l'), ls)"
  shows "rx_ok s' \<and> rx_summary s' = (rs @ line_records n ls, n + command_count ls, cr', l')"
proof -
  let ?s1 = "s\<lparr>rx_last_was_cr := (c = 0x0d), rx_line_errors := rx_line_errors s OR e\<rparr>"
  have ok: "rx_ok ?s1" and sm: "rx_summary ?s1 = (rs, n, c = 0x0d, l)" and cr: "rx_last_was_cr s = cr" and l: "cur s = l"
    using assms(2,3) by (auto simp: rx_ok_def rx_summary_def cur_def)
  have nil: "line_records n [] = []" "command_count [] = 0" by (simp_all add: command_count_def)
  consider "c = 0x0a \<and> cr" | "\<not> (c = 0x0a \<and> cr)" "c = 0x0d \<or> c = 0x0a" | "c = ASCII_BS \<or> c = ASCII_DEL"
    | "c \<noteq> 0x0a" "c \<noteq> 0x0d" "c \<noteq> ASCII_BS" "c \<noteq> ASCII_DEL" by blast
  then show ?thesis
  proof cases
    case 1
    then show ?thesis using assms ok sm cr nil by (auto simp: rx_byte_def type_byte_def)
  next
    case 2
    then have "end_line P ?s1 = Some s'" using assms(1) cr by (auto simp: rx_byte_def Let_def)
    from end_line_summary [OF this ok sm] show ?thesis using 2 assms(4) by (auto simp: type_byte_def)
  next
    case 3
    then have "s' = erase_char ?s1" using assms(1) by (auto simp: rx_byte_def Let_def)
    then show ?thesis using erase_char_summary [OF ok] sm 3 assms(4) nil by (auto simp: type_byte_def rx_summary_def)
  next
    case 4
    then have "s' = (if 0x20 \<le> c \<and> c < 0x7f then add_char (char_of_byte c) ?s1 else ?s1)"
      using assms(1) by (auto simp: rx_byte_def Let_def split: if_splits)
    then show ?thesis
      using add_char_summary [OF ok, of "char_of_byte c"] ok sm 4 assms(4) nil by (auto simp: type_byte_def rx_summary_def split: if_splits)
  qed
qed

definition rx_bytes :: "'d rx_platform \<Rightarrow> (u8 \<times> u32) list \<Rightarrow> 'd uartrx \<Rightarrow> 'd uartrx option" where
  "rx_bytes P bs s = for_each (\<lambda>(c, e). rx_byte P c e) bs s"

lemma rx_bytes_summary:
  "rx_bytes P bs s = Some s' \<Longrightarrow> rx_ok s \<Longrightarrow> rx_summary s = (rs, n, cr, l) \<Longrightarrow>
     rx_ok s' \<and> rx_emitted (rx_out s') = rs @ line_records n (typed_lines (cr, l) (map fst bs))"
  unfolding rx_bytes_def
proof (induction bs arbitrary: s rs n cr l)
  case Nil
  then show ?case by (simp add: rx_summary_def)
next
  case (Cons b bs)
  obtain c e where b: "b = (c, e)" by fastforce
  obtain cr' l' ls where ty: "type_byte c (cr, l) = ((cr', l'), ls)" by (metis prod.collapse)
  obtain s1 where s1: "rx_byte P c e s = Some s1" "for_each (\<lambda>(c, e). rx_byte P c e) bs s1 = Some s'"
    using Cons.prems(1) b by (auto split: bind_splits)
  from rx_byte_summary [OF s1(1) Cons.prems(2,3) ty]
  have "rx_ok s1" "rx_summary s1 = (rs @ line_records n ls, n + command_count ls, cr', l')" by auto
  from Cons.IH [OF s1(2) this] show ?case by (simp add: b ty line_records_append)
qed

text \<open>The domain takes bytes as long as waiting for the VMM comes to an end.\<close>

definition vmm_answers :: "'d rx_platform \<Rightarrow> bool" where
  "vmm_answers P \<longleftrightarrow> (\<forall>i s. \<exists>r. wait_for_vmm P i s = Some r)"

lemma run_handler_returns: "vmm_answers P \<Longrightarrow> \<exists>s'. run_handler P h i verb s = Some s'"
proof -
  assume "vmm_answers P"
  then have "\<exists>s'. cmd_to_vmm P i verb s = Some s'"
    unfolding cmd_to_vmm_def Let_def split_beta by (intro total_intros) (simp add: vmm_answers_def)
  then show ?thesis using rx.sample_all_total by (cases h) (simp_all add: cmd_pc_sample_def)
qed

lemma run_line_returns: "vmm_answers P \<Longrightarrow> \<exists>s'. run_line P line s = Some s'"
  unfolding run_line_def Let_def split_beta
  using run_handler_returns by (auto split: option.split prod.split)

lemma rx_byte_returns: "vmm_answers P \<Longrightarrow> \<exists>s'. rx_byte P c e s = Some s'"
  unfolding rx_byte_def end_line_def Let_def by (intro total_intros run_line_returns)

lemma rx_bytes_returns: "vmm_answers P \<Longrightarrow> \<exists>s'. rx_bytes P bs s = Some s'"
  unfolding rx_bytes_def by (rule for_each_total) (auto simp: split_beta rx_byte_returns)

text \<open>
  C28. Whatever bytes arrive, and whatever the commands they amount to do, the trace gets exactly one record per
  non-blank line, in order, with consecutive ids: rejected with the verb, rejected with its arguments, or accepted with the
  argument the grammar gives it.  The lines are those of a plain editor: CR, LF or CR LF ends a line, backspace and
  delete remove its last character, a 129th character is dropped, other bytes are ignored; the buffer is never overrun.
\<close>

theorem every_line_recorded:
  assumes "rx_ok s" and "rx_bytes P bs s = Some s'"
  shows "rx_ok s' \<and> rx_emitted (rx_out s') = rx_emitted (rx_out s)
    @ line_records (rx_commands_received s) (typed_lines (rx_last_was_cr s, cur s) (map fst bs))"
  using rx_bytes_summary [OF assms(2,1)] by (simp add: rx_summary_def)

text \<open>For the witnesses: a machine whose registers read zero, with a ticking clock, and a VMM that completes everything at once.\<close>

definition demo_machine :: "u64 machine" where
  "demo_machine = \<lparr>mc_read32 = (\<lambda>a d. (0, d)), mc_write32 = (\<lambda>a v d. d), mc_read64 = (\<lambda>a d. (0, d)),
     mc_cntpct = (\<lambda>d. (d, d + 1)), mc_cntfrq = 24576000\<rparr>"

definition demo_rx :: "u64 rx_platform" where
  "demo_rx = \<lparr>rp_machine = demo_machine, rp_vmm = (\<lambda>q d. (q\<lparr>cq_tail := cq_head q, cq_completed_id := - 1\<rparr>, d)),
     rp_tlbi_stress = (\<lambda>n d. (0, d))\<rparr>"

text \<open>The bytes of \<open>pinx\<close>, backspace, \<open>g\<close>, CR, LF, \<open>ping 1\<close>, LF.\<close>

definition demo_bytes :: "(u8 \<times> u32) list" where
  "demo_bytes = map (\<lambda>c. (c, 0)) [0x70, 0x69, 0x6e, 0x78, 0x08, 0x67, 0x0d, 0x0a, 0x70, 0x69, 0x6e, 0x67, 0x20, 0x31, 0x0a]"

lemma demo_waits: "vmm_answers demo_rx"
  unfolding vmm_answers_def wait_for_vmm_def split_beta Let_def
  by (intro allI, subst wait_loop.simps) (auto simp: demo_rx_def load_cmd_def)

theorem every_line_recorded_witness:
  "\<exists>s'. rx_bytes demo_rx demo_bytes (uartrx_boot 0 empty_cmd_ring) = Some s'
    \<and> rx_emitted (rx_out s') = [cmd_record TRACE_CMD_VERB_PING 1 TRACE_CMD_ACCEPTED 0, cmd_record TRACE_CMD_VERB_PING 2 TRACE_CMD_REJECTED_ARGS 0]"
proof -
  obtain s' where s': "rx_bytes demo_rx demo_bytes (uartrx_boot 0 empty_cmd_ring) = Some s'" 
    using rx_bytes_returns [OF demo_waits] by blast
  have ok: "rx_ok (uartrx_boot 0 empty_cmd_ring)" by (simp add: rx_ok_def uartrx_boot_def)
  have ls: "typed_lines (False, []) (map fst demo_bytes) = [''ping'', ''ping 1'']"
    by (simp add: demo_bytes_def type_byte_def char_of_byte_def char_of_def bit_numeral_rec bit_0)
  have "line_records 0 [''ping'', ''ping 1'']
      = [cmd_record TRACE_CMD_VERB_PING 1 TRACE_CMD_ACCEPTED 0, cmd_record TRACE_CMD_VERB_PING 2 TRACE_CMD_REJECTED_ARGS 0]"
    by (simp add: words_def line_record_def command_verb_def commands_def args_spec_def)
  then show ?thesis using every_line_recorded [OF ok s'] s' ls by (simp add: uartrx_boot_def cur_def)
qed

end
