(* ===== verification/Trace_Typing.thy ===== *)
theory Trace_Typing
  imports Vmm Uartrx
begin

text \<open>
  The record types of the trace (\<^verbatim>\<open>docs/trace-format.md\<close>, \<^verbatim>\<open>include/trace/trace.h\<close>): which values the fields of a record of each kind take,
  and that every record the VMM and \<open>uartrx\<close> hand to \<open>trace_emit\<close> has one of these types.  libvmm's fault handler is not part of the
  repository; what is used of it is that it runs the handlers the VMM registered, in any order and number.
\<close>

section \<open>Record types\<close>

definition mmio_typed :: "trace_record \<Rightarrow> bool" where
  "mmio_typed r \<longleftrightarrow> tr_flags r \<in> {0, TRACE_MMIO_WRITE, TRACE_MMIO_FORWARDED, TRACE_MMIO_UNHANDLED, TRACE_MMIO_UNHANDLED OR TRACE_MMIO_WRITE}
     \<and> (tr_flags r AND TRACE_MMIO_UNHANDLED \<noteq> 0 \<longrightarrow> tr_value r = 0)"

definition smc_exit_typed :: "trace_record \<Rightarrow> bool" where
  "smc_exit_typed r \<longleftrightarrow> tr_size r = 0 \<and> tr_flags r \<in> {0, TRACE_SMC_FORWARDED, TRACE_SMC_UNHANDLED}
     \<and> (tr_flags r = TRACE_SMC_UNHANDLED \<longrightarrow> tr_addr r = 0 \<and> tr_value r = 0)"

definition cmd_typed :: "trace_record \<Rightarrow> bool" where
  "cmd_typed r \<longleftrightarrow> tr_addr r \<le> TRACE_CMD_VERB_TLBI_STRESS \<and> tr_size r = 0 \<and> tr_esr r = 0 \<and> tr_vcpu r = 0
     \<and> tr_flags r \<in> {TRACE_CMD_ACCEPTED, TRACE_CMD_REJECTED_ARGS, TRACE_CMD_REJECTED_VERB}
     \<and> (tr_flags r = TRACE_CMD_REJECTED_VERB \<longleftrightarrow> tr_addr r = TRACE_CMD_VERB_NONE)
     \<and> (tr_pc r \<noteq> 0 \<longrightarrow> tr_flags r = TRACE_CMD_ACCEPTED \<and> tr_addr r = TRACE_CMD_VERB_GUEST_START)"

definition guest_typed :: "trace_record \<Rightarrow> bool" where
  "guest_typed r \<longleftrightarrow> tr_size r = 0 \<and> tr_flags r = 0
     \<and> tr_addr r \<in> {TRACE_GUEST_STARTED, TRACE_GUEST_STOPPED_BY_COMMAND, TRACE_GUEST_STOPPED_BY_FAULT}
     \<and> (tr_addr r = TRACE_GUEST_STOPPED_BY_COMMAND \<longrightarrow> tr_pc r = 0)"

definition record_typed :: "trace_record \<Rightarrow> bool" where
  "record_typed r \<longleftrightarrow> tr_reserved0 r = 0 \<and> tr_reserved1 r = 0 \<and>
     (if tr_kind r = TRACE_KIND_MMIO then mmio_typed r
      else if tr_kind r = TRACE_KIND_SMC_ENTER then tr_size r = 0 \<and> tr_flags r = 0
      else if tr_kind r = TRACE_KIND_SMC_REGS then tr_size r \<in> {2, 4, 6} \<and> tr_flags r \<in> {0, TRACE_SMC_REGS_EXIT}
      else if tr_kind r = TRACE_KIND_SMC_EXIT then smc_exit_typed r
      else if tr_kind r = TRACE_KIND_CMD then cmd_typed r
      else tr_kind r = TRACE_KIND_GUEST \<and> guest_typed r)"

named_theorems typed_simps "the type of a record, by the function that builds it"

lemma smc_record_typed [typed_simps]:
  "record_typed (smc_record TRACE_KIND_SMC_ENTER v pc hsr 0 0 a b)"
  "n \<in> {2, 4, 6} \<Longrightarrow> fl \<in> {0, TRACE_SMC_REGS_EXIT} \<Longrightarrow> record_typed (smc_record TRACE_KIND_SMC_REGS v pc hsr fl n a b)"
  "fl \<in> {0, TRACE_SMC_FORWARDED} \<Longrightarrow> record_typed (smc_record TRACE_KIND_SMC_EXIT v pc hsr fl 0 a b)"
  "record_typed (smc_unhandled_record v pc hsr)"
  by (auto simp: record_typed_def smc_exit_typed_def smc_record_def smc_unhandled_record_def zero_record_def)

lemma smc_records_typed [typed_simps]:
  "list_all record_typed (smc_enter_records v pc hsr r)"
  "fl \<in> {0, TRACE_SMC_FORWARDED} \<Longrightarrow> list_all record_typed (smc_exit_records fl v pc hsr r)"
  by (auto simp: smc_records_def typed_simps)

lemma mmio_record_typed [typed_simps]:
  "record_typed (mmio_record P v pc addr fsr 0 val)"
  "record_typed (mmio_record P v pc addr fsr TRACE_MMIO_UNHANDLED 0)"
  "\<not> p_fault_is_write P fsr \<Longrightarrow> record_typed (mmio_record P v pc addr fsr TRACE_MMIO_FORWARDED val)"
  by (auto simp: record_typed_def mmio_typed_def mmio_record_def zero_record_def)

lemma event_typed [typed_simps]:
  "k \<in> {TRACE_GUEST_STARTED, TRACE_GUEST_STOPPED_BY_FAULT} \<or> k = TRACE_GUEST_STOPPED_BY_COMMAND \<and> pc = 0 \<Longrightarrow> record_typed (event k pc run v)"
  by (auto simp: record_typed_def guest_typed_def event_def zero_record_def)

lemma guest_event_record_typed [typed_simps]:
  "k \<in> {TRACE_GUEST_STARTED, TRACE_GUEST_STOPPED_BY_FAULT} \<or> k = TRACE_GUEST_STOPPED_BY_COMMAND \<and> pc = 0 \<Longrightarrow> record_typed (guest_event_record s k pc)"
  by (auto simp: record_typed_def guest_typed_def guest_event_record_def zero_record_def)

section \<open>Operations of the VMM\<close>

definition emits_typed :: "'k vmm \<Rightarrow> 'k vmm \<Rightarrow> bool" where
  "emits_typed s t \<longleftrightarrow> (\<exists>es. v_out t = v_out s @ es \<and> list_all record_typed (emitted es))"

lemma emits_typedI: "v_out t = v_out s @ es \<Longrightarrow> list_all record_typed (emitted es) \<Longrightarrow> emits_typed s t"
  by (auto simp: emits_typed_def)

lemma emits_typed_trans [trans]: "emits_typed a b \<Longrightarrow> emits_typed b c \<Longrightarrow> emits_typed a c"
  unfolding emits_typed_def by (metis append.assoc emitted_append list_all_append)

lemma emits_typed_same: "v_out t = v_out s \<Longrightarrow> emits_typed s t"
  by (rule emits_typedI [of _ _ "[]"]) simp_all

lemma quiet_typed: "quiet s t \<Longrightarrow> emits_typed s t"
  by (auto simp: quiet_def emits_typed_def)

lemma out_typed:
  "emits_typed s (LOG_VMM t s)" "emits_typed s (LOG_VMM_ERR t s)" "emits_typed s (out (PrintRegs v) s)"
  by (auto simp: vmm_simps intro: emits_typedI [of _ _ "[_]"])

lemma smc_tail_typed: "smc_tail P v hsr regs h rs \<Longrightarrow> list_all record_typed rs"
  by (auto simp: smc_tail_def typed_simps split: smc_action.splits if_splits)

lemma smc_policy_handle_typed: "emits_typed s (snd (smc_policy_handle P v hsr s))"
proof -
  obtain err regs where rd: "tcb_read_registers P v zero_context s = (err, regs)" by fastforce
  show ?thesis
  proof (cases "err = seL4_NoError")
    case False
    then show ?thesis using smc_read_failure [OF rd] out_typed by simp
  next
    case True
    from smc_policy_handle_out [OF rd [unfolded True], of hsr] obtain es tail where
      "v_out (snd (smc_policy_handle P v hsr s)) = v_out s @ es"
      and "emitted es = smc_enter_records v (uc_pc regs) hsr regs @ tail"
      and "smc_tail P v hsr regs (fst (smc_policy_handle P v hsr s)) tail" by blast
    then show ?thesis by (auto simp: emits_typed_def smc_tail_typed typed_simps)
  qed
qed

lemma mmio_unhandled_typed: "emits_typed s (mmio_trace_unhandled P v pc addr fsr s)"
  by (simp add: emits_typed_def mmio_trace_unhandled_def mmio_trace_emit_def trace_emit_def out_def typed_simps)

lemma boot_fresh_typed: "emits_typed s (snd (boot_fresh P C sel s))"
proof (cases "gm_num_vcpus (cf_map C) \<le> GUEST_SELECT_VCPU sel")
  case True
  then show ?thesis by (simp add: boot_fresh_def LOG_VMM_ERR_def out_def emits_typed_def)
next
  case False
  obtain b s1 where ld: "guest_image_load P C sel s = (b, s1)" by fastforce
  have lf: "emits_typed s s1" using guest_image_load_frame [of s P C sel] ld by (auto simp: load_frame_def emits_typed_def)
  show ?thesis
  proof (cases b)
    case None
    then show ?thesis using False ld lf by (simp add: boot_fresh_def emits_typed_def)
  next
    case (Some boot)
    let ?v = "GUEST_SELECT_VCPU sel"
    define s2 where "s2 = vcpu_reset P ?v (s1\<lparr>v_run_vcpu := ?v\<rparr>)"
    define s3 where "s3 = guest_stats_reset P (s2\<lparr>v_run := v_run s2 + 1\<rparr>)"
    define s4 where "s4 = trace_guest_event TRACE_GUEST_STARTED (gb_pc boot) s3"
    have "emits_typed s1 s2" unfolding s2_def by (rule emits_typedI [of _ _ "[VcpuReset ?v]"]) (simp_all add: vmm_simps)
    also have "emits_typed s2 (s2\<lparr>v_run := v_run s2 + 1\<rparr>)" by (rule emits_typed_same) simp
    also have "emits_typed (s2\<lparr>v_run := v_run s2 + 1\<rparr>) s3" unfolding s3_def by (rule quiet_typed [OF quiet_stats(1)])
    also have "emits_typed s3 s4" unfolding s4_def
      by (simp add: emits_typed_def trace_guest_event_def trace_emit_def out_def typed_simps)
    also have "emits_typed s4 (snd (start_vcpu P ?v boot s4))"
      by (auto simp: start_vcpu_def vmm_simps emits_typed_def)
    also have "emits_typed (snd (start_vcpu P ?v boot s4)) (snd (boot_fresh P C sel s))"
      using False ld Some
      by (auto simp: boot_fresh_def s4_def s3_def s2_def Let_def split_beta LOG_VMM_ERR_def out_def emits_typed_def)
    finally show ?thesis using emits_typed_trans [OF lf] by blast
  qed
qed

lemma guest_control_typed:
  "emits_typed s (guest_control_start P C sel s)" "emits_typed s (guest_control_stop P s)"
  "emits_typed s (guest_control_status P s)" "emits_typed s (guest_control_regs s)" "emits_typed s (guest_control_fault_stopped P v f s)"
proof -
  show "emits_typed s (guest_control_start P C sel s)"
    using boot_fresh_typed [of s P C sel]
    by (auto simp: guest_control_start_def Let_def split_beta out_typed intro: emits_typed_trans [OF _ out_typed(1)])
  show "emits_typed s (guest_control_stop P s)"
  proof (cases "v_state s = GUEST_RUNNING")
    case True
    from stop_running [OF this] obtain k t where "guest_control_stop P s = s\<lparr>v_k := k, v_state := GUEST_STOPPED_BY_COMMAND,
      v_out := v_out s @ [VcpuStop (v_run_vcpu s), VcpuSetOn (v_run_vcpu s) False,
        Emit (event TRACE_GUEST_STOPPED_BY_COMMAND 0 (v_run s) (v_run_vcpu s)), Log t]\<rparr>" by blast
    then show ?thesis by (simp add: emits_typed_def typed_simps)
  qed (use stop_refused quiet_typed in blast)
  show "emits_typed s (guest_control_status P s)" by (rule quiet_typed [OF status_quiet])
  show "emits_typed s (guest_control_regs s)"
    using emits_typed_trans [OF out_typed(1) out_typed(3)] out_typed(1) by (auto simp: guest_control_regs_def)
  show "emits_typed s (guest_control_fault_stopped P v f s)"
    using fault_stopped_spec [of P v f s] by (auto simp: emits_typed_def typed_simps)
qed

section \<open>Device handlers and libvmm\<close>

lemma uart_fault_frame: "calm s (snd (snd (uart_fault P v off fsr regs s))) \<and> emits_typed s (snd (snd (uart_fault P v off fsr regs s)))"
  using uart_fault_effect [of P v off fsr regs s] by (auto simp: emits_typed_def typed_simps)

lemma forward_fault_frame:
  "calm s (snd (snd (forward_fault P fwd v off fsr regs s))) \<and> emits_typed s (snd (snd (forward_fault P fwd v off fsr regs s)))"
proof (cases "fst (forward_access_supported P fwd off fsr s)")
  case False
  then have "\<exists>t. snd (snd (forward_fault P fwd v off fsr regs s)) = LOG_VMM_ERR t s"
    by (auto simp: forward_fault_def forward_access_supported_def Let_def split: if_splits)
  then show ?thesis using quiet_calm [OF quiet_err] out_typed(2) by metis
next
  case True
  then have sup: "forward_access_supported P fwd off fsr s = (True, s)" and w: "\<not> p_fault_is_write P fsr"
    by (auto simp: forward_access_supported_def split: if_splits)
  obtain val k where rd: "p_mmio_read32 P (mf_vmm_vaddr fwd + off) (v_k s) = (val, k)" by fastforce
  let ?t = "snd (snd (forward_fault P fwd v off fsr regs s))"
  have "\<exists>pc. ?t = s\<lparr>v_k := k, v_out := v_out s @ [Emit (mmio_record P v pc (mf_gpa fwd + off) fsr TRACE_MMIO_FORWARDED (ucast val))]\<rparr>"
    using sup rd by (auto simp: forward_fault_def mmio_trace_def mmio_trace_emit_def trace_emit_def out_def Let_def)
  then obtain pc where t: "?t = s\<lparr>v_k := k, v_out := v_out s @ [Emit (mmio_record P v pc (mf_gpa fwd + off) fsr TRACE_MMIO_FORWARDED (ucast val))]\<rparr>"
    by blast
  show ?thesis unfolding t using w
    by (simp add: calm_def same_guest_def guest_events_def emits_typed_def typed_simps) (simp add: mmio_record_def)
qed

text \<open>What libvmm's fault handler may do: run the VMM's device handlers, change its own state and print.\<close>

inductive libvmm_run :: "'k platform \<Rightarrow> 'k vmm \<Rightarrow> 'k vmm \<Rightarrow> bool" for P s where
  lr_start: "libvmm_run P s s"
| lr_own: "libvmm_run P s t \<Longrightarrow> libvmm_run P s (t\<lparr>v_k := k\<rparr>)"
| lr_print: "libvmm_run P s t \<Longrightarrow> libvmm_run P s (out (Printf x) t)"
| lr_uart: "libvmm_run P s t \<Longrightarrow> libvmm_run P s (snd (snd (uart_fault P v off fsr regs t)))"
| lr_forward: "libvmm_run P s t \<Longrightarrow> libvmm_run P s (snd (snd (forward_fault P fwd v off fsr regs t)))"

lemma calm_printf: "calm s (out (Printf x) s)"
  by (simp add: calm_def same_guest_def out_def guest_events_def)

lemma libvmm_run_frame: "libvmm_run P s t \<Longrightarrow> calm s t \<and> emits_typed s t"
proof (induction rule: libvmm_run.induct)
  case lr_start
  show ?case by (simp add: calm_refl emits_typed_same)
next
  case (lr_own t k)
  have "quiet t (t\<lparr>v_k := k\<rparr>)" by (rule quiet_upd(1))
  then show ?case using lr_own.IH calm_trans quiet_calm emits_typed_trans quiet_typed by blast
next
  case (lr_print t x)
  have "emits_typed t (out (Printf x) t)" by (simp add: emits_typed_def out_def)
  then show ?case using lr_print.IH calm_trans calm_printf emits_typed_trans by blast
next
  case (lr_uart t v off fsr regs)
  then show ?case using uart_fault_frame [of t P v off fsr regs] calm_trans emits_typed_trans by blast
next
  case (lr_forward t fwd v off fsr regs)
  then show ?case using forward_fault_frame [of t P fwd v off fsr regs] calm_trans emits_typed_trans by blast
qed

definition runs_handlers :: "'k platform \<Rightarrow> bool" where
  "runs_handlers P \<longleftrightarrow> (\<forall>c m s. libvmm_run P s (snd (p_fault_handle P c m s)))"

lemma runs_handlers_calm: "runs_handlers P \<Longrightarrow> fault_handler_calm P"
  unfolding runs_handlers_def fault_handler_calm_def using libvmm_run_frame by blast

section \<open>The VMM's entry points\<close>

lemma breadcrumb_out:
  "v_out (breadcrumb_enter P ph l a b s) = v_out s" "v_out (breadcrumb_leave P s) = v_out s"
  by (simp_all add: breadcrumb_enter_def breadcrumb_leave_def)

lemma emits_typed_breadcrumb:
  "emits_typed (breadcrumb_enter P ph l a b s) t \<longleftrightarrow> emits_typed s t" "emits_typed s (breadcrumb_leave P t) \<longleftrightarrow> emits_typed s t"
  by (simp_all add: emits_typed_def breadcrumb_out)

lemma run_command_typed: "emits_typed s (run_command P C cmd s)"
  by (simp add: run_command_def guest_control_typed out_typed)

lemma complete_command_typed: "emits_typed s (complete_command P C cmd s)"
  using run_command_typed [of s P C cmd] by (simp add: complete_command_def emits_typed_def)

lemma fold_typed: "(\<And>x s. emits_typed s (f x s)) \<Longrightarrow> emits_typed s (fold f xs s)"
  by (induction xs arbitrary: s) (auto simp: emits_typed_same intro: emits_typed_trans)

lemma vmm_notified_typed: "cmd_ok (v_cmd s) \<Longrightarrow> emits_typed s (vmm_notified P C ch s)"
proof -
  assume ok: "cmd_ok (v_cmd s)"
  let ?e = "breadcrumb_enter P VMM_PHASE_NOTIFIED (ucast ch) 0 0 s"
  let ?s1 = "?e\<lparr>v_notifications := v_notifications ?e + 1\<rparr>"
  have "cmd_ok (v_cmd ?s1)" using ok by (simp add: breadcrumb_enter_def)
  from run_commands_fold [OF this, of P C] have eq: "run_commands P C ?s1 = fold (complete_command P C) (cmd_live (v_cmd ?s1)) ?s1" by blast
  have "emits_typed ?s1 (run_commands P C ?s1)" unfolding eq by (rule fold_typed [OF complete_command_typed])
  then have "emits_typed s (run_commands P C ?s1)" by (simp add: emits_typed_def breadcrumb_out)
  moreover have "emits_typed s (LOG_VMM_ERR t ?s1)" for t using out_typed(2) [of ?s1 t] by (simp add: emits_typed_def breadcrumb_out)
  ultimately show ?thesis
    by (cases "ch = CH_UARTRX") (simp_all add: vmm_notified_def handle_notification_def emits_typed_breadcrumb Let_def)
qed

lemma handle_fault_typed:
  assumes "runs_handlers P"
  shows "emits_typed s (snd (handle_fault P c m s))"
proof -
  obtain is_smc hsr where sm: "smc_fault_hsr P m 0 = (is_smc, hsr)" by fastforce
  let ?s2 = "heartbeat P (guest_stats_count P (m_label m) hsr s)"
  have s2: "emits_typed s ?s2" unfolding heartbeat_def by (intro quiet_typed quiet_trans [OF quiet_stats(2) quiet_stats(5)])
  have stop: "emits_typed s (guest_control_fault_stopped P c f t)" if "emits_typed s t" for t f
    using that guest_control_typed(5) emits_typed_trans by blast
  show ?thesis
  proof (cases is_smc)
    case True
    obtain h s3 where h: "smc_policy_handle P c hsr ?s2 = (h, s3)" by fastforce
    then have "emits_typed s s3" using emits_typed_trans [OF s2 smc_policy_handle_typed [of ?s2 P c hsr]] by simp
    then show ?thesis using sm True h stop by (simp add: handle_fault_def Let_def)
  next
    case False
    obtain ok s1 where fh: "p_fault_handle P c m ?s2 = (ok, s1)" by fastforce
    have "libvmm_run P ?s2 s1" using assms fh by (metis runs_handlers_def snd_conv)
    then have s1: "emits_typed s s1" using emits_typed_trans [OF s2] libvmm_run_frame by blast
    then have "emits_typed s (mmio_trace_unhandled P c pc a fsr s1)" for pc a fsr using emits_typed_trans mmio_unhandled_typed by blast
    then show ?thesis using sm False fh s1 stop by (simp add: handle_fault_def guest_fault_handle_def Let_def)
  qed
qed

lemma vmm_init_typed: "emits_typed s (vmm_init P C s)"
  by (auto simp: vmm_init_def exynos_uart_emul_init_def mmio_forward_read_only_init_def vmm_simps emits_typed_def split: option.split)

lemma vmm_reach_typed:
  assumes "runs_handlers P"
  shows "vmm_reach P C s \<Longrightarrow> list_all record_typed (emitted (v_out s))"
proof (induction rule: vmm_reach.induct)
  case (vr_init s)
  then show ?case using vmm_init_typed [of s P C] by (auto simp: emits_typed_def)
next
  case (vr_notified s ch)
  have "cmd_ok (v_cmd s)" using vmm_reach_inv [OF runs_handlers_calm [OF assms] vr_notified.hyps] by (simp add: vmm_inv_def)
  then show ?case using vr_notified.IH vmm_notified_typed [of s P C ch] by (auto simp: emits_typed_def)
next
  case (vr_fault s m)
  let ?s1 = "breadcrumb_enter P VMM_PHASE_FAULT (m_label m) (m_mr m 0) (m_mr m 1) s"
  have "emits_typed s (snd (handle_fault P (v_run_vcpu s) m ?s1))"
    using handle_fault_typed [OF assms, of ?s1 "v_run_vcpu s" m] by (simp only: emits_typed_breadcrumb)
  then have "emits_typed s (snd (vmm_fault P (v_run_vcpu s) m s))"
    by (simp add: vmm_fault_def split_beta Let_def emits_typed_breadcrumb)
  then show ?case using vr_fault.IH by (auto simp: emits_typed_def)
qed simp

section \<open>The records of uartrx\<close>

lemma command_verb_range: "command_verb v = Some verb \<Longrightarrow> verb \<noteq> TRACE_CMD_VERB_NONE \<and> verb \<le> TRACE_CMD_VERB_TLBI_STRESS"
  by (auto simp: command_verb_def commands_def split: if_splits)

lemma line_record_typed: "record_typed (line_record i l)"
  using command_verb_range [of "hd (words l)"]
  by (auto simp: line_record_def args_spec_def cmd_record_def record_typed_def cmd_typed_def zero_record_def split: option.split if_splits)

lemma line_records_typed: "list_all record_typed (line_records n ls)"
  by (induction n ls rule: line_records.induct) (auto simp: line_record_typed)

section \<open>Properties\<close>

text \<open>
  C6. The trace is well typed: every record the VMM hands to \<open>trace_emit\<close>, from boot through any commands, notifications and faults, and
  every record of \<open>uartrx\<close>, for any bytes it receives, has one of the six kinds with the flags, sizes and codes the format gives
  that kind, and zero reserved bytes.  A forwarded access is never a write, an unhandled access has no value, an unhandled SMC
  carries no registers, only an accepted \<open>guest-start\<close> carries an argument, a stop by command has no program counter.
\<close>

theorem every_record_typed:
  assumes "runs_handlers P" and "vmm_reach P C v"
    and "rx_ok u" and "rx_emitted (rx_out u) = []" and "rx_bytes R bs u = Some u'"
  shows "list_all record_typed (emitted (v_out v)) \<and> list_all record_typed (rx_emitted (rx_out u'))"
  using vmm_reach_typed [OF assms(1,2)] rx_bytes_summary [OF assms(5,3)] line_records_typed assms(4) by (auto simp: rx_summary_def)

lemma demo_runs_handlers: "runs_handlers demo_platform"
  by (simp add: runs_handlers_def demo_platform_def lr_start)

theorem every_record_typed_witness:
  "list_all record_typed (emitted (v_out (vmm_notified demo_platform demo_config CH_UARTRX demo_queued)))
    \<and> (\<exists>u'. rx_bytes demo_rx demo_bytes (uartrx_boot 0 empty_cmd_ring) = Some u' \<and> list_all record_typed (rx_emitted (rx_out u')))"
proof -
  obtain u' where u': "rx_bytes demo_rx demo_bytes (uartrx_boot 0 empty_cmd_ring) = Some u'"
    using rx_bytes_returns [OF demo_waits] by blast
  have "rx_ok (uartrx_boot 0 empty_cmd_ring)" "rx_emitted (rx_out (uartrx_boot 0 empty_cmd_ring)) = []"
    by (simp_all add: rx_ok_def uartrx_boot_def)
  from every_record_typed [OF demo_runs_handlers vr_notified [OF demo_queued_reach] this u'] u' show ?thesis by blast
qed

end
