(* ===== verification/Trace_Pipeline.thy ===== *)
theory Trace_Pipeline
  imports Trace_Log Trace_Typing
begin

text \<open>
  The trace from end to end: what the VMM and \<open>uartrx\<close> hand to \<open>trace_emit\<close> goes through the ring into the archive (\<open>Trace_Producer\<close>), out as a
  dump among other console output (\<open>Tracer\<close>) and back through the decoder (\<open>Trace_Decode\<close>); and the guest's console on both
  of its ways to the host, as text the VMM prints and as records the decoder reads.
\<close>

section \<open>Records on their way\<close>

text \<open>The two programs of the ring's system.\<close>

definition tracing_progs :: "'k vmm \<Rightarrow> 'd uartrx \<Rightarrow> u8 \<Rightarrow> trace_record list" where
  "tracing_progs v u p =
     (if p = TRACE_PRODUCER_VMM then emitted (v_out v) else if p = TRACE_PRODUCER_UARTRX then rx_emitted (rx_out u) else [])"

lemma strip_fields [simp]:
  "record_typed (strip r) = record_typed r" "is_console_write tx (strip r) = is_console_write tx r" "written_char (strip r) = written_char r"
  "tr_kind (strip r) = tr_kind r"
  by (simp_all add: record_typed_def mmio_typed_def smc_exit_typed_def cmd_typed_def guest_typed_def is_console_write_def written_char_def strip_def)

lemma record_typed_decodes: "record_typed r \<Longrightarrow> unat (tr_kind r) \<in> {1..6} \<and> without_reserved r = r"
  by (auto simp: record_typed_def without_reserved_def split: if_splits)

lemma published_prefix:
  assumes "reach progs t0 s"
  shows "\<exists>rest. map strip (filter (\<lambda>r. tr_producer r = p) (take m (s_history s))) @ rest = map strip (progs p)"
proof -
  let ?f = "\<lambda>rs. map strip (filter (\<lambda>r. tr_producer r = p) rs)"
  have "?f (s_history s) = ?f (take m (s_history s) @ drop m (s_history s))" by (simp only: append_take_drop_id)
  also have "\<dots> = ?f (take m (s_history s)) @ ?f (drop m (s_history s))" by (simp only: filter_append map_append)
  finally have "published p s = ?f (take m (s_history s)) @ ?f (drop m (s_history s))" by (simp only: published_def)
  moreover have "published p s @ remaining p s = map strip (progs p)" using reach_order [OF assms] by (simp only: order_inv_def)
  ultimately show ?thesis by (intro exI [of _ "?f (drop m (s_history s)) @ remaining p s"]) (simp only: append.assoc)
qed

lemma published_mem:
  assumes "reach progs t0 s" and "r \<in> set (s_history s)"
  shows "strip r \<in> set (map strip (progs (tr_producer r)))"
proof -
  have "strip r \<in> set (published (tr_producer r) s)" using assms(2) by (auto simp: published_def)
  then show ?thesis using reach_order [OF assms(1)] unfolding order_inv_def by (metis UnI1 set_append)
qed

lemma history_typed:
  assumes "reach progs t0 s" and "\<And>p. list_all record_typed (progs p)"
  shows "list_all record_typed (s_history s)"
  unfolding list_all_iff
proof
  fix r
  assume "r \<in> set (s_history s)"
  from published_mem [OF assms(1) this] obtain q where "q \<in> set (progs (tr_producer r))" "strip r = strip q" by auto
  then show "record_typed r" using assms(2) unfolding list_all_iff by (metis strip_fields(1))
qed

lemma seqs_numbered:
  assumes "map tr_seq rs = map of_nat [0..<length rs]" and "length rs < 2 ^ 64" and "list_all record_typed rs"
  shows "numbered 0 rs"
proof -
  have "map (unat \<circ> tr_seq) rs = map unat (map tr_seq rs)" by simp
  also have "\<dots> = map (\<lambda>i. unat (of_nat i :: u64)) [0..<length rs]" unfolding assms(1) by simp
  also have "\<dots> = [0..<length rs]" using assms(2) by (intro map_idI) (simp add: unat_of_nat)
  finally show ?thesis using assms(3) record_typed_decodes by (auto simp: numbered_def list_all_iff)
qed

text \<open>The archive of a reachable state, in the form the decoder needs it.\<close>

lemma archive_numbered:
  assumes "reach progs t0 s" and "length (s_history s) < 2 ^ 64" and "\<And>p. list_all record_typed (progs p)"
  shows "\<exists>m. archived (s_archive s) = take m (s_history s) \<and> numbered 0 (archived (s_archive s))
    \<and> map without_reserved (archived (s_archive s)) = archived (s_archive s)"
proof -
  let ?m = "min TRACE_ARCHIVE_CAPACITY (unat (eff_tail s))"
  have le: "unat (eff_tail s) \<le> length (s_history s)" by (rule eff_tail_le [OF reach_core [OF assms(1,2)]])
  have "s_archive s = foldl archive_record empty_archive (take (unat (eff_tail s)) (s_history s))"
    using reach_archive [OF assms(1,2)] by (simp add: archive_inv_def)
  then have a: "archived (s_archive s) = take ?m (s_history s)"
    using archive_fold [of "take (unat (eff_tail s)) (s_history s)"] assms(2) by simp
  have seq: "map tr_seq (s_history s) = map of_nat [0..<length (s_history s)]"
    using reach_core [OF assms(1,2)] by (simp add: core_inv_def hist_ok_def)
  have "map tr_seq (take ?m (s_history s)) = map of_nat [0..<length (take ?m (s_history s))]"
    by (simp only: take_map [symmetric] seq) (simp add: take_map take_upt_min min.commute)
  moreover have ty: "list_all record_typed (take ?m (s_history s))"
    using history_typed [OF assms(1,3)] by (auto simp: list_all_iff dest: in_set_takeD)
  moreover have "map without_reserved (take ?m (s_history s)) = take ?m (s_history s)"
    using ty record_typed_decodes by (intro map_idI) (auto simp: list_all_iff)
  ultimately show ?thesis unfolding a using seqs_numbered [of "take ?m (s_history s)"] assms(2) by auto
qed

section \<open>Properties\<close>

lemma line_records_kind: "r \<in> set (line_records n ls) \<Longrightarrow> tr_kind r = TRACE_KIND_CMD"
  by (induction n ls rule: line_records.induct)
    (auto simp: line_record_def cmd_record_def zero_record_def split: option.splits if_splits)

lemma console_of_vmm:
  assumes "reach (tracing_progs v u) t0 s" and "\<And>r. r \<in> set (rx_emitted (rx_out u)) \<Longrightarrow> tr_kind r = TRACE_KIND_CMD"
  shows "\<exists>rest. map written_char (filter (is_console_write tx) (take m (s_history s))) @ rest
    = map written_char (filter (is_console_write tx) (emitted (v_out v)))"
proof -
  let ?h = "take m (s_history s)" and ?W = "\<lambda>rs. map written_char (filter (is_console_write tx) rs)"
  have strip: "?W (map strip rs) = ?W rs" for rs by (induction rs) simp_all
  have vmm: "tr_producer r = TRACE_PRODUCER_VMM" if r: "r \<in> set ?h" "is_console_write tx r" for r
  proof (rule ccontr)
    assume "tr_producer r \<noteq> TRACE_PRODUCER_VMM"
    with published_mem [OF assms(1), of r] r in_set_takeD [of r m] obtain q where "q \<in> set (rx_emitted (rx_out u))" "strip r = strip q"
      by (auto simp: tracing_progs_def split: if_splits)
    then have "tr_kind r = TRACE_KIND_CMD" using assms(2) by (metis strip_fields(4))
    then show False using r(2) by (simp add: is_console_write_def)
  qed
  have "filter (is_console_write tx) ?h = filter (is_console_write tx) (filter (\<lambda>r. tr_producer r = TRACE_PRODUCER_VMM) ?h)"
    using vmm by (auto intro: filter_cong)
  then have eq: "?W ?h = ?W (map strip (filter (\<lambda>r. tr_producer r = TRACE_PRODUCER_VMM) ?h))" using strip by simp
  obtain rest where "map strip (filter (\<lambda>r. tr_producer r = TRACE_PRODUCER_VMM) ?h) @ rest = map strip (emitted (v_out v))"
    using published_prefix [OF assms(1), of TRACE_PRODUCER_VMM m] by (auto simp: tracing_progs_def)
  then have "?W ?h @ ?W rest = ?W (map strip (emitted (v_out v)))" unfolding eq by (metis filter_append map_append)
  then show ?thesis using strip by auto
qed

text \<open>
  C2. What the host decodes is what happened: after any run of the VMM, of \<open>uartrx\<close> and of the tracer, and any interleaving of
  them on the trace ring, a dump of the non-empty archive, anywhere among other console output, decodes without an error to
  exactly the archived records.  Of each producer they are the first records it emitted, in its order, changed only in the fields
  \<open>trace_emit\<close> fills in; and the guest's characters among them are the first the guest wrote.
\<close>

theorem host_reads_trace:
  fixes f :: u32 and tx :: "int option"
  assumes "runs_handlers P" and "vmm_reach P C v"
    and "rx_ok u0" and "rx_emitted (rx_out u0) = []" and "rx_bytes R bs u0 = Some u"
    and "reach (tracing_progs v u) t0 s" and "length (s_history s) < 2 ^ 64" and "archived (s_archive s) \<noteq> []"
    and "ascii_stamp st" and "pre = [] \<or> last pre = NL" and "other_output pre" and "other_output post"
  defines "rs \<equiv> archived (s_archive s)"
  shows "decode tx (lines_of [] (dump_in_log st f pre (s_archive s) post))
      = (0, rs, map Line (header_lines 9 (unat f) (stamp_shown st) @ printed_records tx [] rs
          @ [dec_digits (length rs) @ '' records, '' @ dec_digits 0 @ '' errors'']))
    \<and> (\<exists>more. map strip (filter (\<lambda>r. tr_producer r = TRACE_PRODUCER_VMM) rs) @ more = map strip (emitted (v_out v)))
    \<and> (\<exists>more. map strip (filter (\<lambda>r. tr_producer r = TRACE_PRODUCER_UARTRX) rs) @ more = map strip (rx_emitted (rx_out u)))
    \<and> (\<exists>more. map written_char (filter (is_console_write tx) rs) @ more
         = map written_char (filter (is_console_write tx) (emitted (v_out v))))"
proof -
  have rx: "rx_emitted (rx_out u) = line_records (rx_commands_received u0) (typed_lines (rx_last_was_cr u0, cur u0) (map fst bs))"
    using rx_bytes_summary [OF assms(5,3)] assms(4) by (simp add: rx_summary_def)
  have ty: "list_all record_typed (tracing_progs v u p)" for p
    using vmm_reach_typed [OF assms(1,2)] line_records_typed by (simp add: tracing_progs_def rx)
  obtain m where m: "rs = take m (s_history s)" "numbered 0 rs" "map without_reserved rs = rs"
    using archive_numbered [OF assms(6,7) ty] unfolding rs_def by blast
  have ne: "rs \<noteq> []" using assms(8) by (simp add: rs_def)
  have "decode tx (lines_of [] (dump_in_log st f pre (s_archive s) post)) = decode tx (lines_of [] (dump_text st f TRACE_HEADER_INTERVAL rs))"
    unfolding rs_def by (rule decode_log [OF assms(10,11,12,9)]) (use m(2) assms(8) in \<open>simp_all add: rs_def\<close>)
  moreover have "\<And>r. r \<in> set (rx_emitted (rx_out u)) \<Longrightarrow> tr_kind r = TRACE_KIND_CMD" unfolding rx by (rule line_records_kind)
  ultimately show ?thesis
    using decode_dump_text [OF assms(9) m(2) ne, of tx f] published_prefix [OF assms(6), of TRACE_PRODUCER_VMM m]
      published_prefix [OF assms(6), of TRACE_PRODUCER_UARTRX m] console_of_vmm [OF assms(6), of tx m]
    by (simp add: m(3) m(1) [symmetric]) (simp add: tracing_progs_def)
qed

theorem host_reads_trace_witness:
  "\<exists>u s out. rx_bytes demo_rx demo_bytes (uartrx_boot 0 empty_cmd_ring) = Some u
    \<and> reach (tracing_progs (vmm_init demo_platform demo_config demo_vmm) u) 100 s
    \<and> decode None (lines_of [] (dump_in_log demo_stamp 24576000 (''> '' @ [NL]) (s_archive s) [])) = (0, archived (s_archive s), out)
    \<and> map strip (filter (\<lambda>r. tr_producer r = TRACE_PRODUCER_UARTRX) (archived (s_archive s)))
      = [cmd_record TRACE_CMD_VERB_PING 1 TRACE_CMD_ACCEPTED 0, cmd_record TRACE_CMD_VERB_PING 2 TRACE_CMD_REJECTED_ARGS 0]"
proof -
  let ?v = "vmm_init demo_platform demo_config demo_vmm" and ?u0 = "uartrx_boot 0 empty_cmd_ring" and ?pre = "''> '' @ [NL]"
  let ?two = "[cmd_record TRACE_CMD_VERB_PING 1 TRACE_CMD_ACCEPTED 0, cmd_record TRACE_CMD_VERB_PING 2 TRACE_CMD_REJECTED_ARGS 0]"
  have v: "vmm_reach demo_platform demo_config ?v" by (rule vr_init [OF demo_fresh]) (simp_all add: demo_vmm_def)
  have ev: "emitted (v_out ?v) = []"
    by (simp add: vmm_init_def exynos_uart_emul_init_def mmio_forward_read_only_init_def vmm_simps demo_vmm_def split: option.split)
  obtain u where u: "rx_bytes demo_rx demo_bytes ?u0 = Some u" using rx_bytes_returns [OF demo_waits] by blast
  have u0: "rx_ok ?u0" "rx_emitted (rx_out ?u0) = []" by (simp_all add: rx_ok_def uartrx_boot_def)
  have "typed_lines (False, []) (map fst demo_bytes) = [''ping'', ''ping 1'']"
    by (simp add: demo_bytes_def type_byte_def char_of_byte_def char_of_def bit_numeral_rec bit_0)
  moreover have "line_records 0 [''ping'', ''ping 1''] = ?two"
    by (simp add: words_def line_record_def command_verb_def commands_def args_spec_def)
  ultimately have two: "rx_emitted (rx_out u) = ?two"
    using rx_bytes_summary [OF u u0(1), of "[]" 0 False "[]"] by (simp add: rx_summary_def uartrx_boot_def cur_def)
  let ?progs = "tracing_progs ?v u"
  have progs: "?progs p = (if p = TRACE_PRODUCER_UARTRX then ?two else [])" for p by (simp add: tracing_progs_def ev two)
  have "(\<Sum>p\<in>UNIV. length (?progs p)) = 2" unfolding progs by (simp add: if_distrib cong: if_cong)
  then obtain ths where fin: "finished (sys_run ths (sys_init ?progs 100))" using completes [OF reach_init, of ?progs 100] by auto
  define s where "s = sys_run ths (sys_init ?progs 100)"
  have s: "reach ?progs 100 s" "finished s" using reach_run fin by (simp_all add: s_def)
  have len: "length (s_history s) \<le> 2"
    using history_bound [OF s(1)] \<open>(\<Sum>p\<in>UNIV. length (?progs p)) = 2\<close> by simp
  then have a: "archived (s_archive s) = s_history s"
    using finished_archive [OF s(2,1)] by (simp add: archive_capacity_value)
  have pub: "map strip (filter (\<lambda>r. tr_producer r = TRACE_PRODUCER_UARTRX) (s_history s)) = ?two"
    using finished_published [OF s(2,1), of TRACE_PRODUCER_UARTRX] unfolding published_def progs
    by (simp add: strip_def cmd_record_def zero_record_def)
  then have ne: "archived (s_archive s) \<noteq> []" unfolding a by (cases "s_history s") auto
  have "other_output ?pre" "other_output []" by (simp_all add: other_output_def untagged_def)
  from host_reads_trace [OF demo_runs_handlers v u0 u s(1) _ ne demo_stamp_ascii _ this, of None 24576000] len
  show ?thesis using u s(1) pub a by auto
qed

end
