(* ===== verification/Guest_Lines.thy ===== *)
theory Guest_Lines
  imports Trace_Print Mmio
begin

text \<open>
  The guest's console has two ways to the host: the emulated UART (\<^verbatim>\<open>vmm/exynos_uart_emul.c\<close>) prints lines on the console, and each write to
  its transmit register is traced, from which the decoder (\<open>Console\<close> of \<^verbatim>\<open>tools/trace-decode.py\<close>) puts the lines together again.  Here
  the two are compared.
\<close>

section \<open>Writing characters\<close>

definition uart_char :: "'k platform \<Rightarrow> u64 \<Rightarrow> user_context \<Rightarrow> char" where
  "uart_char P fsr regs = char_of_byte (ucast (p_fault_get_data P regs fsr AND 0xff))"

text \<open>The guest stores one character after another, each with the registers it has then.\<close>

definition uart_write_all :: "'k platform \<Rightarrow> u64 \<Rightarrow> u64 \<Rightarrow> user_context list \<Rightarrow> 'k vmm \<Rightarrow> 'k vmm" where
  "uart_write_all P v fsr rss s = fold (\<lambda>regs s. snd (snd (uart_fault P v EXYNOS_UART_UTXH fsr regs s))) rss s"

fun printf_texts :: "effect list \<Rightarrow> string list" where
  "printf_texts [] = []"
| "printf_texts (Printf t # es) = t # printf_texts es"
| "printf_texts (e # es) = printf_texts es"

lemma printf_texts_append [simp]: "printf_texts (xs @ ys) = printf_texts xs @ printf_texts ys"
  by (induction xs rule: printf_texts.induct) simp_all

lemma printf_texts_map [simp]: "printf_texts (map Printf ts) = ts"
  by (induction ts) simp_all

lemma console_putc_gpa: "ue_gpa (fst (uart_console_putc c u)) = ue_gpa u"
  by (simp add: uart_console_putc_def uart_console_flush_def split_beta Let_def)

lemma uart_write_one:
  fixes s :: "'k vmm" and v :: u64
  assumes "p_fault_is_write P fsr"
  defines "r \<equiv> \<lambda>regs. mmio_record P v (uc_pc regs) (ue_gpa (v_uart s) + EXYNOS_UART_UTXH) fsr 0 (p_fault_get_data P regs fsr)"
  shows "snd (snd (uart_fault P v EXYNOS_UART_UTXH fsr regs s))
    = s\<lparr>v_uart := fst (uart_console_putc (uart_char P fsr regs) (v_uart s)),
        v_out := v_out s @ Emit (r regs) # map Printf (snd (uart_console_putc (uart_char P fsr regs) (v_uart s)))\<rparr>"
  using assms(1) by (simp add: r_def uart_fault_def emul_uart_write_def uart_char_def mmio_trace_def mmio_trace_emit_def trace_emit_def out_def
      printf_out [unfolded out_def] split_beta Let_def)

lemma uart_write_all_out:
  assumes "p_fault_is_write P fsr" and "tx = Some (uint (ue_gpa (v_uart s) + EXYNOS_UART_UTXH))"
  shows "\<exists>es. v_out (uart_write_all P v fsr rss s) = v_out s @ es
    \<and> map written_char (filter (is_console_write tx) (emitted es)) = map (uart_char P fsr) rss
    \<and> printf_texts es = snd (uart_feed (map (uart_char P fsr) rss) (v_uart s))"
  using assms(2)
proof (induction rss arbitrary: s)
  case Nil
  then show ?case by (intro exI [of _ "[]"]) (simp add: uart_write_all_def)
next
  case (Cons regs rss)
  let ?c = "uart_char P fsr regs"
  obtain u printed where p: "uart_console_putc ?c (v_uart s) = (u, printed)" by fastforce
  let ?r = "mmio_record P v (uc_pc regs) (ue_gpa (v_uart s) + EXYNOS_UART_UTXH) fsr 0 (p_fault_get_data P regs fsr)"
  let ?s1 = "s\<lparr>v_uart := u, v_out := v_out s @ Emit ?r # map Printf printed\<rparr>"
  have step: "snd (snd (uart_fault P v EXYNOS_UART_UTXH fsr regs s)) = ?s1"
    using uart_write_one [OF assms(1), where s = s and regs = regs and v = v] p by simp
  have "tx = Some (uint (ue_gpa (v_uart ?s1) + EXYNOS_UART_UTXH))" using Cons.prems console_putc_gpa [of ?c "v_uart s"] p by simp
  from Cons.IH [OF this] obtain es where es: "v_out (uart_write_all P v fsr rss ?s1) = v_out ?s1 @ es"
    "map written_char (filter (is_console_write tx) (emitted es)) = map (uart_char P fsr) rss"
    "printf_texts es = snd (uart_feed (map (uart_char P fsr) rss) u)" by auto
  have "is_console_write tx ?r" "written_char ?r = ?c"
    using assms(1) Cons.prems by (simp_all add: is_console_write_def mmio_record_def written_char_def uart_char_def)
  then show ?case
    using es step p by (intro exI [of _ "Emit ?r # map Printf printed @ es"]) (simp add: uart_write_all_def split_beta)
qed

section \<open>Short lines\<close>

lemma text_lines_grow: "\<exists>l \<in> set (text_lines cur (cs @ [NL])). length cur \<le> length l"
proof (induction cur cs rule: text_lines.induct)
  case (2 cur c cs)
  then show ?case by (cases "c = NL") (simp, fastforce dest: Suc_leD)
qed simp

lemma fold_line_putc:
  assumes "CR \<notin> set cs" and "\<forall>l \<in> set (text_lines cur (cs @ [NL])). length l \<le> CONSOLE_LINE_MAX - 1"
  shows "snd (fold line_putc cs (cur, ls)) = ls @ text_lines cur cs"
  using assms
proof (induction cur cs arbitrary: ls rule: text_lines.induct)
  case (2 cur c cs)
  show ?case
  proof (cases "c = NL")
    case False
    obtain l where "l \<in> set (text_lines (cur @ [c]) (cs @ [NL]))" "length (cur @ [c]) \<le> length l" using text_lines_grow by blast
    then have "length cur < CONSOLE_LINE_MAX - 1" using 2(4) False by fastforce
    moreover have "c \<noteq> CR" using 2(3) by auto
    ultimately show ?thesis using 2 False by simp
  qed (use 2 in simp)
qed simp

section \<open>Properties\<close>

text \<open>
  C19. The trace keeps the guest's lines: when the guest writes characters to the emulated UART, starting on a fresh line, the
  decoder puts together from the trace exactly the complete lines of the text written.  The VMM prints the same lines, each behind
  \<open>guest|\<close> and up to its first NUL, provided that no line is longer than 255 characters and there are no carriage returns.
\<close>

theorem guest_lines_agree:
  fixes rss :: "user_context list"
  assumes "p_fault_is_write P fsr" and "uart_ok (v_uart s)" and "uart_text (v_uart s) = []"
  defines "cs \<equiv> map (uart_char P fsr) rss"
  shows "\<exists>es. v_out (uart_write_all P v fsr rss s) = v_out s @ es
    \<and> console_lines (Some (uint (ue_gpa (v_uart s) + EXYNOS_UART_UTXH))) [] (emitted es) = text_lines [] cs
    \<and> (CR \<notin> set cs \<and> (\<forall>l \<in> set (text_lines [] (cs @ [NL])). length l \<le> 255) \<longrightarrow>
         printf_texts es = map print_line (text_lines [] cs))"
proof -
  let ?tx = "Some (uint (ue_gpa (v_uart s) + EXYNOS_UART_UTXH))"
  obtain es where es: "v_out (uart_write_all P v fsr rss s) = v_out s @ es"
    "map written_char (filter (is_console_write ?tx) (emitted es)) = cs" "printf_texts es = snd (uart_feed cs (v_uart s))"
    using uart_write_all_out [OF assms(1) refl, where rss = rss and s = s and v = v] unfolding cs_def by blast
  have "snd (uart_feed cs (v_uart s)) = map print_line (snd (fold line_putc cs ([], [])))"
    using uart_feed_refines [OF assms(2), of cs "[]"] by (simp add: assms(3))
  then show ?thesis using es fold_line_putc [of cs "[]" "[]"] by (auto simp: console_lines_text)
qed

text \<open>The guest writes \<open>hi\<close>, a newline and \<open>x\<close>.\<close>

definition demo_writes :: "user_context list" where
  "demo_writes = map (\<lambda>c. zero_context\<lparr>uc_x0 := c\<rparr>) [0x68, 0x69, 0x0a, 0x78]"

theorem guest_lines_agree_witness:
  "\<exists>es. v_out (uart_write_all demo_platform 0 0x40 demo_writes demo_vmm) = v_out demo_vmm @ es
    \<and> console_lines (Some 0x20) [] (emitted es) = [''hi''] \<and> printf_texts es = [''guest| hi'' @ [NL]]"
proof -
  have cs: "map (uart_char demo_platform 0x40) demo_writes = ''hi'' @ [NL] @ ''x''"
    by (simp add: demo_writes_def uart_char_def demo_platform_def char_of_byte_def char_of_def bit_numeral_rec bit_0)
  have w: "p_fault_is_write demo_platform 0x40" and u: "uart_ok (v_uart demo_vmm)" "uart_text (v_uart demo_vmm) = []"
    by (simp_all add: demo_platform_def demo_vmm_def uart_ok_def uart_text_def)
  show ?thesis using guest_lines_agree [OF w u, where rss = demo_writes and v = 0] unfolding cs by (auto simp: demo_vmm_def print_line_def c_str_def)
qed

end
