(* ===== verification/Freezewatch.thy ===== *)
theory Freezewatch
  imports Coresight
begin

text \<open>
  \<^verbatim>\<open>freezewatch/freezewatch.c\<close>: the watchdog of the console.  It polls the console rings and the UART, and when output has
  been pending with the UART idle for three seconds, or received characters have been unread for four,
  samples every core and prints the result on the UART itself, once per freeze.  One iteration of
  \<open>watch_forever\<close> is \<open>watch_step\<close>; the operands of a comparison are read left to right.
\<close>

abbreviation (input) TX_STALL_SECONDS :: u64 where "TX_STALL_SECONDS \<equiv> 3"
abbreviation (input) RX_STALL_SECONDS :: u64 where "RX_STALL_SECONDS \<equiv> 4"

definition vmm_console_vaddr :: u64 where "vmm_console_vaddr = 0x40000000"
definition uartrx_console_vaddr :: u64 where "uartrx_console_vaddr = 0x40004000"

record stall =
  st_since :: u64
  st_limit :: u64

record 'd freezewatch = "'d io" +
  fw_tx :: stall
  fw_rx :: stall
  fw_reported :: bool

definition tx_not_full :: "u32 \<Rightarrow> bool" where
  "tx_not_full v \<longleftrightarrow> v AND EXYNOS_UART_UFSTAT_TXFULL = 0"

definition uart_write :: "'d machine \<Rightarrow> u64 \<Rightarrow> u32 \<Rightarrow> ('d, 'z) io_scheme \<Rightarrow> ('d, 'z) io_scheme" where
  "uart_write M reg v s = write32 M (uart_vaddr + reg) v s"

definition uart_tx_putc :: "'d machine \<Rightarrow> char \<Rightarrow> ('d, 'z) io_scheme \<Rightarrow> ('d, 'z) io_scheme option" where
  "uart_tx_putc M c s = do {
     s1 \<leftarrow> poll M (uart_vaddr + EXYNOS_UART_UFSTAT) tx_not_full s;
     Some (uart_write M EXYNOS_UART_UTXH (of_nat (of_char c)) s1)
   }"

definition uart_tx_char :: "'d machine \<Rightarrow> char \<Rightarrow> ('d, 'z) io_scheme \<Rightarrow> ('d, 'z) io_scheme option" where
  "uart_tx_char M c s = (if c = NL then uart_tx_putc M CR s else Some s) \<bind> uart_tx_putc M c"

definition uart_tx_puts :: "'d machine \<Rightarrow> string \<Rightarrow> ('d, 'z) io_scheme \<Rightarrow> ('d, 'z) io_scheme option" where
  "uart_tx_puts M t s = for_each (uart_tx_char M) t s"

definition ring_pending :: "'d machine \<Rightarrow> u64 \<Rightarrow> ('d, 'z) io_scheme \<Rightarrow> bool \<times> ('d, 'z) io_scheme" where
  "ring_pending M vaddr s =
     (let (head, s1) = read64 M vaddr s;
          (tail, s2) = read64 M (vaddr + 8) s1
      in (head \<noteq> tail, s2))"

definition output_pending :: "'d machine \<Rightarrow> ('d, 'z) io_scheme \<Rightarrow> bool \<times> ('d, 'z) io_scheme" where
  "output_pending M s =
     (let (p, s1) = ring_pending M vmm_console_vaddr s
      in if p then (True, s1) else ring_pending M uartrx_console_vaddr s1)"

definition tx_stuck :: "'d machine \<Rightarrow> ('d, 'z) io_scheme \<Rightarrow> bool \<times> ('d, 'z) io_scheme" where
  "tx_stuck M s =
     (let (p, s1) = output_pending M s
      in if \<not> p then (False, s1)
         else let (v, s2) = uart_read M EXYNOS_UART_UTRSTAT s1 in (v AND EXYNOS_UART_UTRSTAT_TXE \<noteq> 0, s2))"

definition rx_stuck :: "'d machine \<Rightarrow> ('d, 'z) io_scheme \<Rightarrow> bool \<times> ('d, 'z) io_scheme" where
  "rx_stuck M s =
     (let (v, s1) = uart_read M EXYNOS_UART_UFSTAT s
      in (v AND (EXYNOS_UART_UFSTAT_RXCOUNT OR EXYNOS_UART_UFSTAT_RXFULL) \<noteq> 0, s1))"

definition stalled :: "stall \<Rightarrow> bool \<Rightarrow> u64 \<Rightarrow> bool \<times> stall" where
  "stalled s stuck now =
     (if \<not> stuck then (False, s\<lparr>st_since := 0\<rparr>)
      else let s1 = (if st_since s = 0 then s\<lparr>st_since := now\<rparr> else s)
           in (st_limit s1 \<le> now - st_since s1, s1))"

definition report_freeze :: "'d machine \<Rightarrow> string \<Rightarrow> ('d, 'z) io_scheme \<Rightarrow> ('d, 'z) io_scheme option" where
  "report_freeze M why s0 = do {
     s1 \<leftarrow> uart_tx_puts M ([NL] @ ''FREEZEWATCH: '') s0;
     s2 \<leftarrow> uart_tx_puts M why s1;
     s3 \<leftarrow> uart_tx_puts M (''; sampling every core'' @ [NL]) s2;
     s4 \<leftarrow> cs_sample_all M (uart_tx_puts M) s3;
     uart_tx_puts M (''FREEZEWATCH: done'' @ [NL]) s4
   }"

text \<open>The first half of an iteration: what it observes, \<open>tx_fired\<close>, \<open>rx_fired\<close> and whether nothing waits.\<close>

definition watch_observe :: "'d machine \<Rightarrow> 'd freezewatch \<Rightarrow> (bool \<times> bool \<times> bool) \<times> 'd freezewatch" where
  "watch_observe M s =
     (let (now, s1) = cntpct M s;
          (txs, s2) = tx_stuck M s1;
          (tx_fired, tx) = stalled (fw_tx s2) txs now;
          s3 = s2\<lparr>fw_tx := tx\<rparr>;
          (rxs, s4) = rx_stuck M s3;
          (rx_fired, rx) = stalled (fw_rx s4) rxs now;
          s5 = s4\<lparr>fw_rx := rx\<rparr>;
          (p, s6) = output_pending M s5
      in if p then ((tx_fired, rx_fired, False), s6)
         else let (r, s7) = rx_stuck M s6 in ((tx_fired, rx_fired, \<not> r), s7))"

definition watch_act :: "'d machine \<Rightarrow> bool \<Rightarrow> bool \<Rightarrow> bool \<Rightarrow> 'd freezewatch \<Rightarrow> 'd freezewatch option" where
  "watch_act M tx_fired rx_fired idle s = do {
     let s1 = (if idle then s\<lparr>fw_reported := False\<rparr> else s);
     if \<not> fw_reported s1 \<and> (tx_fired \<or> rx_fired)
     then do {
       s2 \<leftarrow> report_freeze M (if rx_fired then ''received characters unread for 4 s''
                              else ''console output pending and the UART idle for 3 s'') s1;
       Some (s2\<lparr>fw_reported := True\<rparr>)
     }
     else Some s1
   }"

definition watch_step :: "'d machine \<Rightarrow> 'd freezewatch \<Rightarrow> 'd freezewatch option" where
  "watch_step M s = (case watch_observe M s of ((tx_fired, rx_fired, idle), s1) \<Rightarrow> watch_act M tx_fired rx_fired idle s1)"

definition watch_init :: "'d machine \<Rightarrow> 'd \<Rightarrow> 'd freezewatch" where
  "watch_init M d =
     (let freq = mc_cntfrq M
      in \<lparr>io_dev = d, io_log = [], fw_tx = \<lparr>st_since = 0, st_limit = freq * TX_STALL_SECONDS\<rparr>,
          fw_rx = \<lparr>st_since = 0, st_limit = freq * RX_STALL_SECONDS\<rparr>, fw_reported = False\<rparr>)"

section \<open>The UART writer\<close>

text \<open>
  A log \<^emph>\<open>respects the FIFO\<close> when every character written was preceded by a status read that showed room.
  \<open>tx_chars\<close> are the characters written.
\<close>

definition utxh :: u64 where "utxh = uart_vaddr + EXYNOS_UART_UTXH"
definition ufstat :: u64 where "ufstat = uart_vaddr + EXYNOS_UART_UFSTAT"

fun fifo_respected :: "bool \<Rightarrow> access list \<Rightarrow> bool" where
  "fifo_respected room [] \<longleftrightarrow> True"
| "fifo_respected room (Read32 a v # as) \<longleftrightarrow> fifo_respected (a = ufstat \<and> tx_not_full v) as"
| "fifo_respected room (Write32 a v # as) \<longleftrightarrow> (a = utxh \<longrightarrow> room) \<and> fifo_respected False as"
| "fifo_respected room (Read64 a w # as) \<longleftrightarrow> fifo_respected False as"

fun tx_chars :: "access list \<Rightarrow> string" where
  "tx_chars [] = []"
| "tx_chars (Write32 a v # as) = (if a = utxh then [char_of (unat v)] else []) @ tx_chars as"
| "tx_chars (a # as) = tx_chars as"

definition crlf :: "string \<Rightarrow> string" where
  "crlf t = concat (map (\<lambda>c. if c = NL then [CR, NL] else [c]) t)"

text \<open>What an operation of the writer does to the log: characters added in order, the FIFO respected, CoreSight untouched.\<close>

definition wrote :: "string \<Rightarrow> ('d, 'z) io_scheme \<Rightarrow> ('d, 'z) io_scheme \<Rightarrow> bool" where
  "wrote t s s' \<longleftrightarrow> (\<exists>as d. s' = s\<lparr>io_dev := d, io_log := io_log s @ as\<rparr>
     \<and> tx_chars as = t \<and> (\<forall>room. fifo_respected room as) \<and> cs_accesses as = [])"

lemma tx_chars_append [simp]: "tx_chars (xs @ ys) = tx_chars xs @ tx_chars ys"
  by (induction xs rule: tx_chars.induct) simp_all

lemma fifo_respected_append:
  "fifo_respected room xs \<Longrightarrow> (\<And>r. fifo_respected r ys) \<Longrightarrow> fifo_respected room (xs @ ys)"
  by (induction room xs rule: fifo_respected.induct) simp_all

lemma wrote_trans: "wrote t s s1 \<Longrightarrow> wrote u s1 s2 \<Longrightarrow> wrote (t @ u) s s2"
proof -
  assume "wrote t s s1" "wrote u s1 s2"
  then obtain as d bs e where "s1 = s\<lparr>io_dev := d, io_log := io_log s @ as\<rparr>" "tx_chars as = t"
    "\<forall>room. fifo_respected room as" "cs_accesses as = []" "s2 = s1\<lparr>io_dev := e, io_log := io_log s1 @ bs\<rparr>"
    "tx_chars bs = u" "\<forall>room. fifo_respected room bs" "cs_accesses bs = []" unfolding wrote_def by blast
  then have "s2 = s\<lparr>io_dev := e, io_log := io_log s @ as @ bs\<rparr> \<and> tx_chars (as @ bs) = t @ u
      \<and> (\<forall>room. fifo_respected room (as @ bs)) \<and> cs_accesses (as @ bs) = []"
    by (simp add: fifo_respected_append)
  then show ?thesis unfolding wrote_def by (intro exI)
qed

lemma wrote_Nil: "wrote [] s s"
proof -
  have "s = s\<lparr>io_dev := io_dev s, io_log := io_log s @ []\<rparr> \<and> tx_chars [] = [] \<and> (\<forall>room. fifo_respected room [])
      \<and> cs_accesses [] = []" by simp
  then show ?thesis unfolding wrote_def by (intro exI)
qed

lemma uart_not_cs: "\<not> cs_window ufstat" "\<not> cs_window utxh" "ufstat \<noteq> utxh"
  by (simp_all add: cs_window_def ufstat_def utxh_def uart_vaddr_def word_le_nat_alt)

lemma polled_wrote:
  assumes "polled ufstat tx_not_full as"
  shows "tx_chars as = []" "cs_accesses as = []" "fifo_respected room (as @ [Write32 utxh v])"
proof -
  obtain vs v where as: "as = map (Read32 ufstat) vs @ [Read32 ufstat v]" "tx_not_full v"
    using assms by (auto simp: polled_def)
  show "tx_chars as = []" unfolding as by (induction vs) simp_all
  show "cs_accesses as = []" unfolding as by (induction vs) (simp_all add: cs_accesses_Cons uart_not_cs)
  show "fifo_respected room (as @ [Write32 utxh v])" for v
    using as(2) unfolding as(1) by (induction vs arbitrary: room) simp_all
qed

lemma uart_tx_putc_wrote: "uart_tx_putc M c s = Some s' \<Longrightarrow> wrote [c] s s'"
proof -
  assume "uart_tx_putc M c s = Some s'"
  then obtain s1 where s1: "poll M ufstat tx_not_full s = Some s1" "s' = write32 M utxh (of_nat (of_char c)) s1"
    by (auto simp: uart_tx_putc_def uart_write_def ufstat_def utxh_def split: bind_splits)
  obtain as d where as: "s1 = s\<lparr>io_dev := d, io_log := io_log s @ as\<rparr>" "polled ufstat tx_not_full as"
    using poll_log [OF s1(1)] by blast
  let ?w = "Write32 utxh (of_nat (of_char c))"
  have "s' = s\<lparr>io_dev := io_dev s', io_log := io_log s @ as @ [?w]\<rparr> \<and> tx_chars (as @ [?w]) = [c]
      \<and> (\<forall>room. fifo_respected room (as @ [?w])) \<and> cs_accesses (as @ [?w]) = []"
    using s1(2) as polled_wrote [OF as(2)] by (simp add: write32_def cs_accesses_Cons uart_not_cs)
  then show ?thesis unfolding wrote_def by (intro exI)
qed

lemma uart_tx_puts_wrote: "uart_tx_puts M t s = Some s' \<Longrightarrow> wrote (crlf t) s s'"
  unfolding uart_tx_puts_def
proof (induction t arbitrary: s)
  case Nil
  then show ?case by (simp add: crlf_def wrote_Nil)
next
  case (Cons c t)
  then obtain s1 where s1: "uart_tx_char M c s = Some s1" "for_each (uart_tx_char M) t s1 = Some s'"
    by (auto split: bind_splits)
  have "wrote (crlf [c]) s s1"
    using s1(1) wrote_trans [of "[CR]" s _ "[NL]" s1]
    by (auto simp: uart_tx_char_def crlf_def split: if_splits bind_splits dest!: uart_tx_putc_wrote)
  then have "wrote (crlf [c] @ crlf t) s s'" using Cons.IH [OF s1(2)] by (rule wrote_trans)
  then show ?case by (simp add: crlf_def)
qed

text \<open>So the writer is a printer CoreSight sampling may use.\<close>

interpretation fw: cs_printer "uart_tx_puts M" for M
proof
  fix t and s s' :: "('a, 'b) io_scheme"
  assume "uart_tx_puts M t s = Some s'"
  then have "wrote (crlf t) s s'" by (rule uart_tx_puts_wrote)
  then show "cs_accesses (io_log s') = cs_accesses (io_log s)" by (auto simp: wrote_def)
qed

text \<open>The FIFO is respected across a whole report: the sampling's own accesses are elsewhere.\<close>

definition disciplined :: "('d, 'z) io_scheme \<Rightarrow> ('d, 'z) io_scheme \<Rightarrow> bool" where
  "disciplined s s' \<longleftrightarrow> (\<exists>as. io_log s' = io_log s @ as \<and> (\<forall>room. fifo_respected room as))"

lemma disciplined_trans: "disciplined s t \<Longrightarrow> disciplined t u \<Longrightarrow> disciplined s u"
  unfolding disciplined_def by (metis append.assoc fifo_respected_append)

lemma wrote_disciplined: "wrote t s s' \<Longrightarrow> disciplined s s'"
  by (auto simp: wrote_def disciplined_def)

lemma cs_window_not_utxh: "cs_window a \<Longrightarrow> a \<noteq> utxh"
  using uart_not_cs by blast

interpretation fw_fifo: cs_discipline M "uart_tx_puts M" disciplined for M
  by unfold_locales
    (auto simp: disciplined_def read32_def read64_def write32_def split_beta Let_def uart_not_cs
      dest: uart_tx_puts_wrote [THEN wrote_disciplined, unfolded disciplined_def] cs_window_not_utxh
      intro: disciplined_trans [unfolded disciplined_def])

section \<open>The stall detector\<close>

text \<open>
  A history of observations (stuck, now), oldest first; the detector's state after it; and the time its last
  unbroken run of stuck observations began.
\<close>

definition stall_after :: "stall \<Rightarrow> (bool \<times> u64) list \<Rightarrow> stall" where
  "stall_after = foldl (\<lambda>s (stuck, now). snd (stalled s stuck now))"

definition stuck_from :: "(bool \<times> u64) list \<Rightarrow> u64" where
  "stuck_from hist = snd (last (takeWhile fst (rev hist)))"

lemma stall_after_since:
  assumes "\<forall>(b, t) \<in> set hist. t \<noteq> 0"
  shows "st_limit (stall_after \<lparr>st_since = 0, st_limit = l\<rparr> hist) = l
    \<and> st_since (stall_after \<lparr>st_since = 0, st_limit = l\<rparr> hist)
        = (if takeWhile fst (rev hist) = [] then 0 else stuck_from hist)"
  using assms
proof (induction hist rule: rev_induct)
  case (snoc x hist)
  obtain b t where x: "x = (b, t)" by fastforce
  have "stuck_from hist \<noteq> 0" if "takeWhile fst (rev hist) \<noteq> []"
    using snoc.prems last_in_set [OF that] set_takeWhileD [of _ fst "rev hist"] by (fastforce simp: stuck_from_def)
  with snoc x show ?case
    by (auto simp: stall_after_def stalled_def Let_def stuck_from_def)
qed (simp add: stall_after_def)

text \<open>
  C26. The stall detector fires exactly when the thing watched has been seen stuck in every poll since some poll
  at least the limit ago: a single poll that finds it moving starts the clock again.  (Time zero is
  the detector's own mark for "not stuck", so polls are assumed to happen after it.)
\<close>

theorem stall_fires_iff_stuck_throughout:
  assumes "\<forall>(b, t) \<in> set hist. t \<noteq> 0" and "now \<noteq> 0"
  shows "fst (stalled (stall_after \<lparr>st_since = 0, st_limit = l\<rparr> hist) stuck now)
    \<longleftrightarrow> stuck \<and> l \<le> now - stuck_from (hist @ [(stuck, now)])"
proof (cases stuck)
  case True
  show ?thesis
  proof (cases "takeWhile fst (rev hist) = []")
    case True
    with \<open>stuck\<close> show ?thesis
      using stall_after_since [OF assms(1), of l] by (simp add: stalled_def Let_def stuck_from_def)
  next
    case False
    moreover have "stuck_from hist \<noteq> 0"
      using assms(1) last_in_set [OF False] set_takeWhileD [of _ fst "rev hist"] by (fastforce simp: stuck_from_def)
    ultimately show ?thesis
      using \<open>stuck\<close> stall_after_since [OF assms(1), of l] by (simp add: stalled_def Let_def stuck_from_def)
  qed
qed (simp add: stalled_def)

theorem stall_fires_iff_stuck_throughout_witness:
  "fst (stalled (stall_after \<lparr>st_since = 0, st_limit = 30\<rparr> [(True, 1), (False, 20), (True, 40), (True, 60)]) True 75)"
  using stall_fires_iff_stuck_throughout [of "[(True, 1), (False, 20), (True, 40), (True, 60)]" 75 30 True]
  by (simp add: stuck_from_def)

section \<open>Iterations\<close>

text \<open>An observation only reads, and not from the CoreSight pages.\<close>

definition looked :: "('d, 'z) io_scheme \<Rightarrow> ('d, 'z) io_scheme \<Rightarrow> bool" where
  "looked s s' \<longleftrightarrow> (\<exists>as d. s' = s\<lparr>io_dev := d, io_log := io_log s @ as\<rparr> \<and> tx_chars as = [] \<and> cs_accesses as = [])"

lemma looked_trans: "looked s t \<Longrightarrow> looked t u \<Longrightarrow> looked s u"
proof -
  assume "looked s t" "looked t u"
  then obtain as d bs e where "t = s\<lparr>io_dev := d, io_log := io_log s @ as\<rparr>" "tx_chars as = []" "cs_accesses as = []"
    "u = t\<lparr>io_dev := e, io_log := io_log t @ bs\<rparr>" "tx_chars bs = []" "cs_accesses bs = []" unfolding looked_def by blast
  then have "u = s\<lparr>io_dev := e, io_log := io_log s @ as @ bs\<rparr> \<and> tx_chars (as @ bs) = [] \<and> cs_accesses (as @ bs) = []" by simp
  then show ?thesis unfolding looked_def by (intro exI)
qed

lemma looked_read32: "\<not> cs_window a \<Longrightarrow> looked s (snd (read32 M a s))"
  unfolding looked_def read32_def
  by (intro exI [of _ "[Read32 a (fst (mc_read32 M a (io_dev s)))]"] exI [of _ "snd (mc_read32 M a (io_dev s))"])
    (simp add: split_beta cs_accesses_Cons)

lemma looked_read64: "\<not> cs_window a \<Longrightarrow> looked s (snd (read64 M a s))"
  unfolding looked_def read64_def
  by (intro exI [of _ "[Read64 a (fst (mc_read64 M a (io_dev s)))]"] exI [of _ "snd (mc_read64 M a (io_dev s))"])
    (simp add: split_beta cs_accesses_Cons)

lemma looked_cntpct: "looked s (snd (cntpct M s))"
  unfolding looked_def cntpct_def
  by (intro exI [of _ "[]"] exI [of _ "snd (mc_cntpct M (io_dev s))"]) (simp add: split_beta)

lemma looked_uart:
  "looked s (snd (uart_read M EXYNOS_UART_UTRSTAT s))" "looked s (snd (uart_read M EXYNOS_UART_UFSTAT s))"
  by (simp_all add: uart_read_def looked_read32 cs_window_def uart_vaddr_def)

lemma looked_ring:
  "\<not> cs_window v \<Longrightarrow> \<not> cs_window (v + 8) \<Longrightarrow> looked s (snd (ring_pending M v s))"
  by (simp add: ring_pending_def split_beta Let_def looked_trans [OF looked_read64 looked_read64])

lemma looked_rings:
  "looked s (snd (ring_pending M vmm_console_vaddr s))" "looked s (snd (ring_pending M uartrx_console_vaddr s))"
  by (rule looked_ring; simp add: cs_window_def vmm_console_vaddr_def uartrx_console_vaddr_def)+

lemma looked_pending: "looked s (snd (output_pending M s))"
  by (simp add: output_pending_def split_beta Let_def looked_rings looked_trans [OF looked_rings(1) looked_rings(2)])

lemma looked_tx_stuck: "looked s (snd (tx_stuck M s))"
  by (simp add: tx_stuck_def split_beta Let_def looked_pending looked_trans [OF looked_pending looked_uart(1)])

lemma looked_rx_stuck: "looked s (snd (rx_stuck M s))"
  by (simp add: rx_stuck_def split_beta Let_def looked_uart)

text \<open>The log since a state, and what an iteration does to it.\<close>

definition log_since :: "('d, 'z) io_scheme \<Rightarrow> ('d, 'z) io_scheme \<Rightarrow> access list" where
  "log_since s s' = drop (length (io_log s)) (io_log s')"

definition extends :: "'d freezewatch \<Rightarrow> 'd freezewatch \<Rightarrow> bool" where
  "extends s s' \<longleftrightarrow> (\<exists>as. io_log s' = io_log s @ as \<and> tx_chars as = [] \<and> cs_accesses as = []) \<and> fw_reported s' = fw_reported s"

lemma looked_extends: "looked s s' \<Longrightarrow> extends s s'"
  by (auto simp: looked_def extends_def)

lemma extends_trans: "extends s t \<Longrightarrow> extends t u \<Longrightarrow> extends s u"
  by (auto simp: extends_def)

lemma extends_stall [simp]:
  "extends s (t\<lparr>fw_tx := x\<rparr>) = extends s t" "extends s (t\<lparr>fw_rx := x\<rparr>) = extends s t"
  "extends (s\<lparr>fw_tx := x\<rparr>) t = extends s t" "extends (s\<lparr>fw_rx := x\<rparr>) t = extends s t"
  by (simp_all add: extends_def)

lemma watch_observe_extends: "extends s (snd (watch_observe M s))"
proof -
  let ?s1 = "snd (cntpct M s)"
  let ?s2 = "snd (tx_stuck M ?s1)"
  let ?s3 = "?s2\<lparr>fw_tx := snd (stalled (fw_tx ?s2) (fst (tx_stuck M ?s1)) (fst (cntpct M s)))\<rparr>"
  let ?s4 = "snd (rx_stuck M ?s3)"
  let ?s5 = "?s4\<lparr>fw_rx := snd (stalled (fw_rx ?s4) (fst (rx_stuck M ?s3)) (fst (cntpct M s)))\<rparr>"
  let ?s6 = "snd (output_pending M ?s5)"
  have "extends s ?s1" by (rule looked_extends, rule looked_cntpct)
  moreover have "extends ?s1 ?s2" by (rule looked_extends, rule looked_tx_stuck)
  moreover have "extends ?s2 ?s4" using looked_extends [OF looked_rx_stuck, of ?s3 M] by simp
  moreover have "extends ?s4 ?s6" using looked_extends [OF looked_pending, of ?s5 M] by simp
  ultimately have 6: "extends s ?s6" by (blast intro: extends_trans)
  have "extends ?s6 (snd (rx_stuck M ?s6))" by (rule looked_extends, rule looked_rx_stuck)
  then have "extends s (snd (rx_stuck M ?s6))" using 6 by (blast intro: extends_trans)
  then show ?thesis using 6 by (simp add: watch_observe_def split_beta Let_def)
qed

lemma report_freeze_wrote:
  assumes "report_freeze M why s = Some s'"
  shows "\<exists>as mid sessions. io_log s' = io_log s @ as \<and> (\<forall>room. fifo_respected room as)
    \<and> tx_chars as = crlf ([NL] @ ''FREEZEWATCH: '' @ why @ ''; sampling every core'' @ [NL]) @ mid @ crlf (''FREEZEWATCH: done'' @ [NL])
    \<and> cs_accesses as = concat sessions \<and> list_all2 is_session [0..<CS_NUM_CORES] sessions"
proof -
  obtain s1 s2 s3 s4 where "wrote (crlf ([NL] @ ''FREEZEWATCH: '')) s s1" "wrote (crlf why) s1 s2"
      "wrote (crlf (''; sampling every core'' @ [NL])) s2 s3" and s4: "cs_sample_all M (uart_tx_puts M) s3 = Some s4"
      and fin: "wrote (crlf (''FREEZEWATCH: done'' @ [NL])) s4 s'"
    using assms unfolding report_freeze_def by (auto split: bind_splits dest!: uart_tx_puts_wrote)
  then have "wrote (crlf ([NL] @ ''FREEZEWATCH: '') @ crlf why @ crlf (''; sampling every core'' @ [NL])) s s3"
    by (blast intro: wrote_trans)
  then have "wrote (crlf ([NL] @ ''FREEZEWATCH: '' @ why @ ''; sampling every core'' @ [NL])) s s3"
    by (simp add: crlf_def)
  then obtain as where as: "io_log s3 = io_log s @ as" "\<forall>room. fifo_respected room as" "cs_accesses as = []"
      "tx_chars as = crlf ([NL] @ ''FREEZEWATCH: '' @ why @ ''; sampling every core'' @ [NL])"
    by (auto simp: wrote_def)
  obtain bs where bs: "io_log s4 = io_log s3 @ bs" "\<forall>room. fifo_respected room bs"
    using fw_fifo.R_sample_all [OF s4] by (auto simp: disciplined_def)
  obtain sessions where ss: "cs_accesses (io_log s4) = cs_accesses (io_log s3) @ concat sessions"
      "list_all2 is_session [0..<CS_NUM_CORES] sessions" using fw.sample_all_sessions [OF s4] by blast
  obtain cs where cs: "io_log s' = io_log s4 @ cs" "\<forall>room. fifo_respected room cs" "cs_accesses cs = []"
      "tx_chars cs = crlf (''FREEZEWATCH: done'' @ [NL])" using fin by (auto simp: wrote_def)
  have "io_log s' = io_log s @ as @ bs @ cs" using as bs cs by simp
  moreover have "\<forall>room. fifo_respected room (as @ bs @ cs)" using as bs cs by (blast intro: fifo_respected_append)
  moreover have "tx_chars (as @ bs @ cs) = crlf ([NL] @ ''FREEZEWATCH: '' @ why @ ''; sampling every core'' @ [NL])
      @ tx_chars bs @ crlf (''FREEZEWATCH: done'' @ [NL])" using as cs by simp
  moreover have "cs_accesses (as @ bs @ cs) = concat sessions" using as bs cs ss(1) by simp
  ultimately show ?thesis using ss(2) by blast
qed

text \<open>An iteration reports exactly when something has stalled and this freeze has not been reported.\<close>

definition freeze_report :: "string \<Rightarrow> access list \<Rightarrow> bool" where
  "freeze_report why as \<longleftrightarrow> (\<exists>mid sessions.
     tx_chars as = crlf ([NL] @ ''FREEZEWATCH: '' @ why @ ''; sampling every core'' @ [NL]) @ mid @ crlf (''FREEZEWATCH: done'' @ [NL])
     \<and> cs_accesses as = concat sessions \<and> list_all2 is_session [0..<CS_NUM_CORES] sessions)"

lemma watch_step_cases:
  assumes "watch_observe M s = ((tx, rx, idle), s1)" and "watch_step M s = Some s'"
  shows "fw_reported s' = ((fw_reported s \<and> \<not> idle) \<or> tx \<or> rx)"
    and "if (tx \<or> rx) \<and> \<not> (fw_reported s \<and> \<not> idle)
      then freeze_report (if rx then ''received characters unread for 4 s'' else ''console output pending and the UART idle for 3 s'')
             (log_since s s')
      else tx_chars (log_since s s') = [] \<and> cs_accesses (log_since s s') = []"
proof -
  let ?why = "if rx then ''received characters unread for 4 s'' else ''console output pending and the UART idle for 3 s''"
  let ?s2 = "if idle then s1\<lparr>fw_reported := False\<rparr> else s1"
  obtain os where os: "io_log s1 = io_log s @ os" "tx_chars os = []" "cs_accesses os = []" and rep: "fw_reported s1 = fw_reported s"
    using watch_observe_extends [of s M] assms(1) by (auto simp: extends_def)
  have act: "watch_act M tx rx idle s1 = Some s'" using assms by (simp add: watch_step_def)
  show "fw_reported s' = ((fw_reported s \<and> \<not> idle) \<or> tx \<or> rx)"
    using act rep by (auto simp: watch_act_def Let_def split: if_splits bind_splits)
  show "if (tx \<or> rx) \<and> \<not> (fw_reported s \<and> \<not> idle) then freeze_report ?why (log_since s s')
      else tx_chars (log_since s s') = [] \<and> cs_accesses (log_since s s') = []"
  proof (cases "(tx \<or> rx) \<and> \<not> (fw_reported s \<and> \<not> idle)")
    case True
    then obtain s3 where s3: "report_freeze M ?why ?s2 = Some s3" "s' = s3\<lparr>fw_reported := True\<rparr>"
      using act rep by (auto simp: watch_act_def Let_def split: if_splits bind_splits)
    obtain as mid sessions where as: "io_log s3 = io_log ?s2 @ as"
        "tx_chars as = crlf ([NL] @ ''FREEZEWATCH: '' @ ?why @ ''; sampling every core'' @ [NL]) @ mid @ crlf (''FREEZEWATCH: done'' @ [NL])"
        "cs_accesses as = concat sessions" "list_all2 is_session [0..<CS_NUM_CORES] sessions"
      using report_freeze_wrote [OF s3(1)] by blast
    have "log_since s s' = os @ as" using as(1) s3(2) os by (simp add: log_since_def)
    then have "freeze_report ?why (log_since s s')"
      unfolding freeze_report_def using as os by (intro exI [of _ mid] exI [of _ sessions]) simp
    with True show ?thesis by (simp only: if_True simp_thms)
  next
    case False
    then have "s' = ?s2" using act rep by (auto simp: watch_act_def Let_def split: if_splits)
    then have "log_since s s' = os" using os by (simp add: log_since_def)
    with False os show ?thesis by (simp only: if_False simp_thms)
  qed
qed

text \<open>Iterations from a state on, each summarised by whether it found nothing waiting and whether it wrote to the UART.\<close>

inductive watch_trace :: "'d machine \<Rightarrow> 'd freezewatch \<Rightarrow> (bool \<times> bool) list \<Rightarrow> 'd freezewatch \<Rightarrow> bool" for M s where
  start: "watch_trace M s [] s"
| step: "watch_trace M s obs s1 \<Longrightarrow> watch_observe M s1 = ((tx, rx, idle), s2) \<Longrightarrow> watch_step M s1 = Some s3
    \<Longrightarrow> watch_trace M s (obs @ [(idle, tx_chars (log_since s1 s3) \<noteq> [])]) s3"

definition once_per_freeze :: "(bool \<times> bool) list \<Rightarrow> bool" where
  "once_per_freeze obs \<longleftrightarrow> (\<forall>j < length obs. \<forall>i < j. snd (obs ! i) \<and> snd (obs ! j) \<longrightarrow> (\<exists>k. i < k \<and> k \<le> j \<and> fst (obs ! k)))"

lemma once_per_freeze_snoc:
  assumes "once_per_freeze obs"
    and "\<And>i. i < length obs \<Longrightarrow> snd (obs ! i) \<Longrightarrow> w \<Longrightarrow> \<exists>k. i < k \<and> k \<le> length obs \<and> fst ((obs @ [(idle, w)]) ! k)"
  shows "once_per_freeze (obs @ [(idle, w)])"
  unfolding once_per_freeze_def
proof (intro allI impI)
  let ?obs = "obs @ [(idle, w)]"
  fix j i
  assume j: "j < length ?obs" and i: "i < j" and rep: "snd (?obs ! i) \<and> snd (?obs ! j)"
  show "\<exists>k. i < k \<and> k \<le> j \<and> fst (?obs ! k)"
  proof (cases "j < length obs")
    case True
    then have "snd (obs ! i)" "snd (obs ! j)" using rep i by (simp_all add: nth_append)
    then obtain k where "i < k" "k \<le> j" "fst (obs ! k)"
      using assms(1) True i unfolding once_per_freeze_def by blast
    then show ?thesis using True by (intro exI [of _ k]) (simp add: nth_append)
  next
    case False
    then have "j = length obs" using j by simp
    then show ?thesis using assms(2) [of i] rep i by (simp add: nth_append)
  qed
qed

lemma freeze_report_text: "freeze_report why as \<Longrightarrow> tx_chars as \<noteq> []"
  by (auto simp: freeze_report_def crlf_def)

lemma watch_trace_inv:
  "watch_trace M s obs s' \<Longrightarrow> \<not> fw_reported s \<Longrightarrow> once_per_freeze obs
     \<and> (\<forall>i < length obs. snd (obs ! i) \<and> (\<forall>k. i < k \<and> k < length obs \<longrightarrow> \<not> fst (obs ! k)) \<longrightarrow> fw_reported s')"
proof (induction rule: watch_trace.induct)
  case start
  then show ?case by (simp add: once_per_freeze_def)
next
  case (step obs s1 tx rx idle s2 s3)
  let ?w = "tx_chars (log_since s1 s3) \<noteq> []"
  note IH = step.IH [OF step.prems]
  have w: "?w \<longleftrightarrow> (tx \<or> rx) \<and> \<not> (fw_reported s1 \<and> \<not> idle)" and r: "fw_reported s3 = ((fw_reported s1 \<and> \<not> idle) \<or> tx \<or> rx)"
    using watch_step_cases [OF step.hyps(2,3)] freeze_report_text by (auto split: if_splits)
  have old: "fw_reported s1" if "i < length obs" "snd (obs ! i)" "\<forall>k. i < k \<and> k < length obs \<longrightarrow> \<not> fst (obs ! k)" for i
    using IH that by blast
  have "\<exists>k. i < k \<and> k \<le> length obs \<and> fst ((obs @ [(idle, ?w)]) ! k)" if "i < length obs" "snd (obs ! i)" ?w for i
  proof (rule ccontr)
    assume none: "\<not> ?thesis"
    then have "\<not> idle" using that(1) by (auto simp: nth_append)
    moreover have "\<not> fst (obs ! k)" if "i < k" "k < length obs" for k
      using none that by (metis nth_append less_imp_le)
    then have "fw_reported s1" using old [OF that(1,2)] by blast
    ultimately show False using w that(3) by blast
  qed
  then have "once_per_freeze (obs @ [(idle, ?w)])"
    using IH by (intro once_per_freeze_snoc) auto
  moreover have "fw_reported s3" if "i < length (obs @ [(idle, ?w)])" "snd ((obs @ [(idle, ?w)]) ! i)"
      "\<forall>k. i < k \<and> k < length (obs @ [(idle, ?w)]) \<longrightarrow> \<not> fst ((obs @ [(idle, ?w)]) ! k)" for i
  proof (cases "i < length obs")
    case True
    then have "\<not> idle" using that(3) [rule_format, of "length obs"] by simp
    moreover have "fw_reported s1" using old [OF True] that(2,3) True by (auto simp: nth_append split: if_splits)
    ultimately show ?thesis using r by blast
  next
    case False
    then show ?thesis using that(1,2) w r by (auto simp: nth_append)
  qed
  ultimately show ?case by blast
qed

text \<open>
  C25. Each iteration of the watcher either writes nothing, or writes one complete freeze report: its header with the
  reason, the CoreSight samples of all eight cores, each taken by the unlock-sample-lock protocol, and its
  trailer.  It reports exactly when something stalled and the present freeze has not been reported.
\<close>

theorem watch_step_reports:
  assumes "watch_observe M s = ((tx, rx, idle), s1)" and "watch_step M s = Some s'"
  shows "if (tx \<or> rx) \<and> \<not> (fw_reported s \<and> \<not> idle)
      then freeze_report (if rx then ''received characters unread for 4 s'' else ''console output pending and the UART idle for 3 s'')
             (log_since s s') \<and> fw_reported s'
      else tx_chars (log_since s s') = [] \<and> cs_accesses (log_since s s') = [] \<and> fw_reported s' = (fw_reported s \<and> \<not> idle)"
  using watch_step_cases [OF assms] by (cases "(tx \<or> rx) \<and> \<not> (fw_reported s \<and> \<not> idle)") auto

text \<open>For the witnesses: a quiet machine whose registers all read zero.\<close>

definition quiet_machine :: "u64 machine" where
  "quiet_machine = \<lparr>mc_read32 = (\<lambda>a d. (0, d)), mc_write32 = (\<lambda>a v d. d), mc_read64 = (\<lambda>a d. (0, d)),
     mc_cntpct = (\<lambda>d. (d, d + 1)), mc_cntfrq = 24576000\<rparr>"

lemma quiet_reads:
  "read32 quiet_machine a s = (0, s\<lparr>io_log := io_log s @ [Read32 a 0]\<rparr>)"
  "read64 quiet_machine a s = (0, s\<lparr>io_log := io_log s @ [Read64 a 0]\<rparr>)"
  "cntpct quiet_machine s = (io_dev s, s\<lparr>io_dev := io_dev s + 1\<rparr>)"
  by (simp_all add: quiet_machine_def read32_def read64_def cntpct_def)

lemma quiet_observe:
  "fst (watch_observe quiet_machine (watch_init quiet_machine 7)) = (False, False, True)"
  by (simp add: watch_observe_def watch_init_def tx_stuck_def rx_stuck_def output_pending_def ring_pending_def
      stalled_def uart_read_def quiet_reads Let_def)

lemma quiet_step: "watch_observe M s = ((False, False, idle), s1) \<Longrightarrow> watch_step M s = Some (if idle then s1\<lparr>fw_reported := False\<rparr> else s1)"
  by (simp add: watch_step_def watch_act_def Let_def)

theorem watch_step_reports_witness:
  "\<exists>s'. watch_step quiet_machine (watch_init quiet_machine 7) = Some s'
    \<and> tx_chars (log_since (watch_init quiet_machine 7) s') = [] \<and> \<not> fw_reported s'"
proof -
  let ?s = "watch_init quiet_machine 7"
  obtain s1 where o1: "watch_observe quiet_machine ?s = ((False, False, True), s1)"
    using quiet_observe by (metis prod.collapse)
  show ?thesis using watch_step_reports [OF o1 quiet_step [OF o1]] quiet_step [OF o1] by simp
qed

text \<open>
  C24. However long the watcher runs, a freeze is reported once: between two iterations that write to the UART
  there is one, the second itself included, that found no output pending and no character unread.
\<close>

theorem freeze_reported_once:
  assumes "watch_trace M (watch_init M d) obs s" and "i < j" and "j < length obs" and "snd (obs ! i)" and "snd (obs ! j)"
  shows "\<exists>k. i < k \<and> k \<le> j \<and> fst (obs ! k)"
proof -
  have "once_per_freeze obs" using watch_trace_inv [OF assms(1)] by (simp add: watch_init_def Let_def)
  then show ?thesis using assms(2-5) unfolding once_per_freeze_def by blast
qed

text \<open>On a UART that always drains in the end, every iteration returns.\<close>

definition uart_drains :: "'d machine \<Rightarrow> bool" where
  "uart_drains M \<longleftrightarrow> (\<forall>d. \<exists>n. tx_not_full (nth_read M ufstat n d))"

lemma uart_tx_puts_returns: "uart_drains M \<Longrightarrow> \<exists>s'. uart_tx_puts M t s = Some s'"
proof -
  assume drains: "uart_drains M"
  have putc: "\<exists>s'. uart_tx_putc M c s = Some s'" for c and s :: "('a, 'b) io_scheme"
  proof -
    obtain n where "tx_not_full (nth_read M ufstat n (io_dev s))" using drains unfolding uart_drains_def by blast
    then obtain s1 where "poll M ufstat tx_not_full s = Some s1" using poll_returns by blast
    then show ?thesis by (simp add: uart_tx_putc_def ufstat_def)
  qed
  show ?thesis unfolding uart_tx_puts_def uart_tx_char_def by (rule for_each_total, intro total_intros putc)
qed

lemma uart_tx_printer: "uart_drains M \<Longrightarrow> cs_total_printer (uart_tx_puts M)"
  using uart_tx_puts_returns by unfold_locales blast

lemma report_freeze_returns: "uart_drains M \<Longrightarrow> \<exists>s'. report_freeze M why s = Some s'"
  unfolding report_freeze_def
  by (intro total_intros uart_tx_puts_returns cs_total_printer.sample_all_total uart_tx_printer)

lemma watch_act_returns: "uart_drains M \<Longrightarrow> \<exists>s'. watch_act M tx rx idle s = Some s'"
  unfolding watch_act_def Let_def by (intro total_intros report_freeze_returns)

text \<open>
  A machine that freezes twice: characters wait unread whenever it is polled, except at the third poll, and
  ten ticks pass between polls.
\<close>

definition frozen_machine :: "nat machine" where
  "frozen_machine = \<lparr>mc_read32 = (\<lambda>a d. (if a = ufstat \<and> d \<noteq> 3 then 1 else 0, d)), mc_write32 = (\<lambda>a v d. d),
     mc_read64 = (\<lambda>a d. (0, d)), mc_cntpct = (\<lambda>d. (10 * (of_nat d + 1), Suc d)), mc_cntfrq = 1\<rparr>"

lemma frozen_reads:
  "read32 frozen_machine a s = (if a = ufstat \<and> io_dev s \<noteq> 3 then 1 else 0,
     s\<lparr>io_log := io_log s @ [Read32 a (if a = ufstat \<and> io_dev s \<noteq> 3 then 1 else 0)]\<rparr>)"
  "read64 frozen_machine a s = (0, s\<lparr>io_log := io_log s @ [Read64 a 0]\<rparr>)"
  "cntpct frozen_machine s = (10 * (of_nat (io_dev s) + 1), s\<lparr>io_dev := Suc (io_dev s)\<rparr>)"
  "write32 frozen_machine a v s = s\<lparr>io_log := io_log s @ [Write32 a v]\<rparr>"
  by (simp_all add: frozen_machine_def read32_def read64_def cntpct_def write32_def)

lemma frozen_drains: "uart_drains frozen_machine"
proof -
  have "tx_not_full (nth_read frozen_machine ufstat 0 d)" for d by (simp add: frozen_machine_def tx_not_full_def)
  then show ?thesis unfolding uart_drains_def by blast
qed

text \<open>Only polling moves this machine on, so a report leaves it, and the watcher's variables, as they were.\<close>

definition undisturbed :: "(nat, 'z) io_scheme \<Rightarrow> (nat, 'z) io_scheme \<Rightarrow> bool" where
  "undisturbed s s' \<longleftrightarrow> io_dev s' = io_dev s \<and> io.more s' = io.more s"

lemma frozen_poll: "poll frozen_machine a P s = Some s' \<Longrightarrow> undisturbed s s'"
  by (induction rule: poll_induct) (auto simp: frozen_reads undisturbed_def)

lemma frozen_putc: "uart_tx_putc frozen_machine c s = Some s' \<Longrightarrow> undisturbed s s'"
  by (auto simp: uart_tx_putc_def uart_write_def frozen_reads undisturbed_def split: bind_splits dest!: frozen_poll)

lemma frozen_char: "uart_tx_char frozen_machine c s = Some s' \<Longrightarrow> undisturbed s s'"
  by (auto simp: uart_tx_char_def undisturbed_def split: if_splits bind_splits dest!: frozen_putc)

lemma frozen_puts: "uart_tx_puts frozen_machine t s = Some s' \<Longrightarrow> undisturbed s s'"
  unfolding uart_tx_puts_def by (erule for_each_inv [rotated]) (auto simp: undisturbed_def dest!: frozen_char)

interpretation frozen: cs_discipline frozen_machine "uart_tx_puts frozen_machine" undisturbed
  by unfold_locales (auto simp: undisturbed_def frozen_reads dest!: frozen_puts)

lemma frozen_report: "report_freeze frozen_machine why s = Some s' \<Longrightarrow> undisturbed s s'"
  by (auto simp: report_freeze_def undisturbed_def split: bind_splits dest!: frozen_puts frozen.R_sample_all)

lemma fw_rx_more: "io.more x = io.more (y :: 'd freezewatch) \<Longrightarrow> fw_rx x = fw_rx y"
  by (cases x, cases y) simp

lemma frozen_step:
  assumes "d = io_dev s"
  defines "st \<equiv> stalled (fw_rx s) (Suc d \<noteq> 3) (10 * (of_nat d + 1))"
  shows "\<exists>s1 s'. watch_observe frozen_machine s = ((False, fst st, Suc d = 3), s1) \<and> watch_step frozen_machine s = Some s'
    \<and> io_dev s' = Suc d \<and> fw_rx s' = snd st \<and> fw_reported s' = ((fw_reported s \<and> Suc d \<noteq> 3) \<or> fst st)
    \<and> (tx_chars (log_since s s') \<noteq> [] \<longleftrightarrow> fst st \<and> \<not> (fw_reported s \<and> Suc d \<noteq> 3))"
proof -
  obtain s1 where o1: "watch_observe frozen_machine s = ((False, fst st, Suc d = 3), s1)"
    and s1: "io_dev s1 = Suc d" "fw_rx s1 = snd st"
    using assms by (auto simp: watch_observe_def tx_stuck_def rx_stuck_def output_pending_def ring_pending_def uart_read_def
        frozen_reads ufstat_def stalled_def [of "fw_tx _"] split_beta Let_def)
  obtain s' where s': "watch_act frozen_machine False (fst st) (Suc d = 3) s1 = Some s'"
    using watch_act_returns [OF frozen_drains] by blast
  then have step: "watch_step frozen_machine s = Some s'" using o1 by (simp add: watch_step_def)
  have "io_dev s' = Suc d \<and> fw_rx s' = snd st"
    using s' s1 by (auto simp: watch_act_def Let_def undisturbed_def split: if_splits bind_splits dest!: frozen_report fw_rx_more)
  then show ?thesis
    using o1 step watch_step_cases [OF o1 step] freeze_report_text by (auto split: if_splits)
qed

lemma frozen_extend:
  assumes "watch_trace frozen_machine s0 obs s" and "io_dev s = d" and "fw_rx s = x" and "fw_reported s = r"
    and "stalled x (Suc d \<noteq> 3) (10 * (of_nat d + 1)) = (f, x')"
  shows "\<exists>s'. watch_trace frozen_machine s0 (obs @ [(Suc d = 3, f \<and> \<not> (r \<and> Suc d \<noteq> 3))]) s'
    \<and> io_dev s' = Suc d \<and> fw_rx s' = x' \<and> fw_reported s' = ((r \<and> Suc d \<noteq> 3) \<or> f)"
proof -
  obtain s1 s' where o1: "watch_observe frozen_machine s = ((False, f, Suc d = 3), s1)" and st: "watch_step frozen_machine s = Some s'"
    and s': "io_dev s' = Suc d" "fw_rx s' = x'" "fw_reported s' = ((r \<and> Suc d \<noteq> 3) \<or> f)"
    and w: "(tx_chars (log_since s s') \<noteq> []) = (f \<and> \<not> (r \<and> Suc d \<noteq> 3))"
    using frozen_step [of d s] assms(2-5) by auto
  show ?thesis using watch_trace.step [OF assms(1) o1 st] s' unfolding w by blast
qed

lemma frozen_twice:
  "\<exists>s. watch_trace frozen_machine (watch_init frozen_machine 0)
     [(False, False), (False, True), (True, False), (False, False), (False, True)] s"
proof -
  let ?s0 = "watch_init frozen_machine 0"
  have s0: "watch_trace frozen_machine ?s0 [] ?s0" "io_dev ?s0 = 0" "fw_rx ?s0 = \<lparr>st_since = 0, st_limit = 4\<rparr>" "fw_reported ?s0 = False"
    by (simp_all add: watch_trace.start watch_init_def frozen_machine_def Let_def)
  obtain s1 where s1: "watch_trace frozen_machine ?s0 [(False, False)] s1" "io_dev s1 = 1"
    "fw_rx s1 = \<lparr>st_since = 10, st_limit = 4\<rparr>" "fw_reported s1 = False"
    using frozen_extend [OF s0] by (auto simp: stalled_def Let_def)
  obtain s2 where s2: "watch_trace frozen_machine ?s0 [(False, False), (False, True)] s2" "io_dev s2 = 2"
    "fw_rx s2 = \<lparr>st_since = 10, st_limit = 4\<rparr>" "fw_reported s2 = True"
    using frozen_extend [OF s1] by (auto simp: stalled_def Let_def simp del: One_nat_def)
  obtain s3 where s3: "watch_trace frozen_machine ?s0 [(False, False), (False, True), (True, False)] s3" "io_dev s3 = 3"
    "fw_rx s3 = \<lparr>st_since = 0, st_limit = 4\<rparr>" "fw_reported s3 = False"
    using frozen_extend [OF s2] by (auto simp: stalled_def Let_def)
  obtain s4 where s4: "watch_trace frozen_machine ?s0 [(False, False), (False, True), (True, False), (False, False)] s4" "io_dev s4 = 4"
    "fw_rx s4 = \<lparr>st_since = 40, st_limit = 4\<rparr>" "fw_reported s4 = False"
    using frozen_extend [OF s3] by (auto simp: stalled_def Let_def)
  show ?thesis using frozen_extend [OF s4] by (auto simp: stalled_def Let_def)
qed

theorem freeze_reported_once_witness:
  "\<exists>s. watch_trace frozen_machine (watch_init frozen_machine 0)
     [(False, False), (False, True), (True, False), (False, False), (False, True)] s
   \<and> (\<exists>k. 1 < k \<and> k \<le> 4 \<and> fst ([(False, False), (False, True), (True, False), (False, False), (False, True)] ! k))"
  using frozen_twice freeze_reported_once
    [of frozen_machine 0 "[(False, False), (False, True), (True, False), (False, False), (False, True)]" _ 1 4]
  by auto

end
