(* ===== verification/Uartrx_Exchange.thy ===== *)
theory Uartrx_Exchange
  imports Uartrx
begin

text \<open>
  The exchange of a command with the VMM (\<open>cmd_to_vmm\<close> and \<open>wait_for_vmm\<close> of \<^verbatim>\<open>uartrx/uartrx.c\<close>).  What \<open>uartrx\<close> relies on the VMM
  for is the locale \<open>cmd_consumer\<close>: it takes commands off the page and reports, and never writes the producer's side.  The
  root theory interprets it on the VMM's own handler.
\<close>

text \<open>The state in which \<open>uartrx\<close> starts to wait: the command published on the page and the VMM notified.\<close>

definition handed_over :: "'d rx_platform \<Rightarrow> cmd_entry \<Rightarrow> 'd uartrx \<Rightarrow> 'd uartrx" where
  "handed_over P e s = rx_do NotifyVmm ((load_cmd P s)\<lparr>rx_cmd := cmd_push e (rx_cmd (load_cmd P s))\<rparr>)"

section \<open>The other side of the page\<close>

locale cmd_consumer =
  fixes vmm :: "cmd_ring \<Rightarrow> 'd \<Rightarrow> cmd_ring \<times> 'd"
  assumes head_kept: "cmd_ok q \<Longrightarrow> cq_head (fst (vmm q d)) = cq_head q"
    and entries_kept: "cmd_ok q \<Longrightarrow> cq_entries (fst (vmm q d)) = cq_entries q"
    and takes_only: "cmd_ok q \<Longrightarrow> cmd_ok (fst (vmm q d)) \<and> (\<exists>n. cmd_live (fst (vmm q d)) = drop n (cmd_live q))"
begin

lemma load_page:
  assumes "rp_vmm P = vmm"
  shows "cmd_ok (rx_cmd s) \<Longrightarrow> cq_head (rx_cmd (load_cmd P s)) = cq_head (rx_cmd s)"
    and "cmd_ok (rx_cmd s) \<Longrightarrow> cmd_ok (rx_cmd (load_cmd P s))"
    and "cmd_ok (rx_cmd s) \<Longrightarrow> \<exists>n. cmd_live (rx_cmd (load_cmd P s)) = drop n (cmd_live (rx_cmd s))"
  using head_kept takes_only by (simp_all add: load_cmd_def split_beta Let_def assms)

lemma wait_page:
  assumes "rp_vmm P = vmm"
  shows "wait_loop P i deadline s = Some r \<Longrightarrow> cmd_ok (rx_cmd s) \<Longrightarrow>
    cmd_ok (rx_cmd (snd r)) \<and> (\<exists>n. cmd_live (rx_cmd (snd r)) = drop n (cmd_live (rx_cmd s)))"
proof (induction rule: wait_loop_induct)
  case (completed s)
  then show ?case using load_page [OF assms] by simp
next
  case (timeout s now s2)
  then have "rx_cmd s2 = rx_cmd (load_cmd P s)" by (auto simp: cntpct_def split_beta Let_def)
  then show ?case using load_page [OF assms] timeout by simp
next
  case (again s now s2 r)
  then have s2: "rx_cmd s2 = rx_cmd (load_cmd P s)" by (auto simp: cntpct_def split_beta Let_def)
  obtain n where n: "cmd_live (rx_cmd s2) = drop n (cmd_live (rx_cmd s))" using load_page(3) [OF assms again.prems] s2 by auto
  have "cmd_ok (rx_cmd s2)" using load_page(2) [OF assms again.prems] s2 by simp
  from again.IH [OF this] show ?case using n by (auto simp: drop_drop)
qed

lemma hand_over_page:
  assumes "rp_vmm P = vmm" and "cmd_ok (rx_cmd s)" and "length (cmd_live (rx_cmd (load_cmd P s))) < CMD_RING_CAPACITY"
  shows "cmd_ok (rx_cmd (handed_over P e s))"
    and "cmd_live (rx_cmd (handed_over P e s)) = cmd_live (rx_cmd (load_cmd P s)) @ [e]"
  using cmd.push_law [of "rx_cmd (load_cmd P s)" e] load_page(2) [OF assms(1,2)] assms(3)
  by (simp_all add: handed_over_def rx_do_def cmd_room_eq)

lemma to_vmm_cases:
  assumes "rp_vmm P = vmm" and "cmd_ok (rx_cmd s)"
  shows "cmd_to_vmm P i verb s =
    (if length (cmd_live (rx_cmd (load_cmd P s))) = CMD_RING_CAPACITY
     then Some (console_puts (''UARTRX|ERROR: the VMM has too many commands queued; command dropped'' @ [NL]) (load_cmd P s))
     else do {
       (finished, s4) \<leftarrow> wait_for_vmm P i (handed_over P \<lparr>ce_id = i, ce_verb = verb, ce_arg = rx_command_arg s\<rparr> s);
       if finished then Some s4
       else Some (report_vmm_breadcrumb P (console_puts ('' within 2 s'' @ [NL])
              (console_putdec i (console_puts ''UARTRX|WARN: the VMM did not finish command '' s4))))
     })"
proof -
  let ?s1 = "load_cmd P s"
  have h: "cq_head (rx_cmd ?s1) = cq_head (rx_cmd s)" by (rule load_page(1) [OF assms])
  have ok: "cmd_ok (rx_cmd ?s1)" by (rule load_page(2) [OF assms])
  have full: "of_nat CMD_RING_CAPACITY \<le> cq_head (rx_cmd s) - cq_tail (rx_cmd ?s1) \<longleftrightarrow> length (cmd_live (rx_cmd ?s1)) = CMD_RING_CAPACITY"
    using ok cmd_full_iff [of "rx_cmd ?s1"] by (simp add: cmd_full_def h cmd_ok_iff)
  have arg: "rx_command_arg ?s1 = rx_command_arg s" by (simp add: load_cmd_def split_beta Let_def)
  show ?thesis
    unfolding cmd_to_vmm_def Let_def full arg handed_over_def cmd_push_def h by (simp add: h)
qed

end

section \<open>Waiting\<close>

text \<open>
  A clock that ticks: \<open>now\<close> is the true count behind the 64-bit counter, which each reading and each step of the VMM moves on by
  at most \<open>D\<close>, a reading by at least one.
\<close>

definition ticking :: "'d rx_platform \<Rightarrow> ('d \<Rightarrow> nat) \<Rightarrow> nat \<Rightarrow> bool" where
  "ticking P now D \<longleftrightarrow> (\<forall>d. fst (mc_cntpct (rp_machine P) d) = of_nat (now d)
       \<and> now d < now (snd (mc_cntpct (rp_machine P) d)) \<and> now (snd (mc_cntpct (rp_machine P) d)) \<le> now d + D)
     \<and> (\<forall>q d. now d \<le> now (snd (rp_vmm P q d)) \<and> now (snd (rp_vmm P q d)) \<le> now d + D)"

lemma ticking_load:
  "ticking P now D \<Longrightarrow> now (io_dev s) \<le> now (io_dev (load_cmd P s)) \<and> now (io_dev (load_cmd P s)) \<le> now (io_dev s) + D"
  by (simp add: ticking_def load_cmd_def split_beta Let_def)

lemma ticking_read:
  assumes "ticking P now D" and "cntpct (rp_machine P) s = (t, s')"
  shows "t = of_nat (now (io_dev s))" "now (io_dev s) < now (io_dev s')" "now (io_dev s') \<le> now (io_dev s) + D"
  using assms by (auto simp: ticking_def cntpct_def split_beta Let_def)

lemma wait_loop_returns:
  assumes tick: "ticking P now D" and room: "unat deadline + 2 * D < 2 ^ 64"
  shows "now (io_dev s) \<le> unat deadline + D \<Longrightarrow> \<exists>r. wait_loop P i deadline s = Some r"
proof (induction "unat deadline + D - now (io_dev s)" arbitrary: s rule: less_induct)
  case less
  obtain t s2 where c: "cntpct (rp_machine P) (load_cmd P s) = (t, s2)" by fastforce
  note r = ticking_read [OF tick c] and l = ticking_load [OF tick, of s]
  have small: "now (io_dev (load_cmd P s)) < 2 ^ 64" using l less.prems room by simp
  show ?case
  proof (cases "deadline < t")
    case True
    then show ?thesis by (subst wait_loop.simps) (auto simp: c)
  next
    case False
    have "unat (of_nat (now (io_dev (load_cmd P s))) :: u64) = now (io_dev (load_cmd P s))"
      using small by (simp only: unat_of_nat) simp
    then have "now (io_dev (load_cmd P s)) \<le> unat deadline" using False r(1) by (simp add: word_less_nat_alt)
    then have "now (io_dev s2) \<le> unat deadline + D" "unat deadline + D - now (io_dev s2) < unat deadline + D - now (io_dev s)"
      using r(2,3) l by auto
    then have "\<exists>r. wait_loop P i deadline s2 = Some r" using less.hyps by blast
    then show ?thesis using False by (subst wait_loop.simps) (auto simp: c)
  qed
qed

lemma wait_loop_result:
  "wait_loop P i deadline s = Some r \<Longrightarrow> if fst r then i \<le> cq_completed_id (rx_cmd (snd r))
     else \<exists>s1 t. cntpct (rp_machine P) s1 = (t, snd r) \<and> deadline < t \<and> cq_completed_id (rx_cmd s1) < i"
  by (induction rule: wait_loop_induct) auto

text \<open>
  C31. Waiting for the VMM always ends: on a ticking clock that does not run over its 64 bits meanwhile, \<open>wait_for_vmm\<close> returns, either
  with the command completed, or with it not completed and two seconds gone.
\<close>

theorem wait_for_vmm_ends:
  assumes "ticking P now D" and "now (io_dev s) + unat (mc_cntfrq (rp_machine P) div 1000 * VMM_REPLY_TIMEOUT_MS) + 2 * D < 2 ^ 64"
  shows "\<exists>finished s'. wait_for_vmm P i s = Some (finished, s')
    \<and> (if finished then i \<le> cq_completed_id (rx_cmd s')
       else \<exists>s1 t. cntpct (rp_machine P) s1 = (t, s') \<and> cq_completed_id (rx_cmd s1) < i
         \<and> now (io_dev s) + unat (mc_cntfrq (rp_machine P) div 1000 * VMM_REPLY_TIMEOUT_MS) < unat t)"
proof -
  let ?x = "mc_cntfrq (rp_machine P) div 1000 * VMM_REPLY_TIMEOUT_MS"
  obtain t s1 where c: "cntpct (rp_machine P) s = (t, s1)" by fastforce
  note r = ticking_read [OF assms(1) c]
  have "unat t = now (io_dev s)" using assms(2) r(1) by (simp only: unat_of_nat) simp
  moreover have "unat (t + ?x) = (unat t + unat ?x) mod 2 ^ 64" by (simp only: unat_word_ariths) simp
  ultimately have dl: "unat (t + ?x) = now (io_dev s) + unat ?x" using assms(2) by simp
  have "\<exists>r. wait_loop P i (t + ?x) s1 = Some r"
    by (rule wait_loop_returns [OF assms(1)]) (use dl assms(2) r(3) in simp_all)
  then obtain finished s' where w: "wait_loop P i (t + ?x) s1 = Some (finished, s')" by auto
  then have "wait_for_vmm P i s = Some (finished, s')" by (simp add: wait_for_vmm_def c)
  then show ?thesis using wait_loop_result [OF w] dl by (auto simp: word_less_nat_alt split: if_splits)
qed

text \<open>For the witness: a VMM that never answers, on a clock that ticks once per reading.\<close>

definition deaf_rx :: "nat rx_platform" where
  "deaf_rx = \<lparr>rp_machine = \<lparr>mc_read32 = (\<lambda>a d. (0, d)), mc_write32 = (\<lambda>a v d. d), mc_read64 = (\<lambda>a d. (0, d)),
     mc_cntpct = (\<lambda>d. (of_nat d, Suc d)), mc_cntfrq = 24576000\<rparr>, rp_vmm = (\<lambda>q d. (q, d)), rp_tlbi_stress = (\<lambda>n d. (0, d))\<rparr>"

lemma deaf_ticking: "ticking deaf_rx (\<lambda>d. d) 1"
  by (simp add: ticking_def deaf_rx_def)

theorem wait_for_vmm_ends_witness:
  "\<exists>finished s'. wait_for_vmm deaf_rx 1 (uartrx_boot 5 empty_cmd_ring) = Some (finished, s')
    \<and> (finished \<longrightarrow> 1 \<le> cq_completed_id (rx_cmd s'))"
proof -
  have "io_dev (uartrx_boot 5 empty_cmd_ring) + unat (mc_cntfrq (rp_machine deaf_rx) div 1000 * VMM_REPLY_TIMEOUT_MS) + 2 * 1 < (2 :: nat) ^ 64"
    by (simp add: uartrx_boot_def deaf_rx_def)
  from wait_for_vmm_ends [OF deaf_ticking this, of 1] show ?thesis by (auto split: if_splits)
qed

text \<open>
  C32. Handing a command over: when the page holds 64 commands the command is dropped with an error message and the page left as
  it was; otherwise it is appended behind the commands already waiting, the VMM is notified, and only then does \<open>uartrx\<close> wait.  A
  timeout is reported with the VMM's breadcrumb; the page stays in bounds in every case, and only the VMM takes from it.
\<close>

theorem command_handed_over:
  assumes "cmd_consumer (rp_vmm P)" and "cmd_ok (rx_cmd s)" and "cmd_to_vmm P i verb s = Some s'"
  defines "waiting \<equiv> cmd_live (rx_cmd (load_cmd P s))"
    and "e \<equiv> \<lparr>ce_id = i, ce_verb = verb, ce_arg = rx_command_arg s\<rparr>"
  shows "if length waiting = CMD_RING_CAPACITY
    then s' = console_puts (''UARTRX|ERROR: the VMM has too many commands queued; command dropped'' @ [NL]) (load_cmd P s)
    else cmd_ok (rx_cmd (handed_over P e s)) \<and> cmd_live (rx_cmd (handed_over P e s)) = waiting @ [e]
      \<and> rx_out (handed_over P e s) = rx_out s @ [NotifyVmm]
      \<and> (\<exists>finished s4 n. wait_for_vmm P i (handed_over P e s) = Some (finished, s4)
          \<and> cmd_ok (rx_cmd s4) \<and> cmd_live (rx_cmd s4) = drop n (waiting @ [e])
          \<and> s' = (if finished then s4
               else report_vmm_breadcrumb P (console_puts ('' within 2 s'' @ [NL])
                 (console_putdec i (console_puts ''UARTRX|WARN: the VMM did not finish command '' s4)))))"
proof -
  note split = cmd_consumer.to_vmm_cases [OF assms(1) refl assms(2), of i verb, folded e_def waiting_def]
  show ?thesis
  proof (cases "length waiting = CMD_RING_CAPACITY")
    case True
    then show ?thesis using split assms(3) by simp
  next
    case False
    let ?h = "handed_over P e s"
    have "cmd_ok (rx_cmd (load_cmd P s))" by (rule cmd_consumer.load_page(2) [OF assms(1) refl assms(2)])
    then have "length (cmd_live (rx_cmd (load_cmd P s))) < CMD_RING_CAPACITY" using False by (simp add: waiting_def cmd_ok_iff)
    note hand = cmd_consumer.hand_over_page [OF assms(1) refl assms(2) this, of e, folded waiting_def]
    obtain finished s4 where w: "wait_for_vmm P i ?h = Some (finished, s4)"
      and s': "s' = (if finished then s4 else report_vmm_breadcrumb P (console_puts ('' within 2 s'' @ [NL])
          (console_putdec i (console_puts ''UARTRX|WARN: the VMM did not finish command '' s4))))"
      using split assms(3) False by (auto split: bind_splits if_splits)
    have "rx_cmd (snd (cntpct (rp_machine P) ?h)) = rx_cmd ?h" by (simp add: cntpct_def split_beta Let_def)
    then obtain n where n: "cmd_ok (rx_cmd s4)" "cmd_live (rx_cmd s4) = drop n (waiting @ [e])"
      using cmd_consumer.wait_page [OF assms(1) refl] w hand by (fastforce simp: wait_for_vmm_def split_beta Let_def)
    have "rx_out ?h = rx_out s @ [NotifyVmm]" by (simp add: handed_over_def rx_do_def load_cmd_def split_beta Let_def)
    then show ?thesis using False hand w s' n by (simp only: if_False) blast
  qed
qed

lemma demo_consumer: "cmd_consumer (rp_vmm demo_rx)"
  by unfold_locales (auto simp: demo_rx_def cmd_ok_iff cmd_live_def ring_contents_empty intro: exI [of _ "length _"])

lemma demo_wait: "wait_for_vmm demo_rx i s = Some (True, load_cmd demo_rx (snd (cntpct demo_machine s)))"
  unfolding wait_for_vmm_def by (subst wait_loop.simps) (simp add: demo_rx_def load_cmd_def split_beta Let_def)

theorem command_handed_over_witness:
  "\<exists>s' n. cmd_to_vmm demo_rx 1 TRACE_CMD_VERB_STATUS (uartrx_boot 0 empty_cmd_ring) = Some s' \<and> cmd_ok (rx_cmd s')
    \<and> cmd_live (rx_cmd s') = drop n [\<lparr>ce_id = 1, ce_verb = TRACE_CMD_VERB_STATUS, ce_arg = 0\<rparr>]"
proof -
  let ?s = "uartrx_boot 0 empty_cmd_ring"
  have ok: "cmd_ok (rx_cmd ?s)" by (simp add: uartrx_boot_def empty_cmd_ring_def cmd_ok_def counters_ok_def)
  have w: "cmd_live (rx_cmd (load_cmd demo_rx ?s)) = []"
    by (simp add: load_cmd_def demo_rx_def cmd_live_def ring_contents_empty)
  have arg: "rx_command_arg ?s = 0" by (simp add: uartrx_boot_def)
  obtain s' where s': "cmd_to_vmm demo_rx 1 TRACE_CMD_VERB_STATUS ?s = Some s'"
    using run_handler_returns [OF demo_waits, of CmdToVmm 1 TRACE_CMD_VERB_STATUS ?s] by auto
  show ?thesis
    using command_handed_over [OF demo_consumer ok s', unfolded arg w demo_wait] s' by auto
qed

end
