(* ===== verification/Command_Path.thy ===== *)
theory Command_Path
  imports Vmm Uartrx_Exchange
begin

text \<open>
  \<open>uartrx\<close> and the VMM joined over the command page: the platform of \<open>uartrx\<close> on which the other side of the page is the VMM
  of \<open>Vmm\<close>, which handles its notification as soon as there is a command.  The device state is a pair of the machine's
  and the VMM's.
\<close>

definition vmm_side :: "'k platform \<Rightarrow> config \<Rightarrow> cmd_ring \<Rightarrow> 'd \<times> 'k vmm \<Rightarrow> cmd_ring \<times> ('d \<times> 'k vmm)" where
  "vmm_side P C q = (\<lambda>(d, v).
     if cq_tail q = cq_head q then (q, (d, v\<lparr>v_cmd := q\<rparr>))
     else let v' = vmm_notified P C CH_UARTRX (v\<lparr>v_cmd := q\<rparr>) in (v_cmd v', (d, v')))"

definition joined :: "'d machine \<Rightarrow> 'k platform \<Rightarrow> config \<Rightarrow> ('d \<times> 'k vmm) rx_platform" where
  "joined M P C =
     \<lparr>rp_machine = \<lparr>mc_read32 = (\<lambda>a (d, v). let (x, d') = mc_read32 M a d in (x, (d', v))),
                     mc_write32 = (\<lambda>a x (d, v). (mc_write32 M a x d, v)),
                     mc_read64 = (\<lambda>a (d, v). let (x, d') = mc_read64 M a d in (x, (d', v))),
                     mc_cntpct = (\<lambda>(d, v). let (x, d') = mc_cntpct M d in (x, (d', v))),
                     mc_cntfrq = mc_cntfrq M\<rparr>,
      rp_vmm = vmm_side P C,
      rp_tlbi_stress = (\<lambda>n dv. (0, dv))\<rparr>"

section \<open>The VMM as a consumer\<close>

lemma run_commands_page:
  assumes "cmd_ok (v_cmd s)"
  shows "cq_head (v_cmd (run_commands P C s)) = cq_head (v_cmd s)" "cq_entries (v_cmd (run_commands P C s)) = cq_entries (v_cmd s)"
proof -
  have c: "cq_head (v_cmd (fold (complete_command P C) es s)) = cq_head (v_cmd s)"
    "cq_entries (v_cmd (fold (complete_command P C) es s)) = cq_entries (v_cmd s)" for es s
    by (induction es arbitrary: s) (simp_all add: complete_command_cmd cmd_pop_def)
  show "cq_head (v_cmd (run_commands P C s)) = cq_head (v_cmd s)" "cq_entries (v_cmd (run_commands P C s)) = cq_entries (v_cmd s)"
    using run_commands_fold [OF assms, of P C] c by simp_all
qed

lemma phase_page:
  "cq_head (v_cmd (set_phase P ph s)) = cq_head (v_cmd s)" "cq_entries (v_cmd (set_phase P ph s)) = cq_entries (v_cmd s)"
  "cq_completed_id (v_cmd (set_phase P ph s)) = cq_completed_id (v_cmd s)"
  by (simp_all add: set_phase_cmd)

text \<open>What the VMM's handler does to a page within bounds: it empties it, and reports the last id.\<close>

lemma notified_page:
  assumes "cmd_ok (v_cmd s)"
  shows "cq_head (v_cmd (vmm_notified P C CH_UARTRX s)) = cq_head (v_cmd s)"
    and "cq_entries (v_cmd (vmm_notified P C CH_UARTRX s)) = cq_entries (v_cmd s)"
    and "cmd_live (v_cmd (vmm_notified P C CH_UARTRX s)) = []"
    and "cq_completed_id (v_cmd (vmm_notified P C CH_UARTRX s))
      = (if cmd_live (v_cmd s) = [] then cq_completed_id (v_cmd s) else ce_id (last (cmd_live (v_cmd s))))"
proof -
  obtain s1 where eq: "vmm_notified P C CH_UARTRX s = breadcrumb_leave P (run_commands P C s1)" and ok: "cmd_ok (v_cmd s1)"
    and e: "cq_head (v_cmd s1) = cq_head (v_cmd s)" "cq_entries (v_cmd s1) = cq_entries (v_cmd s)"
      "cq_completed_id (v_cmd s1) = cq_completed_id (v_cmd s)" "cmd_live (v_cmd s1) = cmd_live (v_cmd s)"
  proof (rule that)
    let ?e = "breadcrumb_enter P VMM_PHASE_NOTIFIED (ucast CH_UARTRX) 0 0 s"
    let ?s1 = "?e\<lparr>v_notifications := v_notifications ?e + 1\<rparr>"
    show "vmm_notified P C CH_UARTRX s = breadcrumb_leave P (run_commands P C ?s1)"
      by (simp add: vmm_notified_def handle_notification_def Let_def)
    show "cq_head (v_cmd ?s1) = cq_head (v_cmd s)" "cq_entries (v_cmd ?s1) = cq_entries (v_cmd s)"
      "cq_completed_id (v_cmd ?s1) = cq_completed_id (v_cmd s)" "cmd_live (v_cmd ?s1) = cmd_live (v_cmd s)"
      by (simp_all add: breadcrumb_enter_def phase_page upd_crumb_def)
    show "cmd_ok (v_cmd ?s1)" using assms by (simp add: breadcrumb_enter_def)
  qed
  note r = run_commands_fold [OF ok, of P C, THEN conjunct2] run_commands_page [OF ok, of P C]
  show "cq_head (v_cmd (vmm_notified P C CH_UARTRX s)) = cq_head (v_cmd s)"
    "cq_entries (v_cmd (vmm_notified P C CH_UARTRX s)) = cq_entries (v_cmd s)"
    "cmd_live (v_cmd (vmm_notified P C CH_UARTRX s)) = []"
    "cq_completed_id (v_cmd (vmm_notified P C CH_UARTRX s))
      = (if cmd_live (v_cmd s) = [] then cq_completed_id (v_cmd s) else ce_id (last (cmd_live (v_cmd s))))"
    using r e by (simp_all add: eq breadcrumb_leave_def phase_page)
qed

interpretation vmm_page: cmd_consumer "vmm_side P C" for P C
proof
  fix q and dv :: "'b \<times> 'a vmm"
  assume ok: "cmd_ok q"
  obtain d v where dv: "dv = (d, v)" by fastforce
  note n = notified_page [of "v\<lparr>v_cmd := q\<rparr>" P C, simplified, OF ok]
  show "cq_head (fst (vmm_side P C q dv)) = cq_head q" "cq_entries (fst (vmm_side P C q dv)) = cq_entries q"
    using n(1,2) by (simp_all add: dv vmm_side_def Let_def)
  have "\<exists>m. cmd_live (fst (vmm_side P C q dv)) = drop m (cmd_live q)"
    using n(3) by (auto simp: dv vmm_side_def Let_def intro: exI [of _ 0] exI [of _ "length (cmd_live q)"])
  then show "cmd_ok (fst (vmm_side P C q dv)) \<and> (\<exists>m. cmd_live (fst (vmm_side P C q dv)) = drop m (cmd_live q))"
    using ok by (auto simp: cmd_ok_iff)
qed

section \<open>A command on its way\<close>

lemma joined_load:
  assumes "io_dev s = (d, v)" and "cmd_ok (rx_cmd s)"
  shows "cmd_live (rx_cmd s) = [] \<Longrightarrow> load_cmd (joined M P C) s = s\<lparr>io_dev := (d, v\<lparr>v_cmd := rx_cmd s\<rparr>)\<rparr>"
    and "cmd_live (rx_cmd s) \<noteq> [] \<Longrightarrow> load_cmd (joined M P C) s =
      s\<lparr>io_dev := (d, vmm_notified P C CH_UARTRX (v\<lparr>v_cmd := rx_cmd s\<rparr>)),
        rx_cmd := v_cmd (vmm_notified P C CH_UARTRX (v\<lparr>v_cmd := rx_cmd s\<rparr>))\<rparr>"
  using assms by (simp_all add: load_cmd_def joined_def vmm_side_def cmd_live_Nil Let_def)

lemma joined_cntpct:
  "io_dev s = (d, v) \<Longrightarrow> mc_cntpct M d = (t, d') \<Longrightarrow> cntpct (rp_machine (joined M P C)) s = (t, s\<lparr>io_dev := (d', v)\<rparr>)"
  by (simp add: cntpct_def joined_def)

text \<open>
  A command handed over while the page is empty: at the first look \<open>uartrx\<close> takes, the VMM's handler has run it and reported its id.
\<close>

lemma joined_command:
  fixes i verb :: u64
  assumes "io_dev s = (d, v)" and "cmd_ok (rx_cmd s)" and "cmd_live (rx_cmd s) = []"
  defines "e \<equiv> \<lparr>ce_id = i, ce_verb = verb, ce_arg = rx_command_arg s\<rparr>"
  shows "\<exists>s' d'. cmd_to_vmm (joined M P C) i verb s = Some s'
    \<and> io_dev s' = (d', vmm_notified P C CH_UARTRX (v\<lparr>v_cmd := cmd_push e (rx_cmd s)\<rparr>))
    \<and> rx_out s' = rx_out s @ [NotifyVmm] \<and> rx_cmd s' = v_cmd (vmm_notified P C CH_UARTRX (v\<lparr>v_cmd := cmd_push e (rx_cmd s)\<rparr>))"
proof -
  let ?J = "joined M P C" and ?q = "cmd_push e (rx_cmd s)"
  have l1: "load_cmd ?J s = s\<lparr>io_dev := (d, v\<lparr>v_cmd := rx_cmd s\<rparr>)\<rparr>" by (rule joined_load(1) [OF assms(1-3)])
  have q: "cmd_ok ?q" "cmd_live ?q = [e]"
    using cmd.push_law [of "rx_cmd s" e] assms(2,3) by (simp_all add: cmd_room_eq)
  let ?h = "handed_over ?J e s"
  have h: "rx_cmd ?h = ?q" "rx_out ?h = rx_out s @ [NotifyVmm]" "io_dev ?h = (d, v\<lparr>v_cmd := rx_cmd s\<rparr>)"
    by (simp_all add: handed_over_def l1 rx_do_def)
  obtain t d' where "mc_cntpct M d = (t, d')" by fastforce
  then have c: "cntpct (rp_machine ?J) ?h = (t, ?h\<lparr>io_dev := (d', v\<lparr>v_cmd := rx_cmd s\<rparr>)\<rparr>)" (is "_ = (t, ?h1)")
    using joined_cntpct [OF h(3)] by simp
  let ?v = "vmm_notified P C CH_UARTRX (v\<lparr>v_cmd := ?q\<rparr>)"
  have l2: "load_cmd ?J ?h1 = ?h1\<lparr>io_dev := (d', ?v), rx_cmd := v_cmd ?v\<rparr>"
    using joined_load(2) [of ?h1 d' "v\<lparr>v_cmd := rx_cmd s\<rparr>" M P C] q h(1) by simp
  have "cq_completed_id (v_cmd ?v) = i"
    using notified_page(4) [of "v\<lparr>v_cmd := ?q\<rparr>" P C] q by (simp add: e_def)
  then have "wait_for_vmm ?J i ?h = Some (True, ?h1\<lparr>io_dev := (d', ?v), rx_cmd := v_cmd ?v\<rparr>)"
    unfolding wait_for_vmm_def c by (subst wait_loop.simps) (simp add: l2)
  moreover have "rp_vmm ?J = vmm_side P C" by (simp add: joined_def)
  ultimately have "cmd_to_vmm ?J i verb s = Some (?h1\<lparr>io_dev := (d', ?v), rx_cmd := v_cmd ?v\<rparr>)"
    using vmm_page.to_vmm_cases [of ?J P C s i verb] assms(2,3) by (simp add: l1 e_def)
  then show ?thesis using h(2) by simp
qed

text \<open>What the VMM's handler does for a single waiting command, apart from the page and the breadcrumb.\<close>

lemma notified_single:
  assumes "cmd_ok (v_cmd v)" and "cmd_live (v_cmd v) = [e]"
  shows "\<exists>v1. same_guest v v1 \<and> v_out v1 = v_out v \<and> same_guest (run_command P C e v1) (vmm_notified P C CH_UARTRX v)
    \<and> v_out (vmm_notified P C CH_UARTRX v) = v_out (run_command P C e v1)"
proof -
  let ?e = "breadcrumb_enter P VMM_PHASE_NOTIFIED (ucast CH_UARTRX) 0 0 v"
  let ?v1 = "?e\<lparr>v_notifications := v_notifications ?e + 1\<rparr>"
  have ok: "cmd_ok (v_cmd ?v1)" "cmd_live (v_cmd ?v1) = [e]" using assms by (simp_all add: breadcrumb_enter_def)
  have "run_commands P C ?v1 = complete_command P C e ?v1" using run_commands_fold [OF ok(1), of P C] ok(2) by simp
  then have n: "vmm_notified P C CH_UARTRX v = breadcrumb_leave P (complete_command P C e ?v1)"
    by (simp add: vmm_notified_def handle_notification_def Let_def)
  have "same_guest v ?v1 \<and> v_out ?v1 = v_out v" by (simp add: same_guest_def breadcrumb_enter_def)
  moreover have "same_guest (run_command P C e ?v1) (vmm_notified P C CH_UARTRX v)"
    "v_out (vmm_notified P C CH_UARTRX v) = v_out (run_command P C e ?v1)"
    by (simp_all add: n same_guest_def breadcrumb_leave_def complete_command_def)
  ultimately show ?thesis by blast
qed

text \<open>The line \<open>guest-start\<close> followed by a selection.\<close>

definition start_line :: "guest_choice \<Rightarrow> u64 \<Rightarrow> string" where
  "start_line g v = ''guest-start '' @ select_text g v"

lemma start_line_parts:
  "stripped (start_line g v) = start_line g v" "start_line g v \<noteq> []" "first_word (start_line g v) = ''guest-start''"
  "after_word (start_line g v) = select_text g v"
proof -
  have t: "trimmed (select_text g v)" by (rule trimmed_select_text)
  have ne: "select_text g v \<noteq> []" by (simp add: select_text_def)
  have h: "hd (select_text g v) \<noteq> CHR '' ''" "last (select_text g v) \<noteq> CHR '' ''" using t ne by (simp_all add: trimmed_def)
  have "trimmed (start_line g v)" using h(2) ne by (simp add: trimmed_def start_line_def)
  then show "stripped (start_line g v) = start_line g v" by (rule stripped_trimmed)
  show "start_line g v \<noteq> []" by (simp add: start_line_def)
  show "first_word (start_line g v) = ''guest-start''" by (simp add: start_line_def first_word_def)
  show "after_word (start_line g v) = select_text g v"
    using h(1) ne by (cases "select_text g v") (simp_all add: start_line_def after_word_def)
qed

lemma run_start_line:
  assumes "choice_ok g" and "vc \<le> 0xff"
  defines "sel \<equiv> choice_code g OR push_bit 16 vc"
  shows "run_line P (start_line g vc) s = cmd_to_vmm P (rx_commands_received s + 1) TRACE_CMD_VERB_GUEST_START
    (record_command TRACE_CMD_VERB_GUEST_START (rx_commands_received s + 1) TRACE_CMD_ACCEPTED sel
      (s\<lparr>rx_commands_received := rx_commands_received s + 1, rx_command_arg := sel\<rparr>))"
proof -
  have "lookup ''guest-start'' = Some \<lparr>co_name = ''guest-start'', co_verb = TRACE_CMD_VERB_GUEST_START, co_run = CmdToVmm\<rparr>"
    by (simp add: lookup_def commands_def)
  moreover have "parse_args TRACE_CMD_VERB_GUEST_START (select_text g vc) = (True, sel)"
    using parse_select_text [OF assms(1,2)] by (simp add: parse_args_def sel_def)
  ultimately show ?thesis
    using run_line_stripped [of "start_line g vc" P s] start_line_parts [of g vc] by (simp add: Let_def)
qed

end
