(* ===== verification/Fbcon.thy ===== *)
theory Fbcon
  imports Machine Console_Ring
begin

text \<open>
  \<^verbatim>\<open>fbcon/fbcon.c\<close>: the domain that mirrors the console text on the phone's panel.  The text grid, the cursor, the rows to redraw and
  the frame buffer are the record \<open>fbcon\<close>.  \<open>None\<close> is undefined behaviour: a store or load outside \<open>grid\<close>, \<open>dirty\<close> or the
  frame buffer, so that returning \<open>Some\<close> is memory safety.  The font is generated by the build (\<^verbatim>\<open>fbcon_font.h\<close>) and the scale and
  margins are build variables: both are the parameter \<open>fb_config\<close>.  Widths and heights are naturals; \<open>geometry_small\<close>
  shows that their products fit the widths they have in C.  Font sizes and scale are positive in a build: a cell without width or height,
  by which C would divide, gives a grid without columns or rows here.
\<close>

section \<open>Configuration and state\<close>

record fb_config =
  FONT_W :: nat
  FONT_H :: nat
  FONT_FIRST :: nat
  FONT_LAST :: nat
  font_rows :: "nat \<Rightarrow> nat \<Rightarrow> u32"
  SCALE :: nat
  MARGIN_TOP :: nat
  MARGIN_BOTTOM :: nat
  MARGIN_SIDE :: nat

definition CELL_W :: "fb_config \<Rightarrow> nat" where "CELL_W F = FONT_W F * SCALE F"
definition CELL_H :: "fb_config \<Rightarrow> nat" where "CELL_H F = FONT_H F * SCALE F"

abbreviation (input) FG :: u32 where "FG \<equiv> 0xffffffff"
abbreviation (input) BG :: u32 where "BG \<equiv> 0xff000000"
abbreviation (input) TAB_WIDTH :: nat where "TAB_WIDTH \<equiv> 4"
abbreviation (input) RUN_STATUS_SPINS :: nat where "RUN_STATUS_SPINS \<equiv> 2000000"
definition MAX_COLS :: nat where "MAX_COLS = 160"
definition MAX_ROWS :: nat where "MAX_ROWS = 360"
abbreviation (input) FBCON_TRACER_CH :: u32 where "FBCON_TRACER_CH \<equiv> 1"

text \<open>\<^verbatim>\<open>include/hw/zumapro_dpu.h\<close>, and the mapping of the system description.\<close>

abbreviation (input) FBCON_FB_PHYS :: u32 where "FBCON_FB_PHYS \<equiv> 0xfac00000"
definition FBCON_FB_SIZE :: nat where "FBCON_FB_SIZE = 0x1000000"
abbreviation (input) DPU_DEFAULT_WIDTH :: nat where "DPU_DEFAULT_WIDTH \<equiv> 1280"
abbreviation (input) DPU_DEFAULT_HEIGHT :: nat where "DPU_DEFAULT_HEIGHT \<equiv> 2856"
abbreviation (input) DPU_DEFAULT_STRIDE :: nat where "DPU_DEFAULT_STRIDE \<equiv> 5120"
abbreviation (input) DECON_GLOBAL_CON :: u64 where "DECON_GLOBAL_CON \<equiv> 0x20"
abbreviation (input) DECON_TRIG_CON :: u64 where "DECON_TRIG_CON \<equiv> 0x30"
abbreviation (input) DECON_SHD_REG_UP_REQ :: u64 where "DECON_SHD_REG_UP_REQ \<equiv> 0x50"
abbreviation (input) GLOBAL_CON_DECON_EN_F :: u32 where "GLOBAL_CON_DECON_EN_F \<equiv> 0x1"
abbreviation (input) GLOBAL_CON_DECON_EN :: u32 where "GLOBAL_CON_DECON_EN \<equiv> 0x2"
abbreviation (input) GLOBAL_CON_RUN_STATUS :: u32 where "GLOBAL_CON_RUN_STATUS \<equiv> 0x10"
abbreviation (input) TRIG_CON_HW_TRIG_EN :: u32 where "TRIG_CON_HW_TRIG_EN \<equiv> 0x1"
abbreviation (input) TRIG_CON_SW_TRIG_DET_EN :: u32 where "TRIG_CON_SW_TRIG_DET_EN \<equiv> 0x2"
abbreviation (input) TRIG_CON_HW_TRIG_MASK :: u32 where "TRIG_CON_HW_TRIG_MASK \<equiv> 0x10"
abbreviation (input) TRIG_CON_SW_TRIG_EN :: u32 where "TRIG_CON_SW_TRIG_EN \<equiv> 0x100"
abbreviation (input) SHD_REG_UP_REQ_GLOBAL :: u32 where "SHD_REG_UP_REQ_GLOBAL \<equiv> 0x80000000"
abbreviation (input) RDMA_IMG_SIZE :: u64 where "RDMA_IMG_SIZE \<equiv> 0x1c"
abbreviation (input) RDMA_BASEADDR_P0 :: u64 where "RDMA_BASEADDR_P0 \<equiv> 0x40"
abbreviation (input) RDMA_SRC_STRIDE_0 :: u64 where "RDMA_SRC_STRIDE_0 \<equiv> 0x50"

definition RDMA_IMG_SIZE_W :: "u32 \<Rightarrow> nat" where "RDMA_IMG_SIZE_W v = unat (v AND 0xffff)"
definition RDMA_IMG_SIZE_H :: "u32 \<Rightarrow> nat" where "RDMA_IMG_SIZE_H v = unat (drop_bit 16 v AND 0xffff)"
definition RDMA_SRC_STRIDE_MASK :: u32 where "RDMA_SRC_STRIDE_MASK = 0x00ffffff"

definition decon_vaddr :: u64 where "decon_vaddr = 0x30000000"
definition rdma_vaddr :: u64 where "rdma_vaddr = 0x30001000"

datatype fb_effect = DbgPuts string | CacheClean nat nat

record 'd fbcon = "'d io" +
  fb_out :: "fb_effect list"
  fb_stride :: nat
  fb_width :: nat
  fb_height :: nat
  fb_cols :: nat
  fb_rows :: nat
  fb_cur_col :: nat
  fb_cur_row :: nat
  fb_ready :: bool
  fb_scrolled :: bool
  fb_grid :: "nat \<Rightarrow> nat \<Rightarrow> char"
  fb_dirty :: "nat \<Rightarrow> bool"
  fb_mem :: "nat \<Rightarrow> u32"          \<comment> \<open>the frame buffer, by word\<close>
  fb_ring :: console_ring
  fb_mirrored :: string           \<comment> \<open>characters the tracer has put into the ring so far (read by no operation)\<close>

text \<open>Static variables start out zero.\<close>

definition fbcon_boot :: "'d \<Rightarrow> (nat \<Rightarrow> u32) \<Rightarrow> console_ring \<Rightarrow> 'd fbcon" where
  "fbcon_boot d m q = \<lparr>io_dev = d, io_log = [], fb_out = [], fb_stride = 0, fb_width = 0, fb_height = 0, fb_cols = 0, fb_rows = 0,
     fb_cur_col = 0, fb_cur_row = 0, fb_ready = False, fb_scrolled = False, fb_grid = (\<lambda>_ _. NUL), fb_dirty = (\<lambda>_. False),
     fb_mem = m, fb_ring = q, fb_mirrored = console_live q\<rparr>"

section \<open>Checked memory accesses\<close>

definition store_pixel :: "nat \<Rightarrow> u32 \<Rightarrow> 'd fbcon \<Rightarrow> 'd fbcon option" where
  "store_pixel i v s = (if 4 * i + 4 \<le> FBCON_FB_SIZE then Some (s\<lparr>fb_mem := (fb_mem s)(i := v)\<rparr>) else None)"

definition store_grid :: "nat \<Rightarrow> nat \<Rightarrow> char \<Rightarrow> 'd fbcon \<Rightarrow> 'd fbcon option" where
  "store_grid r c x s =
     (if r < MAX_ROWS \<and> c < MAX_COLS then Some (s\<lparr>fb_grid := (fb_grid s)(r := (fb_grid s r)(c := x))\<rparr>) else None)"

definition load_grid :: "nat \<Rightarrow> nat \<Rightarrow> 'd fbcon \<Rightarrow> char option" where
  "load_grid r c s = (if r < MAX_ROWS \<and> c < MAX_COLS then Some (fb_grid s r c) else None)"

definition store_dirty :: "nat \<Rightarrow> bool \<Rightarrow> 'd fbcon \<Rightarrow> 'd fbcon option" where
  "store_dirty r b s = (if r < MAX_ROWS then Some (s\<lparr>fb_dirty := (fb_dirty s)(r := b)\<rparr>) else None)"

section \<open>Start-up\<close>

definition reg_read :: "'d machine \<Rightarrow> u64 \<Rightarrow> u64 \<Rightarrow> 'd fbcon \<Rightarrow> u32 \<times> 'd fbcon" where
  "reg_read M base off s = read32 M (base + off) s"

definition reg_write :: "'d machine \<Rightarrow> u64 \<Rightarrow> u64 \<Rightarrow> u32 \<Rightarrow> 'd fbcon \<Rightarrow> 'd fbcon" where
  "reg_write M base off v s = write32 M (base + off) v s"

definition dbg_puts :: "string \<Rightarrow> 'd fbcon \<Rightarrow> 'd fbcon" where
  "dbg_puts t s = s\<lparr>fb_out := fb_out s @ [DbgPuts t]\<rparr>"

definition log_hex :: "string \<Rightarrow> u64 \<Rightarrow> 'd fbcon \<Rightarrow> 'd fbcon" where
  "log_hex msg val s = dbg_puts [NL] (dbg_puts (''0x'' @ hex_nibbles val 16) (dbg_puts msg s))"

definition read_size :: "'d machine \<Rightarrow> 'd fbcon \<Rightarrow> 'd fbcon" where
  "read_size M s =
     (let (img, s1) = reg_read M rdma_vaddr RDMA_IMG_SIZE s;
          s2 = log_hex ''FBCON|INFO: RDMA0 IMG_SIZE '' (ucast img) s1;
          s3 = s2\<lparr>fb_width := RDMA_IMG_SIZE_W img, fb_height := RDMA_IMG_SIZE_H img\<rparr>
      in if img = 0
         then (dbg_puts (''FBCON|INFO: IMG_SIZE reads 0; using 1280x2856'' @ [NL]) s3)
                \<lparr>fb_width := DPU_DEFAULT_WIDTH, fb_height := DPU_DEFAULT_HEIGHT\<rparr>
         else s3)"

definition read_stride :: "'d machine \<Rightarrow> 'd fbcon \<Rightarrow> 'd fbcon" where
  "read_stride M s =
     (let (v, s1) = reg_read M rdma_vaddr RDMA_SRC_STRIDE_0 s;
          s2 = s1\<lparr>fb_stride := unat (v AND RDMA_SRC_STRIDE_MASK)\<rparr>;
          s3 = log_hex ''FBCON|INFO: RDMA0 SRC_STRIDE_0 '' (of_nat (fb_stride s2)) s2
      in if fb_stride s3 = 0
         then let s4 = s3\<lparr>fb_stride := (if fb_width s3 = DPU_DEFAULT_WIDTH then DPU_DEFAULT_STRIDE else fb_width s3 * 4)\<rparr>
              in log_hex ''FBCON|INFO: SRC_STRIDE_0 reads 0; using '' (of_nat (fb_stride s4)) s4
         else s3)"

definition read_geometry :: "'d machine \<Rightarrow> fb_config \<Rightarrow> 'd fbcon \<Rightarrow> bool \<times> 'd fbcon" where
  "read_geometry M F s0 =
     (let s = read_stride M (read_size M s0)
      in if fb_width s = 0 \<or> fb_height s = 0 \<or> fb_stride s < fb_width s * 4 \<or> fb_stride s mod 4 \<noteq> 0
         then (False, dbg_puts (''FBCON|ERROR: RDMA0 geometry is not a 32-bit framebuffer'' @ [NL]) s)
         else if FBCON_FB_SIZE < fb_stride s * fb_height s
         then (False, log_hex ''FBCON|ERROR: framebuffer is larger than our buffer of '' (of_nat FBCON_FB_SIZE) s)
         else if fb_width s \<le> 2 * MARGIN_SIDE F \<or> fb_height s \<le> MARGIN_TOP F + MARGIN_BOTTOM F
         then (False, dbg_puts (''FBCON|ERROR: the margins leave no room for text'' @ [NL]) s)
         else let s1 = s\<lparr>fb_cols := (fb_width s - 2 * MARGIN_SIDE F) div CELL_W F,
                          fb_rows := (fb_height s - MARGIN_TOP F - MARGIN_BOTTOM F) div CELL_H F\<rparr>
              in if MAX_COLS < fb_cols s1 \<or> MAX_ROWS < fb_rows s1
                 then (False, dbg_puts (''FBCON|ERROR: text grid exceeds MAX_COLS x MAX_ROWS'' @ [NL]) s1)
                 else (True, s1))"

text \<open>The word index of the first pixel of a row, and the bytes of a run of rows.\<close>

definition pixel_row :: "'d fbcon \<Rightarrow> nat \<Rightarrow> nat" where
  "pixel_row s y = y * fb_stride s div 4"

definition clean_rows :: "nat \<Rightarrow> nat \<Rightarrow> 'd fbcon \<Rightarrow> 'd fbcon" where
  "clean_rows first_y count s =
     (let start = first_y * fb_stride s in s\<lparr>fb_out := fb_out s @ [CacheClean start (start + count * fb_stride s)]\<rparr>)"

definition present :: "'d machine \<Rightarrow> 'd fbcon \<Rightarrow> 'd fbcon" where
  "present M s =
     (let (trig, s1) = reg_read M decon_vaddr DECON_TRIG_CON s;
          s2 = reg_write M decon_vaddr DECON_TRIG_CON
                 ((trig AND NOT (TRIG_CON_HW_TRIG_EN OR TRIG_CON_HW_TRIG_MASK)) OR TRIG_CON_SW_TRIG_EN OR TRIG_CON_SW_TRIG_DET_EN) s1
      in reg_write M decon_vaddr DECON_SHD_REG_UP_REQ SHD_REG_UP_REQ_GLOBAL s2)"

definition retarget_scanout :: "'d machine \<Rightarrow> 'd fbcon \<Rightarrow> 'd fbcon" where
  "retarget_scanout M s =
     (let (old, s1) = reg_read M rdma_vaddr RDMA_BASEADDR_P0 s;
          s2 = log_hex ''FBCON|INFO: RDMA0 BASEADDR_P0 left by ABL '' (ucast old) s1;
          s3 = reg_write M rdma_vaddr RDMA_BASEADDR_P0 FBCON_FB_PHYS s2;
          (new, s4) = reg_read M rdma_vaddr RDMA_BASEADDR_P0 s3
      in log_hex ''FBCON|INFO: RDMA0 BASEADDR_P0 now '' (ucast new) s4)"

fun decon_spin :: "'d machine \<Rightarrow> nat \<Rightarrow> 'd fbcon \<Rightarrow> 'd fbcon" where
  "decon_spin M 0 s =
     (let (con, s1) = reg_read M decon_vaddr DECON_GLOBAL_CON s
      in log_hex ''FBCON|WARN: DECON0 RUN_STATUS not set; GLOBAL_CON '' (ucast con) s1)"
| "decon_spin M (Suc spins) s =
     (let (con, s1) = reg_read M decon_vaddr DECON_GLOBAL_CON s
      in if con AND GLOBAL_CON_RUN_STATUS \<noteq> 0 then s1 else decon_spin M spins s1)"

definition start_decon :: "'d machine \<Rightarrow> 'd fbcon \<Rightarrow> 'd fbcon" where
  "start_decon M s =
     (let (con, s1) = reg_read M decon_vaddr DECON_GLOBAL_CON s;
          s2 = reg_write M decon_vaddr DECON_GLOBAL_CON (con OR GLOBAL_CON_DECON_EN OR GLOBAL_CON_DECON_EN_F) s1;
          s3 = reg_write M decon_vaddr DECON_SHD_REG_UP_REQ SHD_REG_UP_REQ_GLOBAL s2
      in decon_spin M RUN_STATUS_SPINS s3)"

definition clear_screen :: "'d fbcon \<Rightarrow> 'd fbcon option" where
  "clear_screen s = do {
     s1 \<leftarrow> for_each (\<lambda>y s. for_each (\<lambda>x s. store_pixel (pixel_row s y + x) BG s) [0..<fb_width s] s) [0..<fb_height s] s;
     let s2 = clean_rows 0 (fb_height s1) s1;
     for_each (\<lambda>r s. for_each (\<lambda>c s. store_grid r c (CHR '' '') s) [0..<fb_cols s] s) [0..<fb_rows s2] s2
   }"

section \<open>Text\<close>

definition scroll_grid :: "'d fbcon \<Rightarrow> 'd fbcon option" where
  "scroll_grid s = do {
     s1 \<leftarrow> for_each (\<lambda>r s. for_each (\<lambda>c s. load_grid r c s \<bind> (\<lambda>x. store_grid (r - 1) c x s)) [0..<fb_cols s] s) [1..<fb_rows s] s;
     s2 \<leftarrow> (if fb_rows s1 = 0 then (if fb_cols s1 = 0 then Some s1 else None)
            else for_each (\<lambda>c. store_grid (fb_rows s1 - 1) c (CHR '' '')) [0..<fb_cols s1] s1);
     Some (s2\<lparr>fb_scrolled := True\<rparr>)
   }"

definition newline :: "'d fbcon \<Rightarrow> 'd fbcon option" where
  "newline s =
     (let s1 = s\<lparr>fb_cur_col := 0\<rparr>
      in if fb_cur_row s1 + 1 < fb_rows s1 then Some (s1\<lparr>fb_cur_row := fb_cur_row s1 + 1\<rparr>) else scroll_grid s1)"

definition put_printable :: "char \<Rightarrow> 'd fbcon \<Rightarrow> 'd fbcon option" where
  "put_printable c s = do {
     s1 \<leftarrow> (if fb_cols s \<le> fb_cur_col s then newline s else Some s);
     s2 \<leftarrow> store_grid (fb_cur_row s1) (fb_cur_col s1) c s1;
     let s3 = s2\<lparr>fb_cur_col := fb_cur_col s2 + 1\<rparr>;
     store_dirty (fb_cur_row s3) True s3
   }"

definition put :: "char \<Rightarrow> 'd fbcon \<Rightarrow> 'd fbcon option" where
  "put c s =
     (if c = NL then newline s
      else if c = CR then Some (s\<lparr>fb_cur_col := 0\<rparr>)
      else if c = CHR 0x09 then for_each (\<lambda>i. put_printable (CHR '' '')) [0..<TAB_WIDTH] s
      else if 0x20 \<le> byte_of c \<and> byte_of c < 0x7f then put_printable c s
      else Some s)"

section \<open>Pixels\<close>

definition glyph_of :: "fb_config \<Rightarrow> char \<Rightarrow> nat \<Rightarrow> u32" where
  "glyph_of F ch =
     (let c = (of_char ch :: nat) in font_rows F (if FONT_FIRST F \<le> c \<and> c \<le> FONT_LAST F then c - FONT_FIRST F else 0))"

definition glyph_color :: "fb_config \<Rightarrow> u32 \<Rightarrow> nat \<Rightarrow> u32" where
  "glyph_color F row gx = (if drop_bit (FONT_W F - 1 - gx) row AND 1 \<noteq> 0 then FG else BG)"

definition store_next :: "u32 \<Rightarrow> nat \<times> 'd fbcon \<Rightarrow> (nat \<times> 'd fbcon) option" where
  "store_next color = (\<lambda>(px, s). store_pixel px color s \<bind> (\<lambda>s. Some (px + 1, s)))"

definition draw_line :: "fb_config \<Rightarrow> u32 \<Rightarrow> nat \<Rightarrow> 'd fbcon \<Rightarrow> 'd fbcon option" where
  "draw_line F row px s = do {
     (_, s1) \<leftarrow> for_each (\<lambda>gx. for_each (\<lambda>sx. store_next (glyph_color F row gx)) [0..<SCALE F]) [0..<FONT_W F] (px, s);
     Some s1
   }"

definition draw_glyph :: "fb_config \<Rightarrow> nat \<Rightarrow> nat \<Rightarrow> char \<Rightarrow> 'd fbcon \<Rightarrow> 'd fbcon option" where
  "draw_glyph F col row ch s =
     (let glyph = glyph_of F ch
      in for_each (\<lambda>gy. for_each (\<lambda>sy s.
             draw_line F (glyph gy) (pixel_row s (MARGIN_TOP F + row * CELL_H F + gy * SCALE F + sy) + MARGIN_SIDE F + col * CELL_W F) s)
           [0..<SCALE F]) [0..<FONT_H F] s)"

definition draw_row :: "fb_config \<Rightarrow> nat \<Rightarrow> 'd fbcon \<Rightarrow> 'd fbcon option" where
  "draw_row F r s = do {
     s1 \<leftarrow> for_each (\<lambda>c s. load_grid r c s \<bind> (\<lambda>x. draw_glyph F c r x s)) [0..<fb_cols s] s;
     Some (clean_rows (MARGIN_TOP F + r * CELL_H F) (CELL_H F) s1)
   }"

definition render_row :: "fb_config \<Rightarrow> nat \<Rightarrow> 'd fbcon \<Rightarrow> 'd fbcon option" where
  "render_row F r s = do {
     s1 \<leftarrow> (if fb_scrolled s \<or> fb_dirty s r then draw_row F r s else Some s);
     store_dirty r False s1
   }"

definition render :: "'d machine \<Rightarrow> fb_config \<Rightarrow> 'd fbcon \<Rightarrow> 'd fbcon option" where
  "render M F s = do {
     s1 \<leftarrow> for_each (render_row F) [0..<fb_rows s] s;
     Some (present M (s1\<lparr>fb_scrolled := False\<rparr>))
   }"

section \<open>The ring\<close>

text \<open>
  The tracer mirrors characters while this domain runs: it pushes while there is room.  \<open>arrive k\<close> is what it mirrors before
  the \<open>k\<close>-th load of \<open>head\<close> of a drain.
\<close>

definition mirror_char :: "char \<Rightarrow> 'd fbcon \<Rightarrow> 'd fbcon" where
  "mirror_char c s =
     (if 0 < console_room (fb_ring s)
      then s\<lparr>fb_ring := console_push c (fb_ring s), fb_mirrored := fb_mirrored s @ [c]\<rparr> else s)"

partial_function (option) drain_loop :: "(nat \<Rightarrow> string) \<Rightarrow> nat \<Rightarrow> u64 \<Rightarrow> bool \<Rightarrow> 'd fbcon \<Rightarrow> (bool \<times> 'd fbcon) option" where
  "drain_loop arrive k tail any s =
     (let s1 = fold mirror_char (arrive k) s
      in if tail \<noteq> cr_head (fb_ring s1)
         then (if fb_ready s1 then put (cr_buf (fb_ring s1) (console_slot tail)) s1 else Some s1)
                \<bind> (\<lambda>s2. drain_loop arrive (Suc k) (tail + 1) True s2)
         else Some (any, s1\<lparr>fb_ring := (fb_ring s1)\<lparr>cr_tail := tail\<rparr>\<rparr>))"

definition drain_ring :: "(nat \<Rightarrow> string) \<Rightarrow> 'd fbcon \<Rightarrow> (bool \<times> 'd fbcon) option" where
  "drain_ring arrive s = drain_loop arrive 0 (cr_tail (fb_ring s)) False s"

section \<open>Entry points\<close>

definition fbcon_init :: "'d machine \<Rightarrow> fb_config \<Rightarrow> 'd fbcon \<Rightarrow> 'd fbcon option" where
  "fbcon_init M F s =
     (let (ok, s1) = read_geometry M F s
      in if \<not> ok then Some (dbg_puts (''FBCON|ERROR: not drawing; the console stays on the UART only'' @ [NL]) s1)
         else do {
           s2 \<leftarrow> clear_screen s1;
           let s3 = retarget_scanout M s2;
           let s4 = start_decon M s3;
           let s5 = present M s4;
           Some (dbg_puts (''FBCON|INFO: mirroring the console to the panel'' @ [NL]) (s5\<lparr>fb_ready := True\<rparr>))
         })"

definition fbcon_notified :: "'d machine \<Rightarrow> fb_config \<Rightarrow> (nat \<Rightarrow> string) \<Rightarrow> u32 \<Rightarrow> 'd fbcon \<Rightarrow> 'd fbcon option" where
  "fbcon_notified M F arrive ch s =
     (if ch \<noteq> FBCON_TRACER_CH then Some (dbg_puts (''FBCON|ERROR: notification on unexpected channel'' @ [NL]) s)
      else do {
        (any, s1) \<leftarrow> drain_ring arrive s;
        if any \<and> fb_ready s1 then render M F s1 else Some s1
      })"

end
