(* ===== verification/Fbcon_Pixels.thy ===== *)
theory Fbcon_Pixels
  imports Fbcon
begin

text \<open>
  What the drawing loops of \<^verbatim>\<open>fbcon/fbcon.c\<close> write, as one exact equation each: the frame buffer after a loop is the old one with
  a rectangle painted over it.  The equations hold under \<open>geometry\<close>, which a successful \<open>read_geometry\<close> establishes; that
  they return at all is that no store leaves the frame buffer or the grid.
\<close>

section \<open>Loops as sequences of states\<close>

lemma for_each_chain:
  assumes "\<And>i. a \<le> i \<Longrightarrow> i < b \<Longrightarrow> f i (g i) = Some (g (Suc i))" and "a \<le> b"
  shows "for_each f [a..<b] (g a) = Some (g b)"
  using assms
proof (induction "b - a" arbitrary: a)
  case (Suc n)
  then have "[a..<b] = a # [Suc a..<b]" by (simp add: upt_conv_Cons)
  then show ?case using Suc by simp
qed simp

lemma for_each_chain2:
  assumes step: "\<And>i j. i < A \<Longrightarrow> j < B \<Longrightarrow> f i j (g (i * B + j)) = Some (g (Suc (i * B + j)))"
  shows "for_each (\<lambda>i. for_each (f i) [0..<B]) [0..<A] (g 0) = Some (g (A * B))"
proof -
  have inner: "for_each (f i) [0..<B] (g (i * B)) = Some (g (Suc i * B))" if "i < A" for i
    using for_each_chain [of 0 B "f i" "\<lambda>j. g (i * B + j)"] step [OF that] by (simp add: add.commute)
  show ?thesis using for_each_chain [of 0 A "\<lambda>i. for_each (f i) [0..<B]" "\<lambda>i. g (i * B)"] inner by simp
qed

section \<open>Rectangles\<close>

text \<open>Words are numbered along lines of \<open>W\<close> words; \<open>col\<close> gives the colours relative to the rectangle's corner.\<close>

definition paint :: "nat \<Rightarrow> nat \<Rightarrow> nat \<Rightarrow> nat \<Rightarrow> nat \<Rightarrow> (nat \<Rightarrow> nat \<Rightarrow> u32) \<Rightarrow> (nat \<Rightarrow> u32) \<Rightarrow> nat \<Rightarrow> u32" where
  "paint W x0 y0 w h col m i =
     (if x0 \<le> i mod W \<and> i mod W < x0 + w \<and> y0 \<le> i div W \<and> i div W < y0 + h
      then col (i mod W - x0) (i div W - y0) else m i)"

lemma paint_none [simp]: "paint W x y 0 h col m = m" "paint W x y w 0 col m = m"
  by (auto simp: paint_def fun_eq_iff)

lemma paint_cong:
  assumes "\<And>x y. x < w \<Longrightarrow> y < h \<Longrightarrow> col x y = col' x y"
  shows "paint W x0 y0 w h col m = paint W x0 y0 w h col' m"
proof
  fix i
  have "col (i mod W - x0) (i div W - y0) = col' (i mod W - x0) (i div W - y0)"
    if "x0 \<le> i mod W" "i mod W < x0 + w" "y0 \<le> i div W" "i div W < y0 + h"
    using that by (intro assms) auto
  then show "paint W x0 y0 w h col m i = paint W x0 y0 w h col' m i" by (simp add: paint_def)
qed

lemma paint_right:
  "paint W (x0 + n) y0 k h (\<lambda>x y. col (n + x) y) (paint W x0 y0 n h col m) = paint W x0 y0 (n + k) h col m"
  by (rule ext) (auto simp: paint_def)

lemma paint_down:
  "paint W x0 (y0 + n) w k (\<lambda>x y. col x (n + y)) (paint W x0 y0 w n col m) = paint W x0 y0 w (n + k) col m"
  by (rule ext) (auto simp: paint_def)

lemma word_at: "x < W \<Longrightarrow> i = y * W + x \<longleftrightarrow> i mod W = x \<and> i div W = y" for W :: nat
  using div_mult_mod_eq [of i W] by auto

lemma paint_point: "x < W \<Longrightarrow> m(y * W + x := v) = paint W x y 1 1 (\<lambda>_ _. v) m"
  by (rule ext) (auto simp: paint_def word_at [of x W _ y] simp del: div_mult_mod_eq)

lemma paint_at:
  "x < W \<Longrightarrow> paint W x0 y0 w h col m (y * W + x) =
     (if x0 \<le> x \<and> x < x0 + w \<and> y0 \<le> y \<and> y < y0 + h then col (x - x0) (y - y0) else m (y * W + x))"
  by (simp add: paint_def)

section \<open>Geometry\<close>

definition geometry :: "fb_config \<Rightarrow> 'd fbcon \<Rightarrow> bool" where
  "geometry F s \<longleftrightarrow> 0 < fb_width s \<and> 0 < fb_height s \<and> fb_stride s mod 4 = 0 \<and> fb_width s * 4 \<le> fb_stride s
     \<and> fb_stride s * fb_height s \<le> FBCON_FB_SIZE
     \<and> 2 * MARGIN_SIDE F + fb_cols s * CELL_W F \<le> fb_width s \<and> MARGIN_TOP F + MARGIN_BOTTOM F + fb_rows s * CELL_H F \<le> fb_height s
     \<and> fb_cols s \<le> MAX_COLS \<and> fb_rows s \<le> MAX_ROWS"

definition line_words :: "'d fbcon \<Rightarrow> nat" where
  "line_words s = fb_stride s div 4"

lemma pixel_row_eq: "geometry F s \<Longrightarrow> pixel_row s y = y * line_words s"
  by (simp add: geometry_def pixel_row_def line_words_def div_mult_swap mod_eq_0_iff_dvd)

lemma width_words: "geometry F s \<Longrightarrow> fb_width s \<le> line_words s"
  by (auto simp: geometry_def line_words_def)

lemma store_pixel_point:
  assumes g: "geometry F s" and x: "x < fb_width s" and y: "y < fb_height s"
  shows "store_pixel (y * line_words s + x) v s =
    Some (s\<lparr>fb_mem := paint (line_words s) x y 1 1 (\<lambda>_ _. v) (fb_mem s)\<rparr>)"
proof -
  have W: "fb_stride s = 4 * line_words s" using g by (simp add: geometry_def line_words_def mod_eq_0_iff_dvd)
  have "y * line_words s + x + 1 \<le> Suc y * line_words s" using x width_words [OF g] by simp
  also have "\<dots> \<le> fb_height s * line_words s" using y by (intro mult_right_mono) simp_all
  finally have "4 * (y * line_words s + x) + 4 \<le> fb_stride s * fb_height s" unfolding W by (simp add: algebra_simps)
  then have "4 * (y * line_words s + x) + 4 \<le> FBCON_FB_SIZE" using g by (simp add: geometry_def)
  then show ?thesis using x width_words [OF g] by (simp add: store_pixel_def paint_point)
qed

lemma geometry_frame [simp]:
  "geometry F (s\<lparr>fb_mem := m\<rparr>) = geometry F s" "line_words (s\<lparr>fb_mem := m\<rparr>) = line_words s"
  "geometry F (s\<lparr>fb_out := q\<rparr>) = geometry F s" "line_words (s\<lparr>fb_out := q\<rparr>) = line_words s"
  "geometry F (s\<lparr>fb_grid := g\<rparr>) = geometry F s" "line_words (s\<lparr>fb_grid := g\<rparr>) = line_words s"
  "geometry F (s\<lparr>fb_dirty := b\<rparr>) = geometry F s" "line_words (s\<lparr>fb_dirty := b\<rparr>) = line_words s"
  by (simp_all add: geometry_def line_words_def)

section \<open>Glyphs\<close>

text \<open>The colour of a pixel of a character's cell, and of the text area when the grid is \<open>g\<close>.\<close>

definition cell_color :: "fb_config \<Rightarrow> char \<Rightarrow> nat \<Rightarrow> nat \<Rightarrow> u32" where
  "cell_color F ch x y = glyph_color F (glyph_of F ch (y div SCALE F)) (x div SCALE F)"

definition text_color :: "fb_config \<Rightarrow> (nat \<Rightarrow> nat \<Rightarrow> char) \<Rightarrow> nat \<Rightarrow> nat \<Rightarrow> u32" where
  "text_color F g x y = cell_color F (g (y div CELL_H F) (x div CELL_W F)) (x mod CELL_W F) (y mod CELL_H F)"

lemma draw_line_paints:
  assumes g: "geometry F s" and x: "x0 + FONT_W F * SCALE F \<le> fb_width s" and y: "y < fb_height s"
  shows "draw_line F row (y * line_words s + x0) s =
    Some (s\<lparr>fb_mem := paint (line_words s) x0 y (FONT_W F * SCALE F) 1 (\<lambda>x _. glyph_color F row (x div SCALE F)) (fb_mem s)\<rparr>)"
proof -
  let ?W = "line_words s" and ?col = "\<lambda>x (_::nat). glyph_color F row (x div SCALE F)"
  let ?g = "\<lambda>n. (y * ?W + x0 + n, s\<lparr>fb_mem := paint ?W x0 y n 1 ?col (fb_mem s)\<rparr>)"
  have step: "store_next (glyph_color F row gx) (?g (gx * SCALE F + sx)) = Some (?g (Suc (gx * SCALE F + sx)))"
    if gx: "gx < FONT_W F" and sx: "sx < SCALE F" for gx sx
  proof -
    let ?n = "gx * SCALE F + sx" and ?s = "snd (?g (gx * SCALE F + sx))"
    have "?n + 1 \<le> Suc gx * SCALE F" using sx by simp
    also have "\<dots> \<le> FONT_W F * SCALE F" using gx by (intro mult_right_mono) simp_all
    finally have "x0 + ?n < fb_width ?s" using x by simp
    then have "store_pixel (y * line_words ?s + (x0 + ?n)) (glyph_color F row gx) ?s =
        Some (?s\<lparr>fb_mem := paint (line_words ?s) (x0 + ?n) y 1 1 (\<lambda>_ _. glyph_color F row gx) (fb_mem ?s)\<rparr>)"
      using g y by (intro store_pixel_point) simp_all
    moreover have "paint ?W (x0 + ?n) y 1 1 (\<lambda>_ _. glyph_color F row gx) (paint ?W x0 y ?n 1 ?col (fb_mem s))
        = paint ?W x0 y (?n + 1) 1 ?col (fb_mem s)"
      unfolding paint_right [of ?W x0 ?n y 1 1 ?col, symmetric] using sx by (intro paint_cong) simp
    ultimately show ?thesis by (simp add: store_next_def add.assoc)
  qed
  have "for_each (\<lambda>gx. for_each (\<lambda>sx. store_next (glyph_color F row gx)) [0..<SCALE F]) [0..<FONT_W F] (?g 0)
      = Some (?g (FONT_W F * SCALE F))"
    by (rule for_each_chain2 [where f = "\<lambda>gx sx. store_next (glyph_color F row gx)" and g = ?g]) (rule step)
  then show ?thesis by (simp add: draw_line_def)
qed

text \<open>The cells of the text area lie inside the frame buffer.\<close>

lemma scaled_sum: "i < n \<Longrightarrow> j < b \<Longrightarrow> i * b + j < n * b" for i j n b :: nat
proof -
  assume "i < n" and "j < b"
  then have "i * b + j < Suc i * b" by simp
  also have "\<dots> \<le> n * b" using \<open>i < n\<close> by (intro mult_right_mono) simp_all
  finally show ?thesis .
qed

lemma scaled_le: "i < n \<Longrightarrow> i * b + b \<le> n * b" for i n b :: nat
  using mult_right_mono [of "Suc i" n b] by simp

lemma text_color_cell:
  "x < CELL_W F \<Longrightarrow> y < CELL_H F \<Longrightarrow> text_color F g (c * CELL_W F + x) (r * CELL_H F + y) = cell_color F (g r c) x y"
  by (simp add: text_color_def)

lemma draw_glyph_paints:
  assumes g: "geometry F s" and c: "c < fb_cols s" and r: "r < fb_rows s"
  shows "draw_glyph F c r ch s = Some (s\<lparr>fb_mem :=
    paint (line_words s) (MARGIN_SIDE F + c * CELL_W F) (MARGIN_TOP F + r * CELL_H F) (CELL_W F) (CELL_H F) (cell_color F ch) (fb_mem s)\<rparr>)"
proof -
  let ?W = "line_words s" and ?X = "MARGIN_SIDE F + c * CELL_W F" and ?Y = "MARGIN_TOP F + r * CELL_H F"
  let ?g = "\<lambda>n. s\<lparr>fb_mem := paint ?W ?X ?Y (CELL_W F) n (cell_color F ch) (fb_mem s)\<rparr>"
  have wide: "?X + FONT_W F * SCALE F \<le> fb_width s"
    using scaled_le [OF c, of "CELL_W F"] g by (simp add: geometry_def CELL_W_def)
  have step: "draw_line F (glyph_of F ch gy)
      (pixel_row (?g (gy * SCALE F + sy)) (?Y + gy * SCALE F + sy) + MARGIN_SIDE F + c * CELL_W F) (?g (gy * SCALE F + sy))
      = Some (?g (Suc (gy * SCALE F + sy)))" if gy: "gy < FONT_H F" and sy: "sy < SCALE F" for gy sy
  proof -
    let ?n = "gy * SCALE F + sy"
    let ?s = "?g ?n"
    have "?n < CELL_H F" using scaled_sum [OF gy sy] by (simp add: CELL_H_def)
    then have high: "?Y + ?n < fb_height ?s"
      using scaled_le [OF r, of "CELL_H F"] g by (simp add: geometry_def)
    have "draw_line F (glyph_of F ch gy) ((?Y + ?n) * line_words ?s + ?X) ?s = Some (?s\<lparr>fb_mem := paint (line_words ?s) ?X (?Y + ?n)
        (FONT_W F * SCALE F) 1 (\<lambda>x _. glyph_color F (glyph_of F ch gy) (x div SCALE F)) (fb_mem ?s)\<rparr>)"
      by (rule draw_line_paints) (use g wide high in simp_all)
    moreover have "paint ?W ?X (?Y + ?n) (CELL_W F) 1 (\<lambda>x _. glyph_color F (glyph_of F ch gy) (x div SCALE F))
          (paint ?W ?X ?Y (CELL_W F) ?n (cell_color F ch) (fb_mem s))
        = paint ?W ?X ?Y (CELL_W F) (?n + 1) (cell_color F ch) (fb_mem s)"
      unfolding paint_down [of ?W ?X ?Y ?n "CELL_W F" 1 "cell_color F ch", symmetric]
      using sy by (intro paint_cong) (simp add: cell_color_def)
    moreover have "pixel_row ?s (?Y + ?n) = (?Y + ?n) * line_words ?s" using g by (intro pixel_row_eq) simp
    ultimately show ?thesis by (simp add: CELL_W_def add.assoc)
  qed
  have "for_each (\<lambda>gy. for_each (\<lambda>sy s. draw_line F (glyph_of F ch gy)
          (pixel_row s (?Y + gy * SCALE F + sy) + MARGIN_SIDE F + c * CELL_W F) s) [0..<SCALE F]) [0..<FONT_H F] (?g 0)
      = Some (?g (FONT_H F * SCALE F))"
    by (rule for_each_chain2 [where g = ?g and f = "\<lambda>gy sy s. draw_line F (glyph_of F ch gy)
          (pixel_row s (?Y + gy * SCALE F + sy) + MARGIN_SIDE F + c * CELL_W F) s"]) (rule step)
  then show ?thesis by (simp add: draw_glyph_def CELL_H_def)
qed

lemma draw_row_paints:
  assumes g: "geometry F s" and r: "r < fb_rows s"
  shows "draw_row F r s = Some (clean_rows (MARGIN_TOP F + r * CELL_H F) (CELL_H F) (s\<lparr>fb_mem :=
    paint (line_words s) (MARGIN_SIDE F) (MARGIN_TOP F + r * CELL_H F) (fb_cols s * CELL_W F) (CELL_H F)
      (\<lambda>x y. text_color F (fb_grid s) x (r * CELL_H F + y)) (fb_mem s)\<rparr>))"
proof -
  let ?W = "line_words s" and ?X = "MARGIN_SIDE F" and ?Y = "MARGIN_TOP F + r * CELL_H F"
  let ?col = "\<lambda>x y. text_color F (fb_grid s) x (r * CELL_H F + y)"
  let ?g = "\<lambda>c. s\<lparr>fb_mem := paint ?W ?X ?Y (c * CELL_W F) (CELL_H F) ?col (fb_mem s)\<rparr>"
  have step: "load_grid r c (?g c) \<bind> (\<lambda>x. draw_glyph F c r x (?g c)) = Some (?g (Suc c))" if c: "c < fb_cols s" for c
  proof -
    have "load_grid r c (?g c) = Some (fb_grid s r c)" using g r c by (simp add: load_grid_def geometry_def)
    moreover have "draw_glyph F c r (fb_grid s r c) (?g c) = Some ((?g c)\<lparr>fb_mem := paint (line_words (?g c)) (?X + c * CELL_W F) ?Y
        (CELL_W F) (CELL_H F) (cell_color F (fb_grid s r c)) (fb_mem (?g c))\<rparr>)"
      by (rule draw_glyph_paints) (use g r c in simp_all)
    moreover have "paint ?W (?X + c * CELL_W F) ?Y (CELL_W F) (CELL_H F) (cell_color F (fb_grid s r c))
          (paint ?W ?X ?Y (c * CELL_W F) (CELL_H F) ?col (fb_mem s))
        = paint ?W ?X ?Y (c * CELL_W F + CELL_W F) (CELL_H F) ?col (fb_mem s)"
      unfolding paint_right [of ?W ?X "c * CELL_W F" ?Y "CELL_W F" "CELL_H F" ?col, symmetric]
      by (intro paint_cong) (simp add: text_color_cell)
    ultimately show ?thesis by (simp add: add.commute)
  qed
  have "for_each (\<lambda>c s. load_grid r c s \<bind> (\<lambda>x. draw_glyph F c r x s)) [0..<fb_cols s] (?g 0) = Some (?g (fb_cols s))"
    by (rule for_each_chain [where g = ?g]) (simp_all add: step)
  then show ?thesis by (simp add: draw_row_def)
qed

section \<open>Redrawing\<close>

text \<open>A row whose pixels are those of its text, and the incremental redraw: it equals a redraw of the whole text area.\<close>

definition row_shown :: "fb_config \<Rightarrow> 'd fbcon \<Rightarrow> nat \<Rightarrow> bool" where
  "row_shown F s r \<longleftrightarrow> (\<forall>x<fb_cols s * CELL_W F. \<forall>y<CELL_H F.
     fb_mem s ((MARGIN_TOP F + r * CELL_H F + y) * line_words s + (MARGIN_SIDE F + x)) = text_color F (fb_grid s) x (r * CELL_H F + y))"

definition rows_cleaned :: "fb_config \<Rightarrow> 'd fbcon \<Rightarrow> nat \<Rightarrow> fb_effect list" where
  "rows_cleaned F s n = concat (map (\<lambda>r. if fb_scrolled s \<or> fb_dirty s r
     then [CacheClean ((MARGIN_TOP F + r * CELL_H F) * fb_stride s)
             ((MARGIN_TOP F + r * CELL_H F) * fb_stride s + CELL_H F * fb_stride s)] else []) [0..<n])"

lemma paint_same:
  assumes shown: "\<And>x y. x < w \<Longrightarrow> y < h \<Longrightarrow> m ((y0 + y) * W + (x0 + x)) = col x y"
  shows "paint W x0 y0 w h col m = m"
proof
  fix i
  have "m i = col (i mod W - x0) (i div W - y0)"
    if "x0 \<le> i mod W" "i mod W < x0 + w" "y0 \<le> i div W" "i div W < y0 + h"
    using shown [of "i mod W - x0" "i div W - y0"] that by simp
  then show "paint W x0 y0 w h col m i = m i" by (simp add: paint_def)
qed

lemma render_row_paints:
  fixes s :: "'d fbcon" and F :: fb_config
  defines "g \<equiv> \<lambda>n. s\<lparr>fb_mem := paint (line_words s) (MARGIN_SIDE F) (MARGIN_TOP F) (fb_cols s * CELL_W F) (n * CELL_H F)
      (text_color F (fb_grid s)) (fb_mem s), fb_out := fb_out s @ rows_cleaned F s n, fb_dirty := (\<lambda>r. n \<le> r \<and> fb_dirty s r)\<rparr>"
  assumes geo: "geometry F s" and r: "r < fb_rows s" and shown: "\<not> fb_scrolled s \<Longrightarrow> \<not> fb_dirty s r \<Longrightarrow> row_shown F s r"
  shows "render_row F r (g r) = Some (g (Suc r))"
proof -
  let ?W = "line_words s" and ?X = "MARGIN_SIDE F" and ?Y = "MARGIN_TOP F" and ?w = "fb_cols s * CELL_W F"
  let ?col = "text_color F (fb_grid s)"
  have down: "paint ?W ?X (?Y + r * CELL_H F) ?w (CELL_H F) (\<lambda>x y. ?col x (r * CELL_H F + y)) (fb_mem (g r)) = fb_mem (g (Suc r))"
    using paint_down [of ?W ?X ?Y "r * CELL_H F" ?w "CELL_H F" ?col "fb_mem s"] by (simp add: g_def add.commute)
  have max: "r < MAX_ROWS" using geo r by (simp add: geometry_def)
  have gr: "geometry F (g r)" "r < fb_rows (g r)" using geo r by (simp_all add: g_def)
  have dirty: "(\<lambda>q. r \<le> q \<and> fb_dirty s q)(r := False) = (\<lambda>q. Suc r \<le> q \<and> fb_dirty s q)" by (auto simp: fun_eq_iff)
  show ?thesis
  proof (cases "fb_scrolled s \<or> fb_dirty s r")
    case True
    then show ?thesis using draw_row_paints [OF gr] down max dirty
      by (auto simp: render_row_def g_def store_dirty_def clean_rows_def rows_cleaned_def Let_def)
  next
    case False
    have wide: "?X + x < ?W" if "x < ?w" for x
      using that geo width_words [OF geo] by (simp add: geometry_def)
    have "paint ?W ?X (?Y + r * CELL_H F) ?w (CELL_H F) (\<lambda>x y. ?col x (r * CELL_H F + y)) (fb_mem (g r)) = fb_mem (g r)"
      using shown False wide by (intro paint_same) (simp add: g_def row_shown_def paint_at)
    then have "fb_mem (g (Suc r)) = fb_mem (g r)" using down by simp
    then show ?thesis using False max dirty
      by (simp add: render_row_def g_def store_dirty_def rows_cleaned_def)
  qed
qed

lemma render_repaints:
  assumes "geometry F s" and "\<And>r. r < fb_rows s \<Longrightarrow> \<not> fb_scrolled s \<Longrightarrow> \<not> fb_dirty s r \<Longrightarrow> row_shown F s r"
  shows "render M F s = Some (present M (s\<lparr>fb_mem := paint (line_words s) (MARGIN_SIDE F) (MARGIN_TOP F) (fb_cols s * CELL_W F)
      (fb_rows s * CELL_H F) (text_color F (fb_grid s)) (fb_mem s), fb_out := fb_out s @ rows_cleaned F s (fb_rows s),
      fb_dirty := (\<lambda>r. fb_rows s \<le> r \<and> fb_dirty s r), fb_scrolled := False\<rparr>))"
proof -
  let ?g = "\<lambda>n. s\<lparr>fb_mem := paint (line_words s) (MARGIN_SIDE F) (MARGIN_TOP F) (fb_cols s * CELL_W F) (n * CELL_H F)
      (text_color F (fb_grid s)) (fb_mem s), fb_out := fb_out s @ rows_cleaned F s n, fb_dirty := (\<lambda>r. n \<le> r \<and> fb_dirty s r)\<rparr>"
  have "for_each (render_row F) [0..<fb_rows s] (?g 0) = Some (?g (fb_rows s))"
    by (rule for_each_chain [where g = ?g]) (simp_all add: render_row_paints assms)
  moreover have "?g 0 = s" by (simp add: rows_cleaned_def)
  ultimately show ?thesis by (simp add: render_def)
qed

section \<open>The grid\<close>

lemma store_row:
  assumes "r < MAX_ROWS" and "n \<le> MAX_COLS"
  shows "for_each (\<lambda>c. store_grid r c (v c)) [0..<n] s =
    Some (s\<lparr>fb_grid := (fb_grid s)(r := (\<lambda>c. if c < n then v c else fb_grid s r c))\<rparr>)"
proof -
  let ?g = "\<lambda>n. s\<lparr>fb_grid := (fb_grid s)(r := (\<lambda>c. if c < n then v c else fb_grid s r c))\<rparr>"
  have upd: "(\<lambda>c. if c < i then v c else fb_grid s r c)(i := v i) = (\<lambda>c. if c < Suc i then v c else fb_grid s r c)" for i
    by (auto simp: fun_eq_iff less_Suc_eq)
  have "for_each (\<lambda>c. store_grid r c (v c)) [0..<n] (?g 0) = Some (?g n)"
    by (rule for_each_chain [where g = ?g]) (use assms in \<open>simp_all add: store_grid_def upd\<close>)
  then show ?thesis by simp
qed

lemma copy_row:
  assumes "r < MAX_ROWS" and "q < MAX_ROWS" and "r \<noteq> q" and "n \<le> MAX_COLS"
  shows "for_each (\<lambda>c s. load_grid r c s \<bind> (\<lambda>x. store_grid q c x s)) [0..<n] s =
    Some (s\<lparr>fb_grid := (fb_grid s)(q := (\<lambda>c. if c < n then fb_grid s r c else fb_grid s q c))\<rparr>)"
proof -
  let ?g = "\<lambda>n. s\<lparr>fb_grid := (fb_grid s)(q := (\<lambda>c. if c < n then fb_grid s r c else fb_grid s q c))\<rparr>"
  have upd: "(\<lambda>c. if c < i then fb_grid s r c else fb_grid s q c)(i := fb_grid s r i)
      = (\<lambda>c. if c < Suc i then fb_grid s r c else fb_grid s q c)" for i
    by (auto simp: fun_eq_iff less_Suc_eq)
  have "for_each (\<lambda>c s. load_grid r c s \<bind> (\<lambda>x. store_grid q c x s)) [0..<n] (?g 0) = Some (?g n)"
    by (rule for_each_chain [where g = ?g]) (use assms in \<open>simp_all add: load_grid_def store_grid_def upd\<close>)
  then show ?thesis by simp
qed

text \<open>A scroll moves every line up by one and blanks the last.\<close>

definition scrolled_grid :: "nat \<Rightarrow> nat \<Rightarrow> (nat \<Rightarrow> nat \<Rightarrow> char) \<Rightarrow> nat \<Rightarrow> nat \<Rightarrow> char" where
  "scrolled_grid rows cols g r c =
     (if c < cols \<and> r < rows then (if r + 1 < rows then g (r + 1) c else CHR '' '') else g r c)"

lemma scroll_grid_eq:
  assumes rows: "0 < fb_rows s" "fb_rows s \<le> MAX_ROWS" and cols: "fb_cols s \<le> MAX_COLS"
  shows "scroll_grid s = Some (s\<lparr>fb_grid := scrolled_grid (fb_rows s) (fb_cols s) (fb_grid s), fb_scrolled := True\<rparr>)"
proof -
  let ?up = "\<lambda>n. s\<lparr>fb_grid := (\<lambda>r c. if c < fb_cols s \<and> r + 1 < n then fb_grid s (r + 1) c else fb_grid s r c)\<rparr>"
  have step: "for_each (\<lambda>c s. load_grid r c s \<bind> (\<lambda>x. store_grid (r - 1) c x s)) [0..<fb_cols s] (?up r) = Some (?up (Suc r))"
    if "1 \<le> r" "r < fb_rows s" for r
  proof -
    have "(fb_grid (?up r))(r - 1 := (\<lambda>c. if c < fb_cols s then fb_grid (?up r) r c else fb_grid (?up r) (r - 1) c))
        = fb_grid (?up (Suc r))" using that by (auto simp: fun_eq_iff less_Suc_eq)
    then show ?thesis using copy_row [of r "r - 1" "fb_cols s" "?up r"] that assms by simp
  qed
  have "for_each (\<lambda>r s'. for_each (\<lambda>c s. load_grid r c s \<bind> (\<lambda>x. store_grid (r - 1) c x s)) [0..<fb_cols s'] s') [1..<fb_rows s] (?up 1)
      = Some (?up (fb_rows s))"
    by (rule for_each_chain [where g = ?up]) (use step rows in simp_all)
  moreover have "?up 1 = s" by simp
  moreover have "for_each (\<lambda>c. store_grid (fb_rows s - 1) c (CHR '' '')) [0..<fb_cols s] (?up (fb_rows s))
      = Some ((?up (fb_rows s))\<lparr>fb_grid := scrolled_grid (fb_rows s) (fb_cols s) (fb_grid s)\<rparr>)"
  proof -
    have blank: "(fb_grid (?up (fb_rows s)))(fb_rows s - 1 := (\<lambda>c. if c < fb_cols s then CHR '' '' else fb_grid (?up (fb_rows s)) (fb_rows s - 1) c))
        = scrolled_grid (fb_rows s) (fb_cols s) (fb_grid s)"
      using rows by (auto simp: fun_eq_iff scrolled_grid_def)
    show ?thesis
      using store_row [of "fb_rows s - 1" "fb_cols s" "\<lambda>_. CHR '' ''" "?up (fb_rows s)"] assms unfolding blank by simp
  qed
  ultimately show ?thesis using rows by (simp add: scroll_grid_def)
qed

section \<open>Start-up\<close>

definition blank_grid :: "nat \<Rightarrow> nat \<Rightarrow> (nat \<Rightarrow> nat \<Rightarrow> char) \<Rightarrow> nat \<Rightarrow> nat \<Rightarrow> char" where
  "blank_grid rows cols g r c = (if r < rows \<and> c < cols then CHR '' '' else g r c)"

lemma clear_line_paints:
  assumes g: "geometry F s" and y: "y < fb_height s"
  shows "for_each (\<lambda>x s. store_pixel (pixel_row s y + x) BG s) [0..<fb_width s] s =
    Some (s\<lparr>fb_mem := paint (line_words s) 0 y (fb_width s) 1 (\<lambda>_ _. BG) (fb_mem s)\<rparr>)"
proof -
  let ?g = "\<lambda>x. s\<lparr>fb_mem := paint (line_words s) 0 y x 1 (\<lambda>_ _. BG) (fb_mem s)\<rparr>"
  have step: "store_pixel (pixel_row (?g x) y + x) BG (?g x) = Some (?g (Suc x))" if "x < fb_width s" for x
  proof -
    have "store_pixel (y * line_words (?g x) + x) BG (?g x) =
        Some ((?g x)\<lparr>fb_mem := paint (line_words (?g x)) x y 1 1 (\<lambda>_ _. BG) (fb_mem (?g x))\<rparr>)"
      by (rule store_pixel_point) (use g y that in simp_all)
    moreover have "pixel_row (?g x) y = y * line_words (?g x)" using g by (intro pixel_row_eq) simp
    ultimately show ?thesis using paint_right [of "line_words s" 0 x y 1 1 "\<lambda>_ _. BG"] by simp
  qed
  have "for_each (\<lambda>x s. store_pixel (pixel_row s y + x) BG s) [0..<fb_width s] (?g 0) = Some (?g (fb_width s))"
    by (rule for_each_chain [where g = ?g]) (use step in simp_all)
  then show ?thesis by simp
qed

lemma clear_screen_eq:
  assumes g: "geometry F s"
  shows "clear_screen s = Some (s\<lparr>fb_mem := paint (line_words s) 0 0 (fb_width s) (fb_height s) (\<lambda>_ _. BG) (fb_mem s),
    fb_out := fb_out s @ [CacheClean 0 (fb_height s * fb_stride s)], fb_grid := blank_grid (fb_rows s) (fb_cols s) (fb_grid s)\<rparr>)"
proof -
  let ?g = "\<lambda>y. s\<lparr>fb_mem := paint (line_words s) 0 0 (fb_width s) y (\<lambda>_ _. BG) (fb_mem s)\<rparr>"
  have line: "for_each (\<lambda>x s. store_pixel (pixel_row s y + x) BG s) [0..<fb_width s] (?g y) = Some (?g (Suc y))"
    if "y < fb_height s" for y
    using clear_line_paints [of F "?g y" y] g that paint_down [of "line_words s" 0 0 y "fb_width s" 1 "\<lambda>_ _. BG"] by simp
  have "for_each (\<lambda>y s. for_each (\<lambda>x s. store_pixel (pixel_row s y + x) BG s) [0..<fb_width s] s) [0..<fb_height s] (?g 0)
      = Some (?g (fb_height s))"
    by (rule for_each_chain [where g = ?g]) (simp_all add: line)
  moreover define t where "t = clean_rows 0 (fb_height s) (?g (fb_height s))"
  moreover have "for_each (\<lambda>r s. for_each (\<lambda>c s. store_grid r c (CHR '' '') s) [0..<fb_cols s] s) [0..<fb_rows t] t
      = Some (t\<lparr>fb_grid := blank_grid (fb_rows t) (fb_cols t) (fb_grid t)\<rparr>)"
  proof -
    let ?h = "\<lambda>r. t\<lparr>fb_grid := blank_grid r (fb_cols t) (fb_grid t)\<rparr>"
    have step: "for_each (\<lambda>c. store_grid r c (CHR '' '')) [0..<fb_cols t] (?h r) = Some (?h (Suc r))" if "r < fb_rows t" for r
    proof -
      have eq: "(fb_grid (?h r))(r := (\<lambda>c. if c < fb_cols t then CHR '' '' else fb_grid (?h r) r c)) = fb_grid (?h (Suc r))"
        by (auto simp: blank_grid_def fun_eq_iff less_Suc_eq)
      show ?thesis
        using store_row [of r "fb_cols t" "\<lambda>_. CHR '' ''" "?h r"] that g unfolding eq by (simp add: t_def clean_rows_def geometry_def)
    qed
    have "for_each (\<lambda>r s. for_each (\<lambda>c s. store_grid r c (CHR '' '') s) [0..<fb_cols s] s) [0..<fb_rows t] (?h 0) = Some (?h (fb_rows t))"
      by (rule for_each_chain [where g = ?h]) (simp_all add: step)
    moreover have "?h 0 = t" by (simp add: blank_grid_def [abs_def])
    ultimately show ?thesis by simp
  qed
  ultimately show ?thesis by (simp add: clear_screen_def clean_rows_def)
qed

text \<open>Register accesses and messages leave the panel alone.\<close>

definition same_panel :: "'d fbcon \<Rightarrow> 'd fbcon \<Rightarrow> bool" where
  "same_panel s t \<longleftrightarrow> (\<exists>d l q. t = s\<lparr>io_dev := d, io_log := l, fb_out := q\<rparr>)"

lemma same_panelI: "t = s\<lparr>io_dev := io_dev t, io_log := io_log t, fb_out := fb_out t\<rparr> \<Longrightarrow> same_panel s t"
  unfolding same_panel_def by (intro exI)

lemma same_panel_trans: "same_panel s t \<Longrightarrow> same_panel t u \<Longrightarrow> same_panel s u"
  by (clarsimp simp: same_panel_def) (intro exI, rule refl)

lemmas fb_register_defs = reg_read_def reg_write_def read32_def write32_def log_hex_def dbg_puts_def

lemma same_panel_present: "same_panel s (present M s)"
  by (rule same_panelI) (simp add: present_def fb_register_defs Let_def split_beta)

lemma same_panel_retarget: "same_panel s (retarget_scanout M s)"
  by (rule same_panelI) (simp add: retarget_scanout_def fb_register_defs Let_def split_beta)

lemma same_panel_spin: "same_panel s (decon_spin M n s)"
proof (induction n arbitrary: s)
  case 0
  show ?case by (rule same_panelI) (simp add: fb_register_defs Let_def split_beta)
next
  case (Suc n)
  have "same_panel s (snd (reg_read M decon_vaddr DECON_GLOBAL_CON s))"
    by (rule same_panelI) (simp add: fb_register_defs Let_def split_beta)
  then show ?case using same_panel_trans [OF _ Suc.IH] by (simp add: split_beta)
qed

lemma same_panel_start_decon: "same_panel s (start_decon M s)"
  unfolding start_decon_def Let_def split_beta
  by (rule same_panel_trans [OF _ same_panel_spin], rule same_panelI) (simp add: fb_register_defs Let_def split_beta)

lemma same_panel_fields:
  "same_panel s t \<Longrightarrow> fb_mem t = fb_mem s \<and> fb_grid t = fb_grid s \<and> fb_dirty t = fb_dirty s \<and> fb_scrolled t = fb_scrolled s
     \<and> fb_cur_col t = fb_cur_col s \<and> fb_cur_row t = fb_cur_row s \<and> fb_ready t = fb_ready s \<and> fb_ring t = fb_ring s
     \<and> fb_mirrored t = fb_mirrored s \<and> fb_stride t = fb_stride s \<and> fb_width t = fb_width s \<and> fb_height t = fb_height s
     \<and> fb_cols t = fb_cols s \<and> fb_rows t = fb_rows s"
  by (auto simp: same_panel_def)

text \<open>What \<open>read_geometry\<close> leaves, and what it accepts.\<close>

definition same_text :: "'d fbcon \<Rightarrow> 'd fbcon \<Rightarrow> bool" where
  "same_text s t \<longleftrightarrow> fb_mem t = fb_mem s \<and> fb_grid t = fb_grid s \<and> fb_dirty t = fb_dirty s \<and> fb_scrolled t = fb_scrolled s
     \<and> fb_cur_col t = fb_cur_col s \<and> fb_cur_row t = fb_cur_row s \<and> fb_ready t = fb_ready s \<and> fb_ring t = fb_ring s
     \<and> fb_mirrored t = fb_mirrored s"

lemma same_text_trans: "same_text s t \<Longrightarrow> same_text t u \<Longrightarrow> same_text s u"
  by (simp add: same_text_def)

lemma read_size_frame: "same_text s (read_size M s)"
  by (simp add: same_text_def read_size_def fb_register_defs Let_def split_beta)

lemma read_stride_frame: "same_text s (read_stride M s)"
  by (simp add: same_text_def read_stride_def fb_register_defs Let_def split_beta)

lemma read_geometry_frame:
  assumes "read_geometry M F s = (b, t)"
  shows "same_text s t"
proof -
  define u where "u = read_stride M (read_size M s)"
  have "same_text s u" unfolding u_def by (rule same_text_trans [OF read_size_frame read_stride_frame])
  moreover have "same_text u t"
    using assms unfolding read_geometry_def u_def [symmetric]
    by (auto simp: same_text_def log_hex_def dbg_puts_def Let_def split: if_splits)
  ultimately show ?thesis by (rule same_text_trans)
qed

lemma read_geometry_ok:
  assumes "read_geometry M F s = (True, t)"
  shows "geometry F t" and "fb_cols t = (fb_width t - 2 * MARGIN_SIDE F) div CELL_W F"
    and "fb_rows t = (fb_height t - MARGIN_TOP F - MARGIN_BOTTOM F) div CELL_H F"
proof -
  define u where "u = read_stride M (read_size M s)"
  have t: "t = u\<lparr>fb_cols := (fb_width u - 2 * MARGIN_SIDE F) div CELL_W F,
      fb_rows := (fb_height u - MARGIN_TOP F - MARGIN_BOTTOM F) div CELL_H F\<rparr>"
    and ok: "0 < fb_width u" "0 < fb_height u" "fb_width u * 4 \<le> fb_stride u" "fb_stride u mod 4 = 0"
      "fb_stride u * fb_height u \<le> FBCON_FB_SIZE" "2 * MARGIN_SIDE F < fb_width u" "MARGIN_TOP F + MARGIN_BOTTOM F < fb_height u"
      "fb_cols t \<le> MAX_COLS" "fb_rows t \<le> MAX_ROWS"
    using assms unfolding read_geometry_def u_def [symmetric] by (auto simp: Let_def split: if_splits)
  show "fb_cols t = (fb_width t - 2 * MARGIN_SIDE F) div CELL_W F"
    and "fb_rows t = (fb_height t - MARGIN_TOP F - MARGIN_BOTTOM F) div CELL_H F" by (simp_all add: t)
  have "2 * MARGIN_SIDE F + (fb_width u - 2 * MARGIN_SIDE F) div CELL_W F * CELL_W F \<le> fb_width u"
    using div_times_less_eq_dividend [of "fb_width u - 2 * MARGIN_SIDE F" "CELL_W F"] ok by linarith
  moreover have "MARGIN_TOP F + MARGIN_BOTTOM F + (fb_height u - MARGIN_TOP F - MARGIN_BOTTOM F) div CELL_H F * CELL_H F \<le> fb_height u"
    using div_times_less_eq_dividend [of "fb_height u - MARGIN_TOP F - MARGIN_BOTTOM F" "CELL_H F"] ok by linarith
  ultimately show "geometry F t" using ok by (simp add: geometry_def t)
qed

end
