(* ===== verification/Fbcon_Text.thy ===== *)
theory Fbcon_Text
  imports Fbcon_Pixels
begin

text \<open>
  The text side of \<^verbatim>\<open>fbcon/fbcon.c\<close> against an abstract terminal.  A \<open>typescript\<close> is the paper of a teletype: all lines
  printed so far, each as wide as the panel, and the column of the carriage.  The grid is a window on its last lines, which every
  operation of the C code preserves; at the same time rows that are neither dirty nor scrolled keep showing their text.
\<close>

section \<open>The teletype\<close>

record typescript =
  ts_lines :: "string list"
  ts_col :: nat

definition ts_start :: "nat \<Rightarrow> typescript" where
  "ts_start n = \<lparr>ts_lines = [replicate n (CHR '' '')], ts_col = 0\<rparr>"

definition ts_newline :: "nat \<Rightarrow> typescript \<Rightarrow> typescript" where
  "ts_newline n p = \<lparr>ts_lines = ts_lines p @ [replicate n (CHR '' '')], ts_col = 0\<rparr>"

definition ts_type :: "char \<Rightarrow> typescript \<Rightarrow> typescript" where
  "ts_type c p =
     (let n = length (ts_lines p) - 1 in \<lparr>ts_lines = (ts_lines p)[n := (ts_lines p ! n)[ts_col p := c]], ts_col = ts_col p + 1\<rparr>)"

definition ts_print :: "nat \<Rightarrow> char \<Rightarrow> typescript \<Rightarrow> typescript" where
  "ts_print n c p = ts_type c (if n \<le> ts_col p then ts_newline n p else p)"

definition ts_put :: "nat \<Rightarrow> char \<Rightarrow> typescript \<Rightarrow> typescript" where
  "ts_put n c p =
     (if c = NL then ts_newline n p
      else if c = CR then p\<lparr>ts_col := 0\<rparr>
      else if c = CHR 0x09 then fold (ts_print n) ''    '' p
      else if 0x20 \<le> byte_of c \<and> byte_of c < 0x7f then ts_print n c p
      else p)"

definition typed :: "nat \<Rightarrow> string \<Rightarrow> typescript" where
  "typed n text = fold (ts_put n) text (ts_start n)"

text \<open>The character at a place of the paper, blank below the last line.\<close>

definition paper_at :: "typescript \<Rightarrow> nat \<Rightarrow> nat \<Rightarrow> char" where
  "paper_at p r c = (if r < length (ts_lines p) then ts_lines p ! r ! c else CHR '' '')"

definition ts_ok :: "nat \<Rightarrow> typescript \<Rightarrow> bool" where
  "ts_ok n p \<longleftrightarrow> ts_lines p \<noteq> [] \<and> (\<forall>l\<in>set (ts_lines p). length l = n)"

lemma ts_ok_start [simp]: "ts_ok n (ts_start n)"
  by (simp add: ts_ok_def ts_start_def)

lemma ts_ok_newline: "ts_ok n p \<Longrightarrow> ts_ok n (ts_newline n p)"
  by (auto simp: ts_ok_def ts_newline_def)

lemma ts_ok_type: "ts_ok n p \<Longrightarrow> ts_ok n (ts_type c p)"
  by (auto simp: ts_ok_def ts_type_def Let_def dest!: set_update_subset_insert [THEN subsetD])

section \<open>The grid is a window on the paper\<close>

definition shows_paper :: "typescript \<Rightarrow> 'd fbcon \<Rightarrow> bool" where
  "shows_paper p s \<longleftrightarrow> ts_ok (fb_cols s) p \<and> fb_cur_col s = ts_col p \<and> fb_cur_row s = min (length (ts_lines p)) (fb_rows s) - 1
     \<and> (\<forall>r<fb_rows s. \<forall>c<fb_cols s. fb_grid s r c = paper_at p (length (ts_lines p) - fb_rows s + r) c)"

definition fresh :: "fb_config \<Rightarrow> 'd fbcon \<Rightarrow> bool" where
  "fresh F s \<longleftrightarrow> (\<forall>r<fb_rows s. \<not> fb_scrolled s \<longrightarrow> \<not> fb_dirty s r \<longrightarrow> row_shown F s r)"

definition panel_ok :: "fb_config \<Rightarrow> typescript \<Rightarrow> 'd fbcon \<Rightarrow> bool" where
  "panel_ok F p s \<longleftrightarrow> geometry F s \<and> 0 < fb_rows s \<and> shows_paper p s \<and> fresh F s"

text \<open>What text operations leave alone.\<close>

definition same_frame :: "'d fbcon \<Rightarrow> 'd fbcon \<Rightarrow> bool" where
  "same_frame s t \<longleftrightarrow> (\<exists>g cc cr d sc. t = s\<lparr>fb_grid := g, fb_cur_col := cc, fb_cur_row := cr, fb_dirty := d, fb_scrolled := sc\<rparr>)"

lemma same_frameI:
  "t = s\<lparr>fb_grid := fb_grid t, fb_cur_col := fb_cur_col t, fb_cur_row := fb_cur_row t, fb_dirty := fb_dirty t, fb_scrolled := fb_scrolled t\<rparr>
   \<Longrightarrow> same_frame s t"
  unfolding same_frame_def by (intro exI)

lemma same_frame_refl [simp]: "same_frame s s"
  by (rule same_frameI) simp

lemma same_frame_trans: "same_frame s t \<Longrightarrow> same_frame t u \<Longrightarrow> same_frame s u"
  by (clarsimp simp: same_frame_def) (intro exI, rule refl)

lemma same_frame_fields:
  "same_frame s t \<Longrightarrow> fb_cols t = fb_cols s \<and> fb_rows t = fb_rows s \<and> fb_mem t = fb_mem s \<and> line_words t = line_words s
     \<and> (geometry F t \<longleftrightarrow> geometry F s) \<and> fb_ring t = fb_ring s \<and> fb_ready t = fb_ready s \<and> fb_mirrored t = fb_mirrored s
     \<and> fb_width t = fb_width s \<and> fb_height t = fb_height s \<and> fb_stride t = fb_stride s \<and> io_dev t = io_dev s
     \<and> io_log t = io_log s \<and> fb_out t = fb_out s"
  by (auto simp: same_frame_def geometry_def line_words_def)

lemma row_shown_cong:
  assumes "same_frame s t" and "\<And>c. fb_grid t r c = fb_grid s r c" and "row_shown F s r"
  shows "row_shown F t r"
  using assms same_frame_fields [OF assms(1)] by (auto simp: row_shown_def text_color_def)

text \<open>Whether a state still shows the paper, on the parts that matter.\<close>

lemma newline_ok:
  assumes ok: "panel_ok F p s"
  shows "\<exists>t. newline s = Some t \<and> panel_ok F (ts_newline (fb_cols s) p) t \<and> same_frame s t \<and> fb_cur_col t = 0"
proof -
  let ?n = "length (ts_lines p)"
  have geo: "geometry F s" and rows: "0 < fb_rows s" and paper: "shows_paper p s" and fr: "fresh F s"
    using ok by (simp_all add: panel_ok_def)
  have ts: "ts_ok (fb_cols s) p" and cur: "fb_cur_row s = min ?n (fb_rows s) - 1"
    and grid: "\<And>r c. r < fb_rows s \<Longrightarrow> c < fb_cols s \<Longrightarrow> fb_grid s r c = paper_at p (?n - fb_rows s + r) c"
    using paper by (simp_all add: shows_paper_def)
  have n: "0 < ?n" using ts by (simp add: ts_ok_def)
  have at: "paper_at (ts_newline (fb_cols s) p) r c = (if r < ?n then paper_at p r c else CHR '' '')" if "c < fb_cols s" for r c
    using that by (auto simp: paper_at_def ts_newline_def nth_append less_Suc_eq)
  have maxs: "fb_rows s \<le> MAX_ROWS" "fb_cols s \<le> MAX_COLS" using geo by (simp_all add: geometry_def)
  show ?thesis
  proof (cases "?n < fb_rows s")
    case True
    define t where "t = s\<lparr>fb_cur_col := 0, fb_cur_row := fb_cur_row s + 1\<rparr>"
    have frame: "same_frame s t" by (rule same_frameI) (simp add: t_def)
    have "newline s = Some t" using True n by (simp add: newline_def cur t_def)
    moreover have "shows_paper (ts_newline (fb_cols s) p) t"
      using True n ts_ok_newline [OF ts] grid at
      by (auto simp: shows_paper_def t_def cur ts_newline_def) (auto simp: paper_at_def)
    moreover have "fresh F t" using fr row_shown_cong [OF frame] by (auto simp: fresh_def t_def)
    ultimately show ?thesis using frame geo rows by (auto simp: panel_ok_def same_frame_fields t_def)
  next
    case False
    define t where "t = s\<lparr>fb_cur_col := 0, fb_grid := scrolled_grid (fb_rows s) (fb_cols s) (fb_grid s), fb_scrolled := True\<rparr>"
    have frame: "same_frame s t" by (rule same_frameI) (simp add: t_def)
    have "newline s = Some t"
      using False rows maxs scroll_grid_eq [of "s\<lparr>fb_cur_col := 0\<rparr>"] by (simp add: newline_def cur t_def)
    moreover obtain k where k: "?n = fb_rows s + k" using False by (metis le_iff_add not_less)
    have "fb_grid t r c = paper_at (ts_newline (fb_cols s) p) (?n + 1 - fb_rows s + r) c"
      if "r < fb_rows s" "c < fb_cols s" for r c
      using that False grid [of "r + 1" c] at [of c "?n + 1 - fb_rows s + r"] by (auto simp: t_def scrolled_grid_def k)
    then have "shows_paper (ts_newline (fb_cols s) p) t"
      using False ts_ok_newline [OF ts] by (simp add: shows_paper_def t_def cur ts_newline_def)
    moreover have "fresh F t" by (simp add: fresh_def t_def)
    ultimately show ?thesis using frame geo rows by (auto simp: panel_ok_def same_frame_fields t_def)
  qed
qed

text \<open>A character is stored under the carriage, on the last line of the paper.\<close>

lemma paper_at_type:
  "ts_ok n p \<Longrightarrow> c < n \<Longrightarrow>
   paper_at (ts_type x p) r c = (if r = length (ts_lines p) - 1 \<and> c = ts_col p then x else paper_at p r c)"
  by (auto simp: ts_ok_def paper_at_def ts_type_def Let_def nth_list_update)

definition type_here :: "char \<Rightarrow> 'd fbcon \<Rightarrow> 'd fbcon option" where
  "type_here c s = do {
     s2 \<leftarrow> store_grid (fb_cur_row s) (fb_cur_col s) c s;
     let s3 = s2\<lparr>fb_cur_col := fb_cur_col s2 + 1\<rparr>;
     store_dirty (fb_cur_row s3) True s3
   }"

lemma type_here_ok:
  assumes ok: "panel_ok F p s" and col: "fb_cur_col s = 0 \<or> fb_cur_col s < fb_cols s"
  shows "\<exists>t. type_here c s = Some t \<and> panel_ok F (ts_type c p) t \<and> same_frame s t"
proof -
  let ?n = "length (ts_lines p)"
  have geo: "geometry F s" and rows: "0 < fb_rows s" and paper: "shows_paper p s" and fr: "fresh F s"
    using ok by (simp_all add: panel_ok_def)
  have ts: "ts_ok (fb_cols s) p" and cur: "fb_cur_row s = min ?n (fb_rows s) - 1" and cc: "fb_cur_col s = ts_col p"
    and grid: "\<And>r c. r < fb_rows s \<Longrightarrow> c < fb_cols s \<Longrightarrow> fb_grid s r c = paper_at p (?n - fb_rows s + r) c"
    using paper by (simp_all add: shows_paper_def)
  have n: "0 < ?n" using ts by (simp add: ts_ok_def)
  have row: "fb_cur_row s < fb_rows s" and last: "?n - fb_rows s + fb_cur_row s = ?n - 1" using n rows by (auto simp: cur)
  have max: "fb_cur_row s < MAX_ROWS" "fb_cur_col s < MAX_COLS"
    using row geo col by (auto simp: geometry_def MAX_COLS_def)
  define t where "t = s\<lparr>fb_grid := (fb_grid s)(fb_cur_row s := (fb_grid s (fb_cur_row s))(fb_cur_col s := c)),
    fb_cur_col := fb_cur_col s + 1, fb_dirty := (fb_dirty s)(fb_cur_row s := True)\<rparr>"
  have frame: "same_frame s t" by (rule same_frameI) (simp add: t_def)
  have "type_here c s = Some t" using max by (simp add: type_here_def store_grid_def store_dirty_def t_def)
  moreover have "fb_grid t r d = paper_at (ts_type c p) (?n - fb_rows s + r) d" if "r < fb_rows s" "d < fb_cols s" for r d
    using grid [OF that] paper_at_type [OF ts that(2)] last cc by (auto simp: t_def)
  then have "shows_paper (ts_type c p) t"
    using ts_ok_type [OF ts] by (simp add: shows_paper_def t_def cur cc ts_type_def Let_def)
  moreover have "fresh F t" using fr row_shown_cong [OF frame] by (auto simp: fresh_def t_def)
  moreover have "panel_ok F (ts_type c p) t \<longleftrightarrow> shows_paper (ts_type c p) t \<and> fresh F t"
    using same_frame_fields [OF frame] geo rows by (simp add: panel_ok_def)
  ultimately show ?thesis using frame by blast
qed

lemma put_printable_ok:
  assumes ok: "panel_ok F p s"
  shows "\<exists>t. put_printable c s = Some t \<and> panel_ok F (ts_print (fb_cols s) c p) t \<and> same_frame s t"
proof -
  have put: "put_printable c s = (if fb_cols s \<le> fb_cur_col s then newline s else Some s) \<bind> type_here c"
    by (simp add: put_printable_def type_here_def [abs_def])
  have col: "fb_cur_col s = ts_col p" using ok by (simp add: panel_ok_def shows_paper_def)
  show ?thesis
  proof (cases "fb_cols s \<le> fb_cur_col s")
    case True
    obtain u where u: "newline s = Some u" "panel_ok F (ts_newline (fb_cols s) p) u" "same_frame s u" "fb_cur_col u = 0"
      using newline_ok [OF ok] by auto
    obtain t where "type_here c u = Some t" "panel_ok F (ts_type c (ts_newline (fb_cols s) p)) t" "same_frame u t"
      using type_here_ok [OF u(2)] u(4) by auto
    then show ?thesis using True u col same_frame_trans by (auto simp: put ts_print_def)
  next
    case False
    then show ?thesis using type_here_ok [OF ok, of c] col by (auto simp: put ts_print_def)
  qed
qed

lemma paper_at_return: "paper_at (p\<lparr>ts_col := n\<rparr>) = paper_at p"
  by (simp add: fun_eq_iff paper_at_def)

lemma put_ok:
  assumes ok: "panel_ok F p s"
  shows "\<exists>t. put c s = Some t \<and> panel_ok F (ts_put (fb_cols s) c p) t \<and> same_frame s t"
proof -
  have tab: "\<exists>t. for_each (\<lambda>i. put_printable (CHR '' '')) [0..<n] s = Some t
      \<and> panel_ok F ((ts_print (fb_cols s) (CHR '' '') ^^ n) p) t \<and> same_frame s t" for n
  proof (induction n)
    case (Suc n)
    then obtain t where t: "for_each (\<lambda>i. put_printable (CHR '' '')) [0..<n] s = Some t"
        "panel_ok F ((ts_print (fb_cols s) (CHR '' '') ^^ n) p) t" "same_frame s t" by auto
    then show ?case using put_printable_ok [OF t(2), of "CHR '' ''"] same_frame_fields [OF t(3)] same_frame_trans [OF t(3)]
      by (auto simp: for_each_append)
  qed (use ok in simp)
  let ?s = "s\<lparr>fb_cur_col := 0\<rparr>"
  have frame: "same_frame s ?s" by (rule same_frameI) simp
  have "fresh F ?s" using ok row_shown_cong [OF frame] by (auto simp: panel_ok_def fresh_def)
  moreover have "shows_paper (p\<lparr>ts_col := 0\<rparr>) ?s"
    using ok by (simp add: paper_at_return panel_ok_def shows_paper_def ts_ok_def)
  ultimately have cr: "panel_ok F (p\<lparr>ts_col := 0\<rparr>) ?s" using ok same_frame_fields [OF frame] by (simp add: panel_ok_def)
  consider "c = NL" | "c \<noteq> NL" "c = CR" | "c = CHR 0x09" | "c \<noteq> NL" "c \<noteq> CR" "c \<noteq> CHR 0x09" by blast
  then show ?thesis
  proof cases
    case 1
    then show ?thesis using newline_ok [OF ok] by (auto simp: put_def ts_put_def)
  next
    case 2
    then show ?thesis using cr frame by (simp add: put_def ts_put_def)
  next
    case 3
    then show ?thesis using tab [of 4] by (simp add: put_def ts_put_def eval_nat_numeral)
  next
    case 4
    then show ?thesis using put_printable_ok [OF ok, of c] ok by (simp add: put_def ts_put_def)
  qed
qed

end
