(* ===== verification/Fbcon_Panel.thy ===== *)
theory Fbcon_Panel
  imports Fbcon_Text
begin

text \<open>
  \<^verbatim>\<open>fbcon/fbcon.c\<close> as a whole: draining the ring while the tracer keeps mirroring, start-up, and the states the domain can reach.
  The properties: what the panel shows, that no access leaves its memory and every entry point returns, what happens with a
  geometry the code refuses, and the one geometry it accepts and cannot handle.
\<close>

section \<open>Draining\<close>

lemma mirror_char_ring:
  assumes "console_ok (fb_ring s)"
  shows "\<exists>r new. mirror_char c s = s\<lparr>fb_ring := r, fb_mirrored := fb_mirrored s @ new\<rparr> \<and> console_ok r
    \<and> cr_tail r = cr_tail (fb_ring s) \<and> console_live r = console_live (fb_ring s) @ new"
proof (cases "0 < console_room (fb_ring s)")
  case True
  have "mirror_char c s = s\<lparr>fb_ring := console_push c (fb_ring s), fb_mirrored := fb_mirrored s @ [c]\<rparr>"
    using True by (simp add: mirror_char_def)
  moreover have "cr_tail (console_push c (fb_ring s)) = cr_tail (fb_ring s)" by (simp add: console_push_def)
  ultimately show ?thesis using console.push_law [OF assms True, of c]
    by (intro exI [of _ "console_push c (fb_ring s)"] exI [of _ "[c]"]) simp
next
  case False
  then show ?thesis using assms by (intro exI [of _ "fb_ring s"] exI [of _ "[]"]) (simp add: mirror_char_def)
qed

lemma mirror_ring:
  assumes "console_ok (fb_ring s)"
  shows "\<exists>r new. fold mirror_char cs s = s\<lparr>fb_ring := r, fb_mirrored := fb_mirrored s @ new\<rparr> \<and> console_ok r
    \<and> cr_tail r = cr_tail (fb_ring s) \<and> console_live r = console_live (fb_ring s) @ new"
  using assms
proof (induction cs arbitrary: s)
  case Nil
  then show ?case by (intro exI [of _ "fb_ring s"] exI [of _ "[]"]) simp
next
  case (Cons c cs)
  obtain r new where r: "mirror_char c s = s\<lparr>fb_ring := r, fb_mirrored := fb_mirrored s @ new\<rparr>" "console_ok r"
      "cr_tail r = cr_tail (fb_ring s)" "console_live r = console_live (fb_ring s) @ new"
    using mirror_char_ring [OF Cons.prems] by blast
  obtain q more where q: "fold mirror_char cs (mirror_char c s) = (mirror_char c s)\<lparr>fb_ring := q, fb_mirrored := fb_mirrored (mirror_char c s) @ more\<rparr>"
      "console_ok q" "cr_tail q = cr_tail r" "console_live q = console_live r @ more"
    using Cons.IH [of "mirror_char c s"] r(1,2) by auto
  have "fold mirror_char (c # cs) s = s\<lparr>fb_ring := q, fb_mirrored := fb_mirrored s @ (new @ more)\<rparr>" using q(1) r(1) by simp
  then show ?case using q r by (intro exI [of _ q] exI [of _ "new @ more"]) simp
qed

lemma console_live_cap: "console_ok r \<Longrightarrow> length (console_live r) \<le> CONSOLE_RING_CAPACITY"
  by (simp add: console_ok_def counters_ok_def console_live_def ring_contents_length)

lemma console_live_at:
  "i < length (console_live r) \<Longrightarrow> cr_buf r (console_slot (cr_tail r + of_nat i)) = console_live r ! i"
  by (simp add: console_live_def console_slot_def ring_contents_nth ring_contents_length)

lemma console_at_end:
  assumes "console_ok r" and "i \<le> length (console_live r)"
  shows "cr_tail r + of_nat i = cr_head r \<longleftrightarrow> i = length (console_live r)"
proof
  assume "cr_tail r + of_nat i = cr_head r"
  then have "cr_head r - cr_tail r = of_nat i" by (simp add: algebra_simps)
  moreover have "i < 2 ^ 64" using assms console_live_cap [OF assms(1)] by (simp add: console_capacity_value)
  ultimately show "i = length (console_live r)"
    by (simp add: console_live_def ring_contents_length unat_of_nat)
next
  assume "i = length (console_live r)"
  then show "cr_tail r + of_nat i = cr_head r" by (simp add: console_live_def ring_contents_length)
qed

lemma console_emptied: "console_ok r \<Longrightarrow> console_ok (r\<lparr>cr_tail := cr_head r\<rparr>) \<and> console_live (r\<lparr>cr_tail := cr_head r\<rparr>) = []"
  by (simp add: console_ok_def counters_ok_def console_live_def ring_contents_empty)

text \<open>
  A drain ends whatever the tracer mirrors meanwhile, because it publishes \<open>tail\<close> only at the end: at most a ring's capacity can
  arrive.  It has then processed everything that was mirrored.  \<open>I txt s\<close> says that \<open>s\<close> has processed \<open>txt\<close>.
\<close>

definition process_char :: "char \<Rightarrow> 'd fbcon \<Rightarrow> 'd fbcon option" where
  "process_char c s = (if fb_ready s then put c s else Some s)"

text \<open>Without arrivals the ring holds what it held.\<close>

definition nothing_new :: "'d fbcon \<Rightarrow> 'd fbcon \<Rightarrow> bool" where
  "nothing_new s t \<longleftrightarrow> fb_mirrored t = fb_mirrored s \<and> cr_head (fb_ring t) = cr_head (fb_ring s)"

lemma drain_loop_processes:
  assumes step: "\<And>c txt s. I txt s \<Longrightarrow> \<exists>t. process_char c s = Some t \<and> I (txt @ [c]) t \<and> same_frame s t"
    and ring: "\<And>txt s r m. I txt s \<Longrightarrow> I txt (s\<lparr>fb_ring := r, fb_mirrored := m\<rparr>)"
    and "console_ok (fb_ring s)" and "fb_mirrored s = txt @ console_live (fb_ring s)"
    and "i \<le> length (console_live (fb_ring s))" and "I (txt @ take i (console_live (fb_ring s))) s"
  shows "\<exists>b t. drain_loop arrive k (cr_tail (fb_ring s) + of_nat i) any s = Some (b, t) \<and> I (fb_mirrored t) t
    \<and> console_ok (fb_ring t) \<and> console_live (fb_ring t) = []
    \<and> (b \<or> \<not> any \<and> (\<exists>r m. t = s\<lparr>fb_ring := r, fb_mirrored := m\<rparr>))
    \<and> ((\<forall>k. arrive k = []) \<longrightarrow> nothing_new s t)"
  using assms(3-)
proof (induction "CONSOLE_RING_CAPACITY - i" arbitrary: i k s any rule: less_induct)
  case less
  obtain r new where r: "fold mirror_char (arrive k) s = s\<lparr>fb_ring := r, fb_mirrored := fb_mirrored s @ new\<rparr>" "console_ok r"
      "cr_tail r = cr_tail (fb_ring s)" "console_live r = console_live (fb_ring s) @ new"
    using mirror_ring [OF less.prems(1)] by blast
  have new: "new = [] \<and> cr_head r = cr_head (fb_ring s)" if "arrive k = []"
    using arg_cong [OF r(1), of fb_mirrored] arg_cong [OF r(1), of fb_ring] that by simp
  define u where "u = s\<lparr>fb_ring := r, fb_mirrored := fb_mirrored s @ new\<rparr>"
  have u: "I (txt @ take i (console_live r)) u" "fb_ring u = r" "fb_mirrored u = txt @ console_live r"
    using ring [OF less.prems(4)] less.prems(2,3) r(4) by (simp_all add: u_def)
  have i: "i \<le> length (console_live r)" using less.prems(3) r(4) by simp
  note unfold = drain_loop.simps [of arrive k "cr_tail (fb_ring s) + of_nat i" any s, unfolded r(1), folded u_def]
  show ?case
  proof (cases "i = length (console_live r)")
    case True
    then have tail: "cr_tail (fb_ring s) + of_nat i = cr_head r" using console_at_end [OF r(2) i] r(3) by simp
    define t where "t = u\<lparr>fb_ring := r\<lparr>cr_tail := cr_head r\<rparr>, fb_mirrored := fb_mirrored u\<rparr>"
    have "drain_loop arrive k (cr_tail (fb_ring s) + of_nat i) any s = Some (any, t)"
      unfolding unfold unfolding tail using u(2) by (simp add: t_def Let_def)
    moreover have "I (fb_mirrored t) t" using ring [OF u(1)] True u(3) unfolding t_def by simp
    moreover have "console_ok (fb_ring t) \<and> console_live (fb_ring t) = []" using console_emptied [OF r(2)] by (simp add: t_def)
    moreover have "\<exists>r m. t = s\<lparr>fb_ring := r, fb_mirrored := m\<rparr>" by (auto simp: t_def u_def)
    moreover have "nothing_new s t" if "\<forall>k. arrive k = []" using new that by (simp add: t_def u_def nothing_new_def)
    ultimately show ?thesis by blast
  next
    case False
    then have lt: "i < length (console_live r)" using i by simp
    have tail: "cr_tail (fb_ring s) + of_nat i \<noteq> cr_head r" using console_at_end [OF r(2) i] r(3) False by simp
    have char: "cr_buf r (console_slot (cr_tail (fb_ring s) + of_nat i)) = console_live r ! i"
      using console_live_at [OF lt] r(3) by simp
    obtain v where v: "process_char (console_live r ! i) u = Some v" "I ((txt @ take i (console_live r)) @ [console_live r ! i]) v"
        "same_frame u v" using step [OF u(1)] by blast
    have fv: "fb_ring v = r" "fb_mirrored v = txt @ console_live r" using same_frame_fields [OF v(3)] u by simp_all
    have "drain_loop arrive k (cr_tail (fb_ring s) + of_nat i) any s
        = drain_loop arrive (Suc k) (cr_tail (fb_ring v) + of_nat (Suc i)) True v"
      unfolding unfold using tail char v(1) u(2) fv(1) r(3)
      by (cases "fb_ready u") (simp_all add: process_char_def Let_def ac_simps)
    moreover have "CONSOLE_RING_CAPACITY - Suc i < CONSOLE_RING_CAPACITY - i" using lt console_live_cap [OF r(2)] by simp
    moreover have "I (txt @ take (Suc i) (console_live (fb_ring v))) v" using v(2) lt fv by (simp add: take_Suc_conv_app_nth)
    moreover have "nothing_new v t \<longrightarrow> nothing_new s t" if "\<forall>k. arrive k = []" for t
      using new that same_frame_fields [OF v(3)] by (simp add: u_def nothing_new_def)
    ultimately show ?thesis using less.hyps [of "Suc i" v "Suc k" True] r(2) fv(1) fv(2) [folded u(3)] lt u(3) by simp blast
  qed
qed

lemma drain_ring_processes:
  assumes step: "\<And>c txt s. I txt s \<Longrightarrow> \<exists>t. process_char c s = Some t \<and> I (txt @ [c]) t \<and> same_frame s t"
    and ring: "\<And>txt s r m. I txt s \<Longrightarrow> I txt (s\<lparr>fb_ring := r, fb_mirrored := m\<rparr>)"
    and "console_ok (fb_ring s)" and "fb_mirrored s = txt @ console_live (fb_ring s)" and "I txt s"
  shows "\<exists>b t. drain_ring arrive s = Some (b, t) \<and> I (fb_mirrored t) t \<and> console_ok (fb_ring t) \<and> console_live (fb_ring t) = []
    \<and> (b \<or> (\<exists>r m. t = s\<lparr>fb_ring := r, fb_mirrored := m\<rparr>)) \<and> ((\<forall>k. arrive k = []) \<longrightarrow> nothing_new s t)"
  using drain_loop_processes [of I s "txt" 0 arrive 0 False, OF step ring] assms(3-) by (simp add: drain_ring_def)

section \<open>What the panel shows\<close>

text \<open>A frame buffer pixel, and its colour when the panel shows a paper: text inside the margins, background around it.\<close>

definition pixel :: "'d fbcon \<Rightarrow> nat \<Rightarrow> nat \<Rightarrow> u32" where
  "pixel s x y = fb_mem s (y * line_words s + x)"

definition in_text :: "fb_config \<Rightarrow> 'd fbcon \<Rightarrow> nat \<Rightarrow> nat \<Rightarrow> bool" where
  "in_text F s x y \<longleftrightarrow> MARGIN_SIDE F \<le> x \<and> x < MARGIN_SIDE F + fb_cols s * CELL_W F
     \<and> MARGIN_TOP F \<le> y \<and> y < MARGIN_TOP F + fb_rows s * CELL_H F"

definition window_char :: "typescript \<Rightarrow> nat \<Rightarrow> nat \<Rightarrow> nat \<Rightarrow> char" where
  "window_char p rows r c = paper_at p (length (ts_lines p) - rows + r) c"

definition screen_color :: "fb_config \<Rightarrow> 'd fbcon \<Rightarrow> typescript \<Rightarrow> nat \<Rightarrow> nat \<Rightarrow> u32" where
  "screen_color F s p x y =
     (if in_text F s x y then text_color F (window_char p (fb_rows s)) (x - MARGIN_SIDE F) (y - MARGIN_TOP F) else BG)"

text \<open>The generated font leaves the cell of a space empty: \<open>clear_screen\<close> relies on it.\<close>

definition space_blank :: "fb_config \<Rightarrow> bool" where
  "space_blank F \<longleftrightarrow> (\<forall>gy<FONT_H F. \<forall>gx<FONT_W F. glyph_color F (glyph_of F (CHR '' '') gy) gx = BG)"

definition backdrop :: "fb_config \<Rightarrow> 'd fbcon \<Rightarrow> bool" where
  "backdrop F s \<longleftrightarrow> (\<forall>x<fb_width s. \<forall>y<fb_height s. \<not> in_text F s x y \<longrightarrow> pixel s x y = BG)"

definition settled :: "'d fbcon \<Rightarrow> bool" where
  "settled s \<longleftrightarrow> \<not> fb_scrolled s \<and> (\<forall>r<fb_rows s. \<not> fb_dirty s r)"

text \<open>The states between two entry points, of a panel with room for a line: what was mirrored is what was typed, plus what the ring holds.\<close>

definition showing :: "fb_config \<Rightarrow> string \<Rightarrow> 'd fbcon \<Rightarrow> bool" where
  "showing F txt s \<longleftrightarrow> panel_ok F (typed (fb_cols s) txt) s \<and> backdrop F s \<and> fb_ready s"

lemma text_area_rows:
  assumes rows: "\<And>r. r < n \<Longrightarrow> row_shown F s r" and y: "y < n * CELL_H F" and x: "x < fb_cols s * CELL_W F"
  shows "fb_mem s ((MARGIN_TOP F + y) * line_words s + (MARGIN_SIDE F + x)) = text_color F (fb_grid s) x y"
proof -
  have pos: "0 < CELL_H F" using y by (cases "CELL_H F") simp_all
  then have "y div CELL_H F < n" and "y mod CELL_H F < CELL_H F" using y by (simp_all add: less_mult_imp_div_less)
  then show ?thesis
    using rows [of "y div CELL_H F"] x by (auto simp: row_shown_def add.assoc simp del: mod_less_divisor) (metis div_mult_mod_eq)
qed

lemma text_color_window:
  assumes grid: "\<And>r c. r < rows \<Longrightarrow> c < cols \<Longrightarrow> g r c = h r c" and "x < cols * CELL_W F" and "y < rows * CELL_H F"
  shows "text_color F g x y = text_color F h x y"
  using assms by (simp add: text_color_def less_mult_imp_div_less)

lemma settled_screen:
  assumes sh: "showing F txt s" and settled: "settled s" and x: "x < fb_width s" and y: "y < fb_height s"
  shows "pixel s x y = screen_color F s (typed (fb_cols s) txt) x y"
proof (cases "in_text F s x y")
  case True
  let ?p = "typed (fb_cols s) txt" and ?x = "x - MARGIN_SIDE F" and ?y = "y - MARGIN_TOP F"
  have paper: "shows_paper ?p s" and fr: "fresh F s" using sh by (simp_all add: showing_def panel_ok_def)
  have xy: "?x < fb_cols s * CELL_W F" "?y < fb_rows s * CELL_H F" "MARGIN_SIDE F + ?x = x" "MARGIN_TOP F + ?y = y"
    using True by (auto simp: in_text_def)
  have "pixel s x y = text_color F (fb_grid s) ?x ?y"
    using text_area_rows [of "fb_rows s" F s ?y ?x] fr settled xy by (simp add: fresh_def settled_def pixel_def)
  also have "\<dots> = text_color F (window_char ?p (fb_rows s)) ?x ?y"
    using paper xy by (intro text_color_window [of "fb_rows s" "fb_cols s"]) (simp_all add: shows_paper_def window_char_def)
  finally show ?thesis using True by (simp add: screen_color_def)
next
  case False
  then show ?thesis using sh x y by (simp add: showing_def backdrop_def screen_color_def)
qed

section \<open>Rendering and notifications\<close>

lemma same_panel_showing: "same_panel s t \<Longrightarrow> showing F txt t \<longleftrightarrow> showing F txt s"
  by (auto simp: same_panel_def showing_def panel_ok_def geometry_def shows_paper_def fresh_def row_shown_def line_words_def
      backdrop_def in_text_def pixel_def)

lemma showing_ring: "showing F txt (s\<lparr>fb_ring := r, fb_mirrored := m\<rparr>) \<longleftrightarrow> showing F txt s"
  by (simp add: showing_def panel_ok_def geometry_def shows_paper_def fresh_def row_shown_def line_words_def
      backdrop_def in_text_def pixel_def)

definition same_dims :: "'d fbcon \<Rightarrow> 'd fbcon \<Rightarrow> bool" where
  "same_dims s t \<longleftrightarrow> fb_width t = fb_width s \<and> fb_height t = fb_height s \<and> fb_cols t = fb_cols s \<and> fb_rows t = fb_rows s"

lemma render_showing:
  assumes sh: "showing F txt s"
  shows "\<exists>t. render M F s = Some t \<and> showing F txt t \<and> settled t \<and> fb_ring t = fb_ring s \<and> fb_mirrored t = fb_mirrored s
    \<and> same_dims s t"
proof -
  have geo: "geometry F s" and fr: "fresh F s" and paper: "shows_paper (typed (fb_cols s) txt) s" and rows: "0 < fb_rows s"
    and bg: "backdrop F s" and ready: "fb_ready s" using sh by (simp_all add: showing_def panel_ok_def)
  define u where "u = s\<lparr>fb_mem := paint (line_words s) (MARGIN_SIDE F) (MARGIN_TOP F) (fb_cols s * CELL_W F)
      (fb_rows s * CELL_H F) (text_color F (fb_grid s)) (fb_mem s), fb_out := fb_out s @ rows_cleaned F s (fb_rows s),
      fb_dirty := (\<lambda>r. fb_rows s \<le> r \<and> fb_dirty s r), fb_scrolled := False\<rparr>"
  have render: "render M F s = Some (present M u)"
    unfolding u_def using geo fr by (intro render_repaints) (simp_all add: fresh_def)
  have W: "fb_width s \<le> line_words s" using geo by (rule width_words)
  have u: "line_words u = line_words s" "fb_cols u = fb_cols s" "fb_rows u = fb_rows s" "fb_grid u = fb_grid s"
    "fb_width u = fb_width s" "fb_height u = fb_height s" "in_text F u = in_text F s"
    "fb_ring u = fb_ring s" "fb_mirrored u = fb_mirrored s"
    by (simp_all add: u_def line_words_def in_text_def fun_eq_iff)
  have "row_shown F u r" if r: "r < fb_rows s" for r
    unfolding row_shown_def u
  proof (intro allI impI)
    fix x y assume x: "x < fb_cols s * CELL_W F" and y: "y < CELL_H F"
    have "r * CELL_H F + y < fb_rows s * CELL_H F" using r y by (rule scaled_sum)
    moreover have "MARGIN_SIDE F + x < line_words s" using x geo W by (simp add: geometry_def)
    ultimately show "fb_mem u ((MARGIN_TOP F + r * CELL_H F + y) * line_words s + (MARGIN_SIDE F + x))
        = text_color F (fb_grid s) x (r * CELL_H F + y)" using x by (simp add: u_def paint_at)
  qed
  then have "fresh F u" by (simp add: fresh_def u(3))
  moreover have "backdrop F u"
    using bg W unfolding backdrop_def u by (auto simp: pixel_def u(1) in_text_def) (auto simp: u_def paint_at)
  moreover have "geometry F u" "shows_paper (typed (fb_cols u) txt) u" "fb_ready u" "0 < fb_rows u"
    using geo paper ready rows by (simp_all add: u_def geometry_def shows_paper_def)
  ultimately have "showing F txt u" by (simp add: showing_def panel_ok_def)
  moreover have "settled u" by (simp add: settled_def u_def)
  ultimately have "showing F txt (present M u) \<and> settled (present M u) \<and> fb_ring (present M u) = fb_ring s \<and> fb_mirrored (present M u) = fb_mirrored s
      \<and> same_dims s (present M u)"
    using same_panel_showing [OF same_panel_present [of u M]] same_panel_fields [OF same_panel_present [of u M]] u
    by (simp add: settled_def same_dims_def)
  then show ?thesis using render by blast
qed

lemma process_showing:
  assumes sh: "showing F txt s"
  shows "\<exists>t. process_char c s = Some t \<and> showing F (txt @ [c]) t \<and> same_frame s t"
proof -
  have ok: "panel_ok F (typed (fb_cols s) txt) s" and bg: "backdrop F s" and ready: "fb_ready s" using sh by (simp_all add: showing_def)
  obtain t where t: "put c s = Some t" "panel_ok F (ts_put (fb_cols s) c (typed (fb_cols s) txt)) t" "same_frame s t"
    using put_ok [OF ok] by blast
  note same = same_frame_fields [OF t(3)]
  have "backdrop F t" using bg same by (simp add: backdrop_def in_text_def pixel_def)
  then show ?thesis using t ready same by (simp add: process_char_def showing_def typed_def)
qed

definition running :: "fb_config \<Rightarrow> 'd fbcon \<Rightarrow> bool" where
  "running F s \<longleftrightarrow> console_ok (fb_ring s) \<and> settled s \<and> (\<exists>txt. fb_mirrored s = txt @ console_live (fb_ring s) \<and> showing F txt s)"

lemma mirror_running: "running F s \<Longrightarrow> running F (mirror_char c s)"
proof -
  assume s: "running F s"
  then obtain "txt" where tx: "fb_mirrored s = txt @ console_live (fb_ring s)" "showing F txt s" by (auto simp: running_def)
  obtain r new where r: "mirror_char c s = s\<lparr>fb_ring := r, fb_mirrored := fb_mirrored s @ new\<rparr>" "console_ok r"
      "console_live r = console_live (fb_ring s) @ new"
    using mirror_char_ring [of s c] s unfolding running_def by blast
  have "showing F txt (mirror_char c s)" using tx(2) unfolding r(1) showing_ring .
  then show ?thesis using r tx s by (auto simp: running_def settled_def)
qed

lemma notified_running:
  assumes s: "running F s"
  shows "\<exists>t. fbcon_notified M F arrive ch s = Some t \<and> running F t \<and> (ch = FBCON_TRACER_CH \<longrightarrow> console_live (fb_ring t) = [])
    \<and> ((\<forall>k. arrive k = []) \<longrightarrow> nothing_new s t) \<and> same_dims s t"
proof (cases "ch = FBCON_TRACER_CH")
  case False
  let ?t = "dbg_puts (''FBCON|ERROR: notification on unexpected channel'' @ [NL]) s"
  have "same_panel s ?t" by (rule same_panelI) (simp add: dbg_puts_def)
  then have "running F ?t" using s same_panel_showing [of s ?t] same_panel_fields [of s ?t] by (simp add: running_def settled_def)
  then show ?thesis using False by (simp add: fbcon_notified_def) (simp add: dbg_puts_def same_dims_def nothing_new_def)
next
  case True
  obtain "txt" where tx: "fb_mirrored s = txt @ console_live (fb_ring s)" "showing F txt s" using s by (auto simp: running_def)
  have ok: "console_ok (fb_ring s)" using s by (simp add: running_def)
  let ?I = "\<lambda>txt t. showing F txt t \<and> same_dims s t"
  have step: "\<exists>v. process_char c u = Some v \<and> ?I (txt @ [c]) v \<and> same_frame u v" if I: "?I txt u" for c "txt" and u :: "'a fbcon"
  proof -
    obtain v where v: "process_char c u = Some v" "showing F (txt @ [c]) v" "same_frame u v" using process_showing [of F "txt" u c] I by blast
    have "same_dims s v" using I same_frame_fields [OF v(3)] by (simp add: same_dims_def)
    then show ?thesis using v by blast
  qed
  have ring: "?I txt (u\<lparr>fb_ring := r, fb_mirrored := m\<rparr>)" if "?I txt u" for "txt" and u :: "'a fbcon" and r m
    using that by (simp add: showing_ring same_dims_def)
  have start: "?I txt s" using tx(2) by (simp add: same_dims_def)
  from drain_ring_processes [of ?I s "txt" arrive, OF step ring ok tx(1) start]
  obtain b u where u: "drain_ring arrive s = Some (b, u)" "showing F (fb_mirrored u) u" "console_ok (fb_ring u)" "console_live (fb_ring u) = []"
      "b \<or> (\<exists>r m. u = s\<lparr>fb_ring := r, fb_mirrored := m\<rparr>)" "(\<forall>k. arrive k = []) \<longrightarrow> nothing_new s u"
      "same_dims s u" by blast
  have ready: "fb_ready u" using u(2) by (simp add: showing_def)
  show ?thesis
  proof (cases b)
    case b: True
    obtain t where "render M F u = Some t" "showing F (fb_mirrored u) t" "settled t" "fb_ring t = fb_ring u" "fb_mirrored t = fb_mirrored u" "same_dims u t"
      using render_showing [OF u(2)] by blast
    then show ?thesis using u True b ready by (auto simp: fbcon_notified_def running_def same_dims_def nothing_new_def)
  next
    case False
    then have "settled u" using u(5) s by (auto simp: settled_def running_def)
    then show ?thesis using u True False by (auto simp: fbcon_notified_def running_def)
  qed
qed

section \<open>Start-up\<close>

lemma fbcon_init_unfold:
  assumes "read_geometry M F s = (True, t)"
  shows "\<exists>u. fbcon_init M F s = Some u \<and> same_panel (t\<lparr>fb_mem := paint (line_words t) 0 0 (fb_width t) (fb_height t) (\<lambda>_ _. BG) (fb_mem t),
    fb_grid := blank_grid (fb_rows t) (fb_cols t) (fb_grid t), fb_ready := True\<rparr>) u"
proof -
  let ?c = "t\<lparr>fb_mem := paint (line_words t) 0 0 (fb_width t) (fb_height t) (\<lambda>_ _. BG) (fb_mem t),
    fb_out := fb_out t @ [CacheClean 0 (fb_height t * fb_stride t)], fb_grid := blank_grid (fb_rows t) (fb_cols t) (fb_grid t)\<rparr>"
  let ?p = "present M (start_decon M (retarget_scanout M ?c))"
  let ?u = "dbg_puts (''FBCON|INFO: mirroring the console to the panel'' @ [NL]) (?p\<lparr>fb_ready := True\<rparr>)"
  have "same_panel ?c ?p"
    by (rule same_panel_trans [OF same_panel_trans [OF same_panel_retarget same_panel_start_decon] same_panel_present])
  then obtain d l q where p: "?p = ?c\<lparr>io_dev := d, io_log := l, fb_out := q\<rparr>" unfolding same_panel_def by blast
  have "fbcon_init M F s = Some ?u"
    using assms clear_screen_eq [OF read_geometry_ok(1) [OF assms]] by (simp add: fbcon_init_def Let_def)
  moreover have "same_panel (t\<lparr>fb_mem := paint (line_words t) 0 0 (fb_width t) (fb_height t) (\<lambda>_ _. BG) (fb_mem t),
    fb_grid := blank_grid (fb_rows t) (fb_cols t) (fb_grid t), fb_ready := True\<rparr>) ?u"
    unfolding p by (rule same_panelI) (simp add: dbg_puts_def)
  ultimately show ?thesis by blast
qed

lemma text_color_blank:
  assumes "space_blank F" and "x < cols * CELL_W F" and "y < rows * CELL_H F"
  shows "text_color F (blank_grid rows cols g) x y = BG"
proof -
  have pos: "0 < CELL_W F" "0 < CELL_H F" using assms by (auto intro!: gr0I)
  then have "x mod CELL_W F div SCALE F < FONT_W F" "y mod CELL_H F div SCALE F < FONT_H F"
    using mod_less_divisor [of "CELL_W F" x] mod_less_divisor [of "CELL_H F" y]
    by (simp_all add: CELL_W_def CELL_H_def less_mult_imp_div_less)
  then show ?thesis using assms pos
    by (simp add: text_color_def cell_color_def space_blank_def blank_grid_def less_mult_imp_div_less)
qed

lemma init_running:
  assumes blank: "space_blank F" and ok: "console_ok q" and geo: "read_geometry M F (fbcon_boot d m q) = (True, t)" and rows: "0 < fb_rows t"
    and init: "fbcon_init M F (fbcon_boot d m q) = Some u"
  shows "running F u"
proof -
  define v where "v = t\<lparr>fb_mem := paint (line_words t) 0 0 (fb_width t) (fb_height t) (\<lambda>_ _. BG) (fb_mem t),
    fb_grid := blank_grid (fb_rows t) (fb_cols t) (fb_grid t), fb_ready := True\<rparr>"
  have same: "same_panel v u" using fbcon_init_unfold [OF geo] init by (simp add: v_def)
  have frame: "same_text (fbcon_boot d m q) t" using geo by (rule read_geometry_frame)
  have g: "geometry F t" using geo by (rule read_geometry_ok)
  have W: "fb_width t \<le> line_words t" using g by (rule width_words)
  have v: "line_words v = line_words t" "fb_cols v = fb_cols t" "fb_rows v = fb_rows t" "fb_width v = fb_width t" "fb_height v = fb_height t"
    by (simp_all add: v_def line_words_def)
  have "fb_grid v r c = paper_at (typed (fb_cols v) []) (1 - fb_rows v + r) c" if "r < fb_rows v" "c < fb_cols v" for r c
    using that by (auto simp: v_def typed_def ts_start_def paper_at_def blank_grid_def)
  then have paper: "shows_paper (typed (fb_cols v) []) v"
    using frame rows by (auto simp: shows_paper_def typed_def v_def same_text_def fbcon_boot_def) (auto simp: ts_start_def)
  have "row_shown F v r" if r: "r < fb_rows v" for r
    unfolding row_shown_def
  proof (intro allI impI)
    fix x y assume x: "x < fb_cols v * CELL_W F" and y: "y < CELL_H F"
    have y': "r * CELL_H F + y < fb_rows v * CELL_H F" using r y by (rule scaled_sum)
    then have "MARGIN_SIDE F + x < fb_width t" "MARGIN_TOP F + r * CELL_H F + y < fb_height t"
      using x g v by (simp_all add: geometry_def)
    then have "fb_mem v ((MARGIN_TOP F + r * CELL_H F + y) * line_words v + (MARGIN_SIDE F + x)) = BG"
      using W by (simp add: v(1) paint_at) (simp add: v_def paint_at)
    also have "\<dots> = text_color F (fb_grid v) x (r * CELL_H F + y)"
      using text_color_blank [OF blank, of x "fb_cols v" "r * CELL_H F + y" "fb_rows v"] x y' by (simp add: v_def)
    finally show "fb_mem v ((MARGIN_TOP F + r * CELL_H F + y) * line_words v + (MARGIN_SIDE F + x))
        = text_color F (fb_grid v) x (r * CELL_H F + y)" .
  qed
  then have "fresh F v" by (simp add: fresh_def)
  moreover have "backdrop F v"
    using W unfolding backdrop_def v pixel_def by (auto simp: v_def paint_at)
  moreover have "geometry F v" "0 < fb_rows v" "fb_ready v" using g rows by (simp_all add: v_def geometry_def)
  ultimately have "showing F [] v" using paper by (simp add: showing_def panel_ok_def)
  then have "showing F [] u" using same_panel_showing [OF same] by simp
  moreover have "settled u" using same_panel_fields [OF same] frame by (simp add: settled_def v_def same_text_def fbcon_boot_def)
  moreover have "fb_ring u = q" "fb_mirrored u = console_live q"
    using same_panel_fields [OF same] frame by (simp_all add: v_def same_text_def fbcon_boot_def)
  ultimately show ?thesis using ok by (auto simp: running_def)
qed

text \<open>A panel whose geometry was refused: nothing is written, to the frame buffer or to a register.\<close>

definition is_read :: "access \<Rightarrow> bool" where
  "is_read a = (case a of Write32 _ _ \<Rightarrow> False | _ \<Rightarrow> True)"

definition dark :: "(nat \<Rightarrow> u32) \<Rightarrow> 'd fbcon \<Rightarrow> bool" where
  "dark m s \<longleftrightarrow> \<not> fb_ready s \<and> fb_mem s = m \<and> list_all is_read (io_log s)"

lemma dark_frame: "same_panel s t \<Longrightarrow> dark m s \<Longrightarrow> list_all is_read (io_log t) \<Longrightarrow> dark m t"
  by (auto simp: dark_def same_panel_def)

lemma read_geometry_log:
  assumes "read_geometry M F s = (b, t)"
  shows "\<exists>v w. io_log t = io_log s @ [Read32 (rdma_vaddr + RDMA_IMG_SIZE) v, Read32 (rdma_vaddr + RDMA_SRC_STRIDE_0) w]"
proof -
  define u where "u = read_stride M (read_size M s)"
  have "\<exists>v. io_log (read_size M s) = io_log s @ [Read32 (rdma_vaddr + RDMA_IMG_SIZE) v]" for s
    by (auto simp: read_size_def fb_register_defs Let_def split_beta)
  moreover have "\<exists>v. io_log (read_stride M s) = io_log s @ [Read32 (rdma_vaddr + RDMA_SRC_STRIDE_0) v]" for s
    by (auto simp: read_stride_def fb_register_defs Let_def split_beta)
  ultimately obtain v w where "io_log u = (io_log s @ [Read32 (rdma_vaddr + RDMA_IMG_SIZE) v]) @ [Read32 (rdma_vaddr + RDMA_SRC_STRIDE_0) w]"
    unfolding u_def by metis
  moreover have "io_log t = io_log u"
    using assms unfolding read_geometry_def u_def [symmetric] by (auto simp: log_hex_def dbg_puts_def Let_def split: if_splits)
  ultimately show ?thesis by simp
qed

lemma init_dark:
  assumes geo: "read_geometry M F (fbcon_boot d m q) = (False, t)" and init: "fbcon_init M F (fbcon_boot d m q) = Some u"
  shows "dark m u \<and> fb_ring u = q \<and> fb_mirrored u = console_live q"
  using read_geometry_frame [OF geo] read_geometry_log [OF geo] init geo
  by (auto simp: fbcon_init_def dbg_puts_def same_text_def fbcon_boot_def dark_def is_read_def)

definition refused :: "(nat \<Rightarrow> u32) \<Rightarrow> 'd fbcon \<Rightarrow> bool" where
  "refused m s \<longleftrightarrow> dark m s \<and> console_ok (fb_ring s) \<and> (\<exists>txt. fb_mirrored s = txt @ console_live (fb_ring s))"

lemma mirror_refused: "refused m s \<Longrightarrow> refused m (mirror_char c s)"
  using mirror_char_ring [of s c] by (auto simp: refused_def dark_def)

lemma notified_refused:
  assumes s: "refused m s"
  shows "\<exists>t. fbcon_notified M F arrive ch s = Some t \<and> refused m t \<and> (ch = FBCON_TRACER_CH \<longrightarrow> console_live (fb_ring t) = [])
    \<and> ((\<forall>k. arrive k = []) \<longrightarrow> nothing_new s t)"
proof (cases "ch = FBCON_TRACER_CH")
  case False
  then show ?thesis using s by (auto simp: fbcon_notified_def refused_def dark_def dbg_puts_def nothing_new_def)
next
  case True
  obtain "txt" where tx: "fb_mirrored s = txt @ console_live (fb_ring s)" "dark m s" "console_ok (fb_ring s)" using s by (auto simp: refused_def)
  have "\<exists>t. process_char c u = Some t \<and> dark m t \<and> same_frame u t" if "dark m u" for c and u :: "'a fbcon"
    using that by (auto simp: process_char_def dark_def)
  from drain_ring_processes [of "\<lambda>_. dark m" s "txt" arrive, OF this _ tx(3,1,2)]
  obtain b u where "drain_ring arrive s = Some (b, u)" "dark m u" "console_ok (fb_ring u)" "console_live (fb_ring u) = []"
      "(\<forall>k. arrive k = []) \<longrightarrow> nothing_new s u"
    by (auto simp: dark_def)
  then show ?thesis using True by (auto simp: fbcon_notified_def refused_def dark_def)
qed

text \<open>The products and sums the C code forms in 32 bits, and the row offsets it forms in 64.\<close>

lemma read_size_small: "fb_width (read_size M s) < 2 ^ 16 \<and> fb_height (read_size M s) < 2 ^ 16"
proof -
  have "unat (v AND 0xffff) < 2 ^ 16" for v :: u32
    using word_and_le1 [of v "0xffff"] by (simp add: word_le_nat_alt)
  then show ?thesis
    by (simp add: read_size_def fb_register_defs Let_def split_beta RDMA_IMG_SIZE_W_def RDMA_IMG_SIZE_H_def)
qed

lemma read_stride_small:
  "fb_width s < 2 ^ 16 \<Longrightarrow> fb_stride (read_stride M s) < 2 ^ 24 \<and> fb_width (read_stride M s) = fb_width s \<and> fb_height (read_stride M s) = fb_height s"
proof -
  assume w: "fb_width s < 2 ^ 16"
  have "unat (v AND 0xffffff) < 2 ^ 24" for v :: u32
    using word_and_le1 [of v "0xffffff"] by (simp add: word_le_nat_alt)
  then show ?thesis using w
    by (simp add: read_stride_def fb_register_defs Let_def split_beta RDMA_SRC_STRIDE_MASK_def)
qed

lemma geometry_small:
  assumes "read_geometry M F s = (b, t)"
  shows "4 * fb_width t < 2 ^ 32" and "fb_stride t * fb_height t < 2 ^ 64"
    and "b \<Longrightarrow> r < fb_rows t \<Longrightarrow> n < CELL_H F \<Longrightarrow> MARGIN_TOP F + r * CELL_H F + n < 2 ^ 32"
    and "b \<Longrightarrow> c < fb_cols t \<Longrightarrow> n < CELL_W F \<Longrightarrow> MARGIN_SIDE F + c * CELL_W F + n < 2 ^ 32"
proof -
  define u where "u = read_stride M (read_size M s)"
  have "fb_width u < 2 ^ 16" "fb_height u < 2 ^ 16" "fb_stride u < 2 ^ 24"
    using read_size_small [of M s] read_stride_small [of "read_size M s" M] by (simp_all add: u_def)
  moreover have "fb_width t = fb_width u" "fb_height t = fb_height u" "fb_stride t = fb_stride u"
    using assms unfolding read_geometry_def u_def [symmetric] by (auto simp: log_hex_def dbg_puts_def Let_def split: if_splits)
  ultimately have small: "fb_width t < 2 ^ 16" "fb_height t < 2 ^ 16" "fb_stride t < 2 ^ 24" by simp_all
  then show "4 * fb_width t < 2 ^ 32" by simp
  have "fb_stride t * fb_height t \<le> 2 ^ 24 * 2 ^ 16" using small by (intro mult_mono) simp_all
  then show "fb_stride t * fb_height t < 2 ^ 64" by simp
  show "MARGIN_TOP F + r * CELL_H F + n < 2 ^ 32" if "b" "r < fb_rows t" "n < CELL_H F"
    using scaled_sum [OF that(2,3)] read_geometry_ok(1) [of M F s t] assms that(1) small by (simp add: geometry_def)
  show "MARGIN_SIDE F + c * CELL_W F + n < 2 ^ 32" if "b" "c < fb_cols t" "n < CELL_W F"
    using scaled_sum [OF that(2,3)] read_geometry_ok(1) [of M F s t] assms that(1) small by (simp add: geometry_def)
qed

section \<open>Reachable states\<close>

text \<open>
  The domain starts with a ring the tracer may already have written to, and any frame buffer; then mirroring and notifications
  alternate.  A panel too low for one line of text is left out here: \<open>low_panel_overruns\<close> is about it.
\<close>

inductive panel_run :: "'d machine \<Rightarrow> fb_config \<Rightarrow> (nat \<Rightarrow> u32) \<Rightarrow> 'd fbcon \<Rightarrow> bool" for M F m where
  start: "console_ok q \<Longrightarrow> fbcon_init M F (fbcon_boot d m q) = Some s \<Longrightarrow> fb_ready s \<longrightarrow> 0 < fb_rows s \<Longrightarrow> panel_run M F m s"
| mirror: "panel_run M F m s \<Longrightarrow> panel_run M F m (mirror_char c s)"
| notify: "panel_run M F m s \<Longrightarrow> fbcon_notified M F arrive ch s = Some t \<Longrightarrow> panel_run M F m t"

lemma fbcon_init_total: "\<exists>u. fbcon_init M F s = Some u"
proof (cases "read_geometry M F s")
  case (Pair b t)
  then show ?thesis using fbcon_init_unfold [of M F s t] by (cases b) (auto simp: fbcon_init_def)
qed

lemma panel_run_cases:
  assumes "panel_run M F m s" and blank: "space_blank F"
  shows "running F s \<or> refused m s"
  using assms(1)
proof induction
  case (start q d s)
  obtain b t where geo: "read_geometry M F (fbcon_boot d m q) = (b, t)" by fastforce
  show ?case
  proof (cases b)
    case True
    then have "fb_ready s" "fb_rows s = fb_rows t"
      using fbcon_init_unfold [of M F "fbcon_boot d m q" t] geo start same_panel_fields by fastforce+
    then have "0 < fb_rows t" using start by simp
    then show ?thesis using init_running [OF blank start(1) _ _ start(2)] geo True by auto
  next
    case False
    then show ?thesis using init_dark [of M F d m q t s] geo start by (auto simp: refused_def)
  qed
next
  case (mirror s c)
  then show ?case using mirror_running mirror_refused by blast
next
  case (notify s arrive ch t)
  then show ?case using notified_running [of F s M arrive ch] notified_refused [of m s M F arrive ch] by auto
qed

end
