(* ===== verification/Panel_Console.thy ===== *)
theory Panel_Console
  imports Fbcon_Panel
begin

text \<open>
  The properties of the panel console (\<^verbatim>\<open>fbcon/fbcon.c\<close>), over its reachable states, and the small panels that witness them.
\<close>

section \<open>Two small panels\<close>

text \<open>A panel of two by one pixels; a font of one-pixel cells whose space is empty, and one of two-pixel-high cells.\<close>

definition tiny_panel :: "unit machine" where
  "tiny_panel = \<lparr>mc_read32 = (\<lambda>a d. (if a = rdma_vaddr + RDMA_IMG_SIZE then 0x10002 else if a = rdma_vaddr + RDMA_SRC_STRIDE_0 then 8
       else if a = decon_vaddr + DECON_GLOBAL_CON then GLOBAL_CON_RUN_STATUS else 0, d)),
     mc_write32 = (\<lambda>_ _ d. d), mc_read64 = (\<lambda>_ d. (0, d)), mc_cntpct = (\<lambda>d. (0, d)), mc_cntfrq = 1\<rparr>"

definition dot_font :: "nat \<Rightarrow> fb_config" where
  "dot_font h = \<lparr>FONT_W = 1, FONT_H = h, FONT_FIRST = 0x20, FONT_LAST = 0x7E, font_rows = (\<lambda>c _. if c = 0 then 0 else 1), SCALE = 1,
     MARGIN_TOP = 0, MARGIN_BOTTOM = 0, MARGIN_SIDE = 0\<rparr>"

lemma dot_font_blank: "space_blank (dot_font h)"
  by (simp add: space_blank_def dot_font_def glyph_of_def glyph_color_def)

lemma tiny_geometry:
  assumes "0 < h"
  shows "\<exists>t. read_geometry tiny_panel (dot_font h) (fbcon_boot () m q) = (True, t) \<and> fb_width t = 2 \<and> fb_height t = 1 \<and> fb_cols t = 2
    \<and> fb_rows t = 1 div h"
proof -
  have small: "\<not> 360 < Suc 0 div h" using div_le_dividend [of "Suc 0" h] by linarith
  show ?thesis
    using assms
    by (simp add: read_geometry_def read_stride_def read_size_def fb_register_defs Let_def split_beta tiny_panel_def fbcon_boot_def
        dot_font_def RDMA_IMG_SIZE_W_def RDMA_IMG_SIZE_H_def RDMA_SRC_STRIDE_MASK_def rdma_vaddr_def decon_vaddr_def FBCON_FB_SIZE_def
        CELL_W_def CELL_H_def MAX_COLS_def MAX_ROWS_def small)
qed

lemma tiny_start:
  assumes "console_ok q"
  shows "\<exists>s. panel_run tiny_panel (dot_font 1) m s \<and> fb_ready s \<and> fb_ring s = q \<and> fb_cols s = 2 \<and> fb_rows s = 1 \<and> fb_width s = 2
    \<and> fb_height s = 1 \<and> fb_mirrored s = console_live q"
proof -
  obtain t where t: "read_geometry tiny_panel (dot_font 1) (fbcon_boot () m q) = (True, t)"
      "fb_width t = 2" "fb_height t = 1" "fb_cols t = 2" "fb_rows t = 1"
    using tiny_geometry [of 1 m q] by auto
  obtain s where s: "fbcon_init tiny_panel (dot_font 1) (fbcon_boot () m q) = Some s"
    "fb_ready s \<and> fb_ring s = fb_ring t \<and> fb_cols s = 2 \<and> fb_rows s = 1 \<and> fb_width s = 2 \<and> fb_height s = 1 \<and> fb_mirrored s = fb_mirrored t"
    using fbcon_init_unfold [OF t(1)] t(2-) same_panel_fields by fastforce
  moreover have "fb_ring t = q" "fb_mirrored t = console_live q"
    using read_geometry_frame [OF t(1)] by (simp_all add: same_text_def fbcon_boot_def)
  ultimately show ?thesis using panel_run.start [OF assms s(1)] by auto
qed

lemma tiny_shown:
  "\<exists>s. panel_run tiny_panel (dot_font 1) m s \<and> fb_ready s \<and> console_live (fb_ring s) = [] \<and> fb_mirrored s = ''A'' \<and> fb_cols s = 2
     \<and> fb_rows s = 1 \<and> fb_width s = 2 \<and> fb_height s = 1"
proof -
  obtain s where s: "panel_run tiny_panel (dot_font 1) m s" "fb_ready s" "fb_ring s = empty_console" "fb_cols s = 2" "fb_rows s = 1"
      "fb_width s = 2" "fb_height s = 1" "fb_mirrored s = console_live empty_console"
    using tiny_start [OF console_ok_empty] by blast
  have room: "0 < console_room empty_console"
    by (simp add: console_room_def counters_room_def empty_console_def console_capacity_value)
  have live: "console_live empty_console = []" by (simp add: console_live_Nil empty_console_def)
  let ?u = "mirror_char (CHR ''A'') s"
  have u: "panel_run tiny_panel (dot_font 1) m ?u" "fb_ready ?u" "fb_mirrored ?u = ''A''" "same_dims s ?u"
    using panel_run.mirror [OF s(1)] s room live by (simp_all add: mirror_char_def same_dims_def)
  then have "running (dot_font 1) ?u" using panel_run_cases [OF u(1) dot_font_blank] by (auto simp: refused_def dark_def)
  from notified_running [OF this, of tiny_panel "\<lambda>_. []" 1]
  obtain t where t: "fbcon_notified tiny_panel (dot_font 1) (\<lambda>_. []) 1 ?u = Some t" "running (dot_font 1) t" "console_live (fb_ring t) = []"
      "fb_mirrored t = fb_mirrored ?u" "same_dims ?u t" by (auto simp: nothing_new_def)
  have "fb_ready t" using t(2) by (auto simp: running_def showing_def)
  then show ?thesis using panel_run.notify [OF u(1) t(1)] t u s by (auto simp: same_dims_def)
qed

lemma tiny_screen:
  assumes "fb_cols s = 2" and "fb_rows s = 1"
  shows "screen_color (dot_font 1) s (typed 2 ''A'') 0 0 = FG" and "screen_color (dot_font 1) s (typed 2 ''A'') 1 0 = BG"
proof -
  have two: "replicate 2 x = [x, x]" for x :: char by (simp add: numeral_2_eq_2)
  have "typed 2 ''A'' = \<lparr>ts_lines = [[CHR ''A'', CHR '' '']], ts_col = 1\<rparr>"
    by (simp add: typed_def ts_start_def ts_put_def ts_print_def ts_type_def byte_of_def two)
  then show "screen_color (dot_font 1) s (typed 2 ''A'') 0 0 = FG" "screen_color (dot_font 1) s (typed 2 ''A'') 1 0 = BG"
    using assms by (simp_all add: screen_color_def in_text_def dot_font_def CELL_W_def CELL_H_def text_color_def cell_color_def window_char_def
        paper_at_def glyph_of_def glyph_color_def)
qed

section \<open>What the panel shows\<close>

text \<open>
  C33. Whenever the ring is empty, every pixel of the panel is the one of the last lines of the typescript of all the characters the
  tracer has mirrored so far: the text area shows the window of the paper, the margins the background.  This holds after any
  sequence of mirroring and notifications, also when the tracer mirrors while the domain drains.
\<close>

theorem panel_shows_typescript:
  assumes "panel_run M F m s" and "space_blank F" and "fb_ready s" and "console_live (fb_ring s) = []"
    and "x < fb_width s" and "y < fb_height s"
  shows "pixel s x y = screen_color F s (typed (fb_cols s) (fb_mirrored s)) x y"
proof -
  have "running F s" using panel_run_cases [OF assms(1,2)] assms(3) by (auto simp: refused_def dark_def)
  then show ?thesis using settled_screen assms by (auto simp: running_def)
qed

lemma panel_shows_typescript_witness:
  "\<exists>s. panel_run tiny_panel (dot_font 1) (\<lambda>_. 7) s \<and> fb_mirrored s = ''A'' \<and> pixel s 0 0 = FG \<and> pixel s 1 0 = BG"
proof -
  obtain s where s: "panel_run tiny_panel (dot_font 1) (\<lambda>_. 7) s" "fb_ready s" "console_live (fb_ring s) = []" "fb_mirrored s = ''A''"
      "fb_cols s = 2" "fb_rows s = 1" "fb_width s = 2" "fb_height s = 1"
    using tiny_shown by blast
  have "pixel s x 0 = screen_color (dot_font 1) s (typed 2 ''A'') x 0" if "x < 2" for x
    using panel_shows_typescript [OF s(1) dot_font_blank s(2,3), of x 0] that s by simp
  then show ?thesis using s tiny_screen [of s] by auto
qed

text \<open>
  C34. On a panel with room for at least one text row, or one the driver refuses, every entry point returns and stays inside
  its memory: \<open>fbcon_notified\<close> in every state reachable from such a start, whatever the tracer mirrors meanwhile; and
  \<open>fbcon_init\<close> on any panel at all.  A notification of the tracer leaves the ring empty.  (The rule \<open>start\<close> of
  \<open>panel_run\<close> leaves out the panels accepted with no text row; there the driver does overrun its grid, \<open>low_panel_overruns\<close>.)
\<close>

theorem panel_entry_points_return:
  assumes "panel_run M F m s" and "space_blank F"
  shows "(\<exists>u. fbcon_init M F s0 = Some u)
    \<and> (\<exists>t. fbcon_notified M F arrive ch s = Some t \<and> (ch = FBCON_TRACER_CH \<longrightarrow> console_live (fb_ring t) = []))"
  using panel_run_cases [OF assms] notified_running [of F s M arrive ch] notified_refused [of m s M F arrive ch] fbcon_init_total by blast

lemma panel_entry_points_return_witness:
  "\<exists>s t. panel_run tiny_panel (dot_font 1) (\<lambda>_. 7) s \<and> fbcon_notified tiny_panel (dot_font 1) (\<lambda>_. ''more'') 1 s = Some t
     \<and> console_live (fb_ring t) = []"
proof -
  obtain s where s: "panel_run tiny_panel (dot_font 1) (\<lambda>_. 7) s" using tiny_shown by blast
  from panel_entry_points_return [OF s dot_font_blank, of undefined "\<lambda>_. ''more''" 1] s show ?thesis by blast
qed

text \<open>
  C35. A panel whose geometry the driver refuses is never touched: after any mirroring and notifications the frame buffer is as
  the boot loader left it and no display register has been written.
\<close>

theorem refused_panel_untouched:
  assumes "panel_run M F m s" and "space_blank F" and "\<not> fb_ready s"
  shows "fb_mem s = m \<and> list_all is_read (io_log s)"
  using panel_run_cases [OF assms(1,2)] assms(3) by (auto simp: refused_def dark_def running_def showing_def)

text \<open>A panel as narrow as its margins is refused.\<close>

definition narrow_font :: fb_config where
  "narrow_font = (dot_font 1)\<lparr>MARGIN_SIDE := 1\<rparr>"

lemma refused_panel_untouched_witness:
  "\<exists>s. panel_run tiny_panel narrow_font (\<lambda>_. 7) s \<and> \<not> fb_ready s \<and> fb_mem s = (\<lambda>_. 7) \<and> list_all is_read (io_log s)"
proof -
  obtain s where s: "fbcon_init tiny_panel narrow_font (fbcon_boot () (\<lambda>_. 7) empty_console) = Some s" using fbcon_init_total by blast
  have "read_geometry tiny_panel narrow_font (fbcon_boot () (\<lambda>_. 7) empty_console) = (False, t) \<Longrightarrow> \<not> fb_ready s" for t
    using init_dark [OF _ s] by (simp add: dark_def)
  moreover have "\<not> fst (read_geometry tiny_panel narrow_font (fbcon_boot () (\<lambda>_. 7) empty_console))"
    by (simp add: read_geometry_def read_stride_def read_size_def fb_register_defs Let_def split_beta tiny_panel_def fbcon_boot_def
        dot_font_def narrow_font_def RDMA_IMG_SIZE_W_def RDMA_IMG_SIZE_H_def RDMA_SRC_STRIDE_MASK_def rdma_vaddr_def decon_vaddr_def
        FBCON_FB_SIZE_def)
  ultimately have off: "\<not> fb_ready s" by (metis (full_types) prod.collapse)
  then have run: "panel_run tiny_panel narrow_font (\<lambda>_. 7) s" using panel_run.start [OF console_ok_empty s] by simp
  moreover have "space_blank narrow_font" 
    by (simp add: space_blank_def narrow_font_def dot_font_def glyph_of_def glyph_color_def)
  ultimately show ?thesis using refused_panel_untouched [OF run _ off] off by blast
qed

text \<open>
  C36. Redrawing only the dirty rows gives the frame buffer a redraw of every row would give, from any state in which the rows that
  are not dirty show their text; every text operation keeps it so.
\<close>

theorem render_incremental:
  assumes "panel_ok F p s"
  shows "map_option fb_mem (render M F s) = map_option fb_mem (render M F (s\<lparr>fb_scrolled := True\<rparr>)) \<and> render M F s \<noteq> None
    \<and> (\<exists>t. put c s = Some t \<and> panel_ok F (ts_put (fb_cols s) c p) t)"
proof -
  have "geometry F s" "fresh F s" using assms by (simp_all add: panel_ok_def)
  then have full: "map_option fb_mem (render M F u) = Some (paint (line_words s) (MARGIN_SIDE F) (MARGIN_TOP F) (fb_cols s * CELL_W F)
      (fb_rows s * CELL_H F) (text_color F (fb_grid s)) (fb_mem s))" if "u = s \<or> u = s\<lparr>fb_scrolled := True\<rparr>" for u
    using that render_repaints [of F u M] same_panel_fields [OF same_panel_present [of _ M]]
    by (auto simp: fresh_def geometry_def line_words_def)
  show ?thesis using full [of s] full [of "s\<lparr>fb_scrolled := True\<rparr>"] put_ok [OF assms, of c] by auto
qed

lemma render_incremental_witness:
  "\<exists>s :: unit fbcon. panel_ok (dot_font 1) (typed 2 ''A'') s \<and> (\<exists>t. put (CHR ''B'') s = Some t \<and> panel_ok (dot_font 1) (ts_put (fb_cols s) (CHR ''B'') (typed 2 ''A'')) t)"
proof -
  obtain s where s: "panel_run tiny_panel (dot_font 1) (\<lambda>_. 7) s" "fb_ready s" "console_live (fb_ring s) = []" "fb_mirrored s = ''A''"
      "fb_cols s = 2" using tiny_shown by blast
  have "running (dot_font 1) s" using panel_run_cases [OF s(1) dot_font_blank] s(2) by (auto simp: refused_def dark_def)
  then have "panel_ok (dot_font 1) (typed 2 ''A'') s" using s by (auto simp: running_def showing_def)
  with render_incremental [OF this, of tiny_panel "CHR ''B''"] show ?thesis by blast
qed

section \<open>A panel without room for a line\<close>

text \<open>
  C37. \<open>read_geometry\<close> accepts a panel whose margins leave less than the height of a line: \<open>rows\<close> is then 0, the panel counts as
  ready, and the first newline makes \<open>scroll_grid\<close> store to \<open>grid[rows - 1]\<close>, outside the array.
\<close>

theorem low_panel_overruns:
  assumes geo: "read_geometry M F (fbcon_boot d m q) = (True, t)" and low: "fb_height t < MARGIN_TOP F + MARGIN_BOTTOM F + CELL_H F"
    and cols: "0 < fb_cols t" and ok: "console_ok q" and live: "console_live q = NL # rest"
  shows "\<exists>s. fbcon_init M F (fbcon_boot d m q) = Some s \<and> fb_ready s \<and> fb_rows s = 0 \<and> fbcon_notified M F arrive FBCON_TRACER_CH s = None"
proof -
  have rows: "fb_rows t = 0" 
  proof -
    have "CELL_H F = 0 \<or> fb_height t - MARGIN_TOP F - MARGIN_BOTTOM F < CELL_H F" using low by linarith
    then show ?thesis using read_geometry_ok(3) [OF geo] by auto
  qed
  obtain s where s: "fbcon_init M F (fbcon_boot d m q) = Some s" "fb_ready s" "fb_rows s = 0" "fb_cols s = fb_cols t" "fb_ring s = q"
    using fbcon_init_unfold [OF geo] read_geometry_frame [OF geo] rows same_panel_fields
    by (fastforce simp: same_text_def fbcon_boot_def)
  obtain r new where r: "fold mirror_char (arrive 0) s = s\<lparr>fb_ring := r, fb_mirrored := fb_mirrored s @ new\<rparr>" "console_ok r"
      "cr_tail r = cr_tail q" "console_live r = console_live q @ new"
    using mirror_ring [of s "arrive 0"] ok s(5) by blast
  have nl: "cr_buf r (console_slot (cr_tail q)) = NL" using console_live_at [of 0 r] r live by simp
  have more: "cr_tail q \<noteq> cr_head r" using console_at_end [OF r(2), of 0] r live by simp
  have "scroll_grid u = None" if "fb_rows u = 0" "0 < fb_cols u" for u :: "'a fbcon" using that by (simp add: scroll_grid_def)
  then have "put NL (s\<lparr>fb_ring := r, fb_mirrored := fb_mirrored s @ new\<rparr>) = None"
    using s cols by (simp add: put_def newline_def)
  then have "drain_ring arrive s = None"
    using more nl s(2,5) by (simp add: drain_ring_def drain_loop.simps [of arrive 0] r(1) Let_def)
  then show ?thesis using s by (auto simp: fbcon_notified_def)
qed

lemma low_panel_overruns_witness:
  "\<exists>q s. console_live q = [NL] \<and> fbcon_init tiny_panel (dot_font 2) (fbcon_boot () (\<lambda>_. 7) q) = Some s
     \<and> fbcon_notified tiny_panel (dot_font 2) (\<lambda>_. []) 1 s = None"
proof -
  have room: "0 < console_room empty_console"
    by (simp add: console_room_def counters_room_def empty_console_def console_capacity_value)
  have live: "console_live empty_console = []" by (simp add: console_live_Nil empty_console_def)
  let ?q = "console_push NL empty_console"
  have q: "console_ok ?q" "console_live ?q = [NL]" using console.push_law [OF console_ok_empty room, of NL] live by simp_all
  obtain t where t: "read_geometry tiny_panel (dot_font 2) (fbcon_boot () (\<lambda>_. 7) ?q) = (True, t)" "fb_height t = 1" "fb_cols t = 2"
    using tiny_geometry [of 2 "\<lambda>_. 7" ?q] by auto
  have "fb_height t < MARGIN_TOP (dot_font 2) + MARGIN_BOTTOM (dot_font 2) + CELL_H (dot_font 2)" "0 < fb_cols t"
    using t by (simp_all add: dot_font_def CELL_H_def)
  from low_panel_overruns [OF t(1) this q, of "\<lambda>_. []"] q show ?thesis by blast
qed

end
