(* ===== verification/Console_Panel.thy ===== *)
theory Console_Panel
  imports Tracer Panel_Console
begin

text \<open>
  The tracer (\<^verbatim>\<open>tracer/tracer.c\<close>) and the panel console (\<^verbatim>\<open>fbcon/fbcon.c\<close>) joined over the ring between them: what the tracer prints is what
  the panel shows, except for runs it had to drop, which the panel shows as a report.  \<open>fbcon\<close> stores \<open>tail\<close> only at the end of a drain, so what
  the tracer writes during one it writes as if the drain had not begun; a drain is therefore one step here.
\<close>

section \<open>The two domains\<close>

text \<open>The panel sees the ring as the tracer has left it.\<close>

definition see_ring :: "console_ring \<Rightarrow> 'd fbcon \<Rightarrow> 'd fbcon" where
  "see_ring r f = f\<lparr>fb_ring := r, fb_mirrored := fb_mirrored f @ drop (length (console_live (fb_ring f))) (console_live r)\<rparr>"

text \<open>\<open>txt\<close> is everything the tracer has printed since the panel started.\<close>

inductive console_system :: "'d machine \<Rightarrow> fb_config \<Rightarrow> (nat \<Rightarrow> u32) \<Rightarrow> tracer \<Rightarrow> 'd fbcon \<Rightarrow> string \<Rightarrow> bool" for M F m where
  cs_start: "tc_mirror t = empty_console \<Longrightarrow> tc_mirror_dropped t = 0 \<Longrightarrow> fbcon_init M F (fbcon_boot d m empty_console) = Some f \<Longrightarrow>
    fb_ready f \<longrightarrow> 0 < fb_rows f \<Longrightarrow> console_system M F m t f []"
| cs_print: "console_system M F m t f txt \<Longrightarrow>
    console_system M F m (Tracer.console_putc c t) (see_ring (tc_mirror (Tracer.console_putc c t)) f) (txt @ [c])"
| cs_signal: "console_system M F m t f txt \<Longrightarrow> console_system M F m (mirror_notify t) f txt"
| cs_drain: "console_system M F m t f txt \<Longrightarrow> fbcon_notified M F (\<lambda>_. []) ch f = Some f' \<Longrightarrow>
    console_system M F m (t\<lparr>tc_mirror := fb_ring f'\<rparr>) f' txt"

text \<open>
  What is shown of a text when some of it is dropped.  The number counts the characters dropped and not yet reported, \<open>q\<close> those
  waiting to be shown, which a drain takes away.  A character is dropped only when the ring is full, or when others have been dropped
  and fewer than the 64 places a report may need are free; then it must be.
\<close>

inductive shown_of :: "string \<Rightarrow> string \<Rightarrow> u64 \<Rightarrow> nat \<Rightarrow> bool" where
  so_none: "shown_of [] [] 0 0"
| so_char: "shown_of txt out 0 q \<Longrightarrow> q < CONSOLE_RING_CAPACITY \<Longrightarrow> shown_of (txt @ [c]) (out @ [c]) 0 (q + 1)"
| so_full: "shown_of txt out 0 q \<Longrightarrow> CONSOLE_RING_CAPACITY \<le> q \<Longrightarrow> shown_of (txt @ [c]) out 1 q"
| so_drop: "shown_of txt out n q \<Longrightarrow> n \<noteq> 0 \<Longrightarrow> CONSOLE_RING_CAPACITY < q + 64 \<Longrightarrow> shown_of (txt @ [c]) out (n + 1) q"
| so_report: "shown_of txt out n q \<Longrightarrow> n \<noteq> 0 \<Longrightarrow> q + 64 \<le> CONSOLE_RING_CAPACITY \<Longrightarrow>
    shown_of (txt @ [c]) (out @ dropped_report n @ [c]) 0 (q + length (dropped_report n) + 1)"
| so_drain: "shown_of txt out n q \<Longrightarrow> shown_of txt out n 0"

section \<open>One character\<close>

lemma mirror_chars:
  "length cs \<le> console_room (fb_ring f) \<Longrightarrow> console_ok (fb_ring f) \<Longrightarrow>
     fold mirror_char cs f = f\<lparr>fb_ring := foldl (\<lambda>r c. console_push c r) (fb_ring f) cs, fb_mirrored := fb_mirrored f @ cs\<rparr>"
proof (induction cs arbitrary: f)
  case (Cons c cs)
  have room: "0 < console_room (fb_ring f)" using Cons.prems(1) by simp
  from console.push_law [OF Cons.prems(2) room, of c] have
    "console_ok (console_push c (fb_ring f))" "console_room (console_push c (fb_ring f)) = console_room (fb_ring f) - 1" by simp_all
  then show ?case
    using Cons.IH [of "f\<lparr>fb_ring := console_push c (fb_ring f), fb_mirrored := fb_mirrored f @ [c]\<rparr>"] Cons.prems room
    by (simp add: mirror_char_def)
qed simp

lemma print_char:
  assumes ok: "console_ok (tc_mirror t)" and wrap: "unat (cr_head (tc_mirror t)) + 64 < 2 ^ 64" and ring: "fb_ring f = tc_mirror t"
  shows "see_ring (tc_mirror (Tracer.console_putc c t)) f = fold mirror_char (mirrored t c) f"
    and "fb_mirrored (see_ring (tc_mirror (Tracer.console_putc c t)) f) = fb_mirrored f @ mirrored t c"
    and "tc_mirror_dropped (Tracer.console_putc c t) = (if mirrored t c = [] then tc_mirror_dropped t + 1 else 0)"
    and "unat (cr_head (tc_mirror (Tracer.console_putc c t))) \<le> unat (cr_head (tc_mirror t)) + 45"
    and "console_ok (tc_mirror (Tracer.console_putc c t))"
proof -
  let ?t = "t\<lparr>tc_out := tc_out t @ [c]\<rparr>"
  have same: "tc_mirror ?t = tc_mirror t" "mirrored ?t c = mirrored t c" "tc_mirror_dropped ?t = tc_mirror_dropped t"
    by (simp_all add: mirrored_def Let_def)
  note eq = mirror_putc_eq [of ?t c, unfolded same, OF ok wrap]
  have push: "tc_mirror (Tracer.console_putc c t) = foldl (\<lambda>r c. console_push c r) (tc_mirror t) (mirrored t c)"
    using eq by (simp add: Tracer.console_putc_def)
  have live: "console_ok (tc_mirror (Tracer.console_putc c t))"
      "console_live (tc_mirror (Tracer.console_putc c t)) = console_live (tc_mirror t) @ mirrored t c"
    using console.push_list [OF ok, of "mirrored t c"] eq push by simp_all
  show "see_ring (tc_mirror (Tracer.console_putc c t)) f = fold mirror_char (mirrored t c) f"
    using mirror_chars [of "mirrored t c" f] eq ok ring live push by (simp add: see_ring_def)
  show "fb_mirrored (see_ring (tc_mirror (Tracer.console_putc c t)) f) = fb_mirrored f @ mirrored t c"
    using live ring by (simp add: see_ring_def)
  show "tc_mirror_dropped (Tracer.console_putc c t) = (if mirrored t c = [] then tc_mirror_dropped t + 1 else 0)"
    using eq by (simp add: Tracer.console_putc_def)
  have len: "length (mirrored t c) \<le> 45" using eq by blast
  have "cr_head (tc_mirror (Tracer.console_putc c t)) = cr_head (tc_mirror t) + of_nat (length (mirrored t c))"
    unfolding push by (simp only: console_push_list_head)
  moreover have "unat (cr_head (tc_mirror t) + of_nat (length (mirrored t c))) = unat (cr_head (tc_mirror t)) + length (mirrored t c)"
    using wrap len by (simp add: unat_add_of_nat)
  ultimately show "unat (cr_head (tc_mirror (Tracer.console_putc c t))) \<le> unat (cr_head (tc_mirror t)) + 45" using len by simp
  show "console_ok (tc_mirror (Tracer.console_putc c t))" by (rule live(1))
qed

lemma mirrored_shown:
  assumes "shown_of txt out (tc_mirror_dropped t) (length (console_live (tc_mirror t)))"
  shows "shown_of (txt @ [c]) (out @ mirrored t c) (if mirrored t c = [] then tc_mirror_dropped t + 1 else 0)
    (length (console_live (tc_mirror t)) + length (mirrored t c))"
proof (cases "tc_mirror_dropped t = 0")
  case True
  then show ?thesis using assms by (auto simp: mirrored_def intro: so_char [simplified] so_full)
next
  case False
  then show ?thesis
    using so_report [OF assms, of c] so_drop [OF assms, of c] by (auto simp: mirrored_def Let_def add.assoc)
qed

section \<open>The invariant\<close>

definition console_inv :: "'d machine \<Rightarrow> fb_config \<Rightarrow> (nat \<Rightarrow> u32) \<Rightarrow> tracer \<Rightarrow> 'd fbcon \<Rightarrow> string \<Rightarrow> bool" where
  "console_inv M F m t f txt \<longleftrightarrow> panel_run M F m f \<and> fb_ring f = tc_mirror t \<and> console_ok (tc_mirror t)
     \<and> unat (cr_head (tc_mirror t)) \<le> 45 * length txt
     \<and> shown_of txt (fb_mirrored f) (tc_mirror_dropped t) (length (console_live (tc_mirror t)))
     \<and> (length txt \<le> CONSOLE_RING_CAPACITY \<longrightarrow>
          fb_mirrored f = txt \<and> tc_mirror_dropped t = 0 \<and> length (console_live (tc_mirror t)) \<le> length txt)"

text \<open>A drain takes the characters out of the ring and pushes none.\<close>

lemma notified_ring:
  assumes "panel_run M F m f" and "space_blank F" and "fbcon_notified M F (\<lambda>_. []) ch f = Some f'"
  shows "nothing_new f f'" and "console_ok (fb_ring f')" and "console_live (fb_ring f') \<in> {[], console_live (fb_ring f)}"
    and "panel_run M F m f'"
proof -
  have "running F f \<or> refused m f" using panel_run_cases assms(1,2) by blast
  then have "nothing_new f f' \<and> (running F f' \<or> refused m f') \<and> (ch = FBCON_TRACER_CH \<longrightarrow> console_live (fb_ring f') = [])"
    using notified_running [of F f M "\<lambda>_. []" ch] notified_refused [of m f M F "\<lambda>_. []" ch] assms(3) by auto
  moreover have "fb_ring f' = fb_ring f" if "ch \<noteq> FBCON_TRACER_CH" using that assms(3) by (auto simp: fbcon_notified_def dbg_puts_def)
  ultimately show "nothing_new f f'" "console_ok (fb_ring f')" "console_live (fb_ring f') \<in> {[], console_live (fb_ring f)}"
    by (auto simp: running_def refused_def)
  show "panel_run M F m f'" by (rule panel_run.notify [OF assms(1,3)])
qed

lemma panel_run_fold: "panel_run M F m f \<Longrightarrow> panel_run M F m (fold mirror_char cs f)"
  by (induction cs arbitrary: f) (simp_all add: panel_run.mirror)

lemma console_system_inv:
  assumes blank: "space_blank F"
  shows "console_system M F m t f txt \<Longrightarrow> 45 * length txt + 64 < 2 ^ 64 \<Longrightarrow> console_inv M F m t f txt"
proof (induction rule: console_system.induct)
  case (cs_start t d f)
  have e: "console_live empty_console = []" by (simp add: console_live_Nil empty_console_def)
  have f: "fb_ring f = empty_console" "fb_mirrored f = []"
  proof -
    obtain b u where geo: "read_geometry M F (fbcon_boot d m empty_console) = (b, u)" by fastforce
    have "fb_ring u = empty_console \<and> fb_mirrored u = []"
      using read_geometry_frame [OF geo] by (simp add: same_text_def fbcon_boot_def e)
    then have "fb_ring f = empty_console \<and> fb_mirrored f = []"
      using fbcon_init_unfold [of M F _ u] init_dark [of M F d m empty_console u f] geo cs_start(3) same_panel_fields e by (cases b; fastforce)
    then show "fb_ring f = empty_console" "fb_mirrored f = []" by simp_all
  qed
  then show ?case
    using panel_run.start [OF console_ok_empty cs_start(3,4)] cs_start(1,2) console_ok_empty e
    by (simp add: console_inv_def shown_of.so_none) (simp add: empty_console_def)
next
  case (cs_print t f "txt" c)
  then have inv: "console_inv M F m t f txt" by simp
  then have ok: "console_ok (tc_mirror t)" and ring: "fb_ring f = tc_mirror t" and head: "unat (cr_head (tc_mirror t)) \<le> 45 * length txt"
    and run: "panel_run M F m f"
    and shown: "shown_of txt (fb_mirrored f) (tc_mirror_dropped t) (length (console_live (tc_mirror t)))"
    by (simp_all add: console_inv_def)
  have wrap: "unat (cr_head (tc_mirror t)) + 64 < 2 ^ 64" using head cs_print.prems by simp
  note p = print_char [OF ok wrap ring, of c]
  have live: "console_live (tc_mirror (Tracer.console_putc c t)) = console_live (tc_mirror t) @ mirrored t c"
    using p(1,2) ring console.push_list [OF ok, of "mirrored t c"] mirror_putc_spec [of "t\<lparr>tc_out := tc_out t @ [c]\<rparr>" c] ok wrap
    by (simp add: Tracer.console_putc_def mirrored_def Let_def)
  have "mirrored t c = [c]" if len: "length (txt @ [c]) \<le> CONSOLE_RING_CAPACITY"
  proof -
    have "fb_mirrored f = txt" "length (console_live (tc_mirror t)) < CONSOLE_RING_CAPACITY" using inv len by (auto simp: console_inv_def)
    moreover from this have "tc_mirror_dropped t = 0" using inv len by (simp add: console_inv_def)
    ultimately show ?thesis by (simp add: mirrored_def)
  qed
  moreover have "fb_ring (fold mirror_char (mirrored t c) f) = tc_mirror (Tracer.console_putc c t)"
    unfolding p(1) [symmetric] by (simp add: see_ring_def)
  ultimately show ?case
    using p inv panel_run_fold [OF run, of "mirrored t c"] mirrored_shown [OF shown, of c] live head
    by (auto simp: console_inv_def)
next
  case (cs_signal t f "txt")
  have "tc_mirror (mirror_notify t) = tc_mirror t" "tc_mirror_dropped (mirror_notify t) = tc_mirror_dropped t"
    by (simp_all add: mirror_notify_def)
  then show ?case using cs_signal by (simp add: console_inv_def)
next
  case (cs_drain t f "txt" ch f')
  then have inv: "console_inv M F m t f txt" by simp
  then have "panel_run M F m f" by (simp add: console_inv_def)
  from notified_ring [OF this blank cs_drain.hyps(2)] inv show ?case by (auto simp: console_inv_def nothing_new_def intro: so_drain)
qed

section \<open>Property\<close>

text \<open>
  C22. The panel shows the console: after any sequence of characters the tracer prints, signals and drains, whenever the ring between the
  two is empty, the panel shows the last lines of the text printed, in which each run of characters dropped for want of room is
  replaced by one report of its length, and a run that has not been reported yet is counted.  A character is dropped
  exactly when the ring is full, or when the run before it has not been reported and fewer than 64 places are free (\<open>shown_of\<close>); so
  nothing is dropped from the first 16368 characters, the capacity of the ring.  (The bound on the length keeps the ring's
  64-bit counter from wrapping.)
\<close>

theorem panel_shows_console:
  assumes "console_system M F m t f txt" and "space_blank F" and "45 * length txt + 64 < 2 ^ 64"
    and "fb_ready f" and "console_live (tc_mirror t) = []"
  shows "\<exists>shown. shown_of txt shown (tc_mirror_dropped t) 0 \<and> (length txt \<le> CONSOLE_RING_CAPACITY \<longrightarrow> shown = txt)
    \<and> (\<forall>x<fb_width f. \<forall>y<fb_height f. pixel f x y = screen_color F f (typed (fb_cols f) shown) x y)"
proof -
  have inv: "console_inv M F m t f txt" using console_system_inv [OF assms(2,1,3)] .
  then have "running F f" using panel_run_cases [OF _ assms(2), of M m f] assms(4) by (auto simp: console_inv_def refused_def dark_def)
  then have "\<forall>x<fb_width f. \<forall>y<fb_height f. pixel f x y = screen_color F f (typed (fb_cols f) (fb_mirrored f)) x y"
    using settled_screen inv assms(5) by (auto simp: running_def console_inv_def)
  then show ?thesis using inv assms(5) by (auto simp: console_inv_def)
qed

definition quiet_tracer :: tracer where
  "quiet_tracer = \<lparr>tc_out = [], tc_line = replicate LINE_MAX NUL, tc_mirror = empty_console, tc_mirror_dropped = 0,
     tc_mirror_pending = False, tc_fbcon_signals = 0, tc_dumps_done = 0, tc_archive = empty_archive, tc_ring = empty_ring,
     tc_vmm_console = empty_console, tc_uartrx_console = empty_console\<rparr>"

theorem panel_shows_console_witness:
  "\<exists>t f. console_system tiny_panel (dot_font 1) (\<lambda>_. 7) t f ''A'' \<and> pixel f 0 0 = FG \<and> pixel f 1 0 = BG"
proof -
  let ?c = "CHR ''A''" and ?t1 = "Tracer.console_putc (CHR ''A'') quiet_tracer"
  obtain u where geo: "read_geometry tiny_panel (dot_font 1) (fbcon_boot () (\<lambda>_. 7) empty_console) = (True, u)"
      "fb_width u = 2" "fb_height u = 1" "fb_cols u = 2" "fb_rows u = 1"
    using tiny_geometry [of 1 "\<lambda>_. 7" empty_console] by auto
  obtain f where f: "fbcon_init tiny_panel (dot_font 1) (fbcon_boot () (\<lambda>_. 7) empty_console) = Some f"
      "fb_ready f" "fb_cols f = 2" "fb_rows f = 1" "fb_width f = 2" "fb_height f = 1"
    using fbcon_init_unfold [OF geo(1)] geo same_panel_fields by fastforce
  let ?f1 = "see_ring (tc_mirror ?t1) f"
  have "console_system tiny_panel (dot_font 1) (\<lambda>_. 7) quiet_tracer f []"
    by (rule cs_start [OF _ _ f(1)]) (simp_all add: quiet_tracer_def f(4))
  from cs_print [OF this, of ?c] have s1: "console_system tiny_panel (dot_font 1) (\<lambda>_. 7) ?t1 ?f1 ''A''" by simp
  have f1: "fb_ready ?f1" "same_dims f ?f1" using f by (simp_all add: see_ring_def same_dims_def)
  have inv1: "console_inv tiny_panel (dot_font 1) (\<lambda>_. 7) ?t1 ?f1 ''A''" by (rule console_system_inv [OF dot_font_blank s1]) simp
  then have "running (dot_font 1) ?f1"
    using panel_run_cases [OF _ dot_font_blank] f1(1) by (auto simp: console_inv_def refused_def dark_def)
  from notified_running [OF this, of tiny_panel "\<lambda>_. []" FBCON_TRACER_CH]
  obtain g where g: "fbcon_notified tiny_panel (dot_font 1) (\<lambda>_. []) FBCON_TRACER_CH ?f1 = Some g" "running (dot_font 1) g"
      "console_live (fb_ring g) = []" "same_dims ?f1 g" by auto
  let ?t2 = "?t1\<lparr>tc_mirror := fb_ring g\<rparr>"
  have s2: "console_system tiny_panel (dot_font 1) (\<lambda>_. 7) ?t2 g ''A''" by (rule cs_drain [OF s1 g(1)])
  have dims: "fb_cols g = 2" "fb_rows g = 1" "fb_width g = 2" "fb_height g = 1" using f f1(2) g(4) by (simp_all add: same_dims_def)
  have "fb_ready g" using g(2) by (auto simp: running_def showing_def)
  from panel_shows_console [OF s2 dot_font_blank _ this] g(3)
  have px: "pixel g x 0 = screen_color (dot_font 1) g (typed 2 ''A'') x 0" if "x < 2" for x
    using that dims by (auto simp: console_capacity_value)
  have "pixel g 0 0 = FG" "pixel g 1 0 = BG" using px [of 0] px [of 1] tiny_screen [of g] dims by simp_all
  then show ?thesis using s2 by blast
qed

end
