(* ===== verification/Harness.thy ===== *)
theory Harness
  imports Machine
begin

text \<open>
  The test guest (\<^verbatim>\<open>guests/harness/\<close>): its UART output, the regression run of \<^verbatim>\<open>harness.c\<close> and the lab modes of \<^verbatim>\<open>lab.c\<close>.  Device
  registers are the machine's, system registers, \<open>smc\<close>, table walks and interrupts are the parameter \<open>cpu\<close>; where the linker places
  the page tables is the parameter \<open>layout\<close>.  Every processor operation is logged in order.  \<open>None\<close> is never returning.
\<close>

section \<open>Parameters and state\<close>

datatype sysreg = ICC_IAR1 | ICC_EOIR1 | ICC_SRE | ICC_PMR | ICC_BPR1 | ICC_IGRPEN1 | VBAR | CNTV_TVAL | CNTV_CTL | MPIDR
  | ID_AA64MMFR1 | TCR | SCTLR | MAIR | TTBR0

datatype cpu_op = Smc0 u64 u64 | Mrs sysreg u64 | Msr sysreg u64 | Barrier string | Tlbi string u64 | Irq_Unmask

text \<open>
  \<open>cpu_touch\<close> is the table walk of a store: the descriptor the hardware leaves, or a fault.  \<open>cpu_irqs\<close> says how many interrupts
  are taken at the next point the model lets them in.
\<close>

record 'd cpu =
  cpu_smc :: "u64 \<Rightarrow> 'd \<Rightarrow> u64 \<times> 'd"
  cpu_mrs :: "sysreg \<Rightarrow> 'd \<Rightarrow> u64 \<times> 'd"
  cpu_touch :: "u64 \<Rightarrow> 'd \<Rightarrow> u64 option \<times> 'd"
  cpu_irqs :: "'d \<Rightarrow> nat \<times> 'd"

record hx_layout =
  at_vectors :: u64
  at_l1 :: u64
  at_l2 :: u64
  at_l3 :: u64
  at_test_page :: u64

record 'd harness = "'d io" +
  hx_ops :: "cpu_op list"
  hx_l1 :: "nat \<Rightarrow> u64"
  hx_l2 :: "nat \<Rightarrow> u64"
  hx_l3 :: "nat \<Rightarrow> u64"
  hx_test :: u32             \<comment> \<open>the first word of \<open>test_page\<close>\<close>
  hx_timer_irqs :: u64
  hx_spurious :: u64

definition harness_boot :: "'d \<Rightarrow> 'd harness" where
  "harness_boot d = \<lparr>io_dev = d, io_log = [], hx_ops = [], hx_l1 = (\<lambda>_. 0), hx_l2 = (\<lambda>_. 0), hx_l3 = (\<lambda>_. 0), hx_test = 0,
     hx_timer_irqs = 0, hx_spurious = 0\<rparr>"

definition op :: "cpu_op \<Rightarrow> 'd harness \<Rightarrow> 'd harness" where
  "op a s = s\<lparr>hx_ops := hx_ops s @ [a]\<rparr>"

definition smc0 :: "'d cpu \<Rightarrow> u64 \<Rightarrow> 'd harness \<Rightarrow> u64 \<times> 'd harness" where
  "smc0 C fid s = (let (x, d) = cpu_smc C fid (io_dev s) in (x, op (Smc0 fid x) (s\<lparr>io_dev := d\<rparr>)))"

definition mrs :: "'d cpu \<Rightarrow> sysreg \<Rightarrow> 'd harness \<Rightarrow> u64 \<times> 'd harness" where
  "mrs C r s = (let (x, d) = cpu_mrs C r (io_dev s) in (x, op (Mrs r x) (s\<lparr>io_dev := d\<rparr>)))"

section \<open>The UART\<close>

abbreviation (input) HARNESS_RAM_GPA :: u64 where "HARNESS_RAM_GPA \<equiv> 0x80000000"
abbreviation (input) HARNESS_UART_GPA :: u64 where "HARNESS_UART_GPA \<equiv> 0x10870000"
abbreviation (input) HARNESS_WATCHDOG_GPA :: u64 where "HARNESS_WATCHDOG_GPA \<equiv> 0x10060000"
abbreviation (input) HARNESS_WATCHDOG_WTCON :: u64 where "HARNESS_WATCHDOG_WTCON \<equiv> 0x00"

definition uart_putc :: "'d machine \<Rightarrow> char \<Rightarrow> 'd harness \<Rightarrow> 'd harness option" where
  "uart_putc M c s = do {
     s1 \<leftarrow> poll M (HARNESS_UART_GPA + EXYNOS_UART_UTRSTAT) (\<lambda>v. v AND EXYNOS_UART_UTRSTAT_TXFE \<noteq> 0) s;
     Some (write32 M (HARNESS_UART_GPA + EXYNOS_UART_UTXH) (of_nat (of_char c)) s1)
   }"

definition uart_puts :: "'d machine \<Rightarrow> string \<Rightarrow> 'd harness \<Rightarrow> 'd harness option" where
  "uart_puts M t = for_each (uart_putc M) t"

definition uart_puthex :: "'d machine \<Rightarrow> u64 \<Rightarrow> nat \<Rightarrow> 'd harness \<Rightarrow> 'd harness option" where
  "uart_puthex M val digits s = uart_puts M ''0x'' s \<bind> uart_puts M (hex_nibbles val digits)"

definition uart_puthex32 :: "'d machine \<Rightarrow> u32 \<Rightarrow> 'd harness \<Rightarrow> 'd harness option" where
  "uart_puthex32 M val = uart_puthex M (ucast val) 8"

definition uart_puthex64 :: "'d machine \<Rightarrow> u64 \<Rightarrow> 'd harness \<Rightarrow> 'd harness option" where
  "uart_puthex64 M val = uart_puthex M val 16"

definition uart_putdec :: "'d machine \<Rightarrow> u64 \<Rightarrow> 'd harness \<Rightarrow> 'd harness option" where
  "uart_putdec M val = uart_puts M (put_dec val)"

section \<open>The regression run\<close>

abbreviation (input) PSCI_VERSION_FID :: u64 where "PSCI_VERSION_FID \<equiv> 0x84000000"
abbreviation (input) SMCCC_VERSION_FID :: u64 where "SMCCC_VERSION_FID \<equiv> 0x80000000"
abbreviation (input) HARNESS_UNHANDLED_SMC_FID :: u64 where "HARNESS_UNHANDLED_SMC_FID \<equiv> 0x82000000"

definition regression :: "'d machine \<Rightarrow> 'd cpu \<Rightarrow> 'd harness \<Rightarrow> 'd harness option" where
  "regression M C s0 = do {
     s1 \<leftarrow> uart_puts M ''WTCON='' s0;
     let (wtcon, s2) = read32 M (HARNESS_WATCHDOG_GPA + HARNESS_WATCHDOG_WTCON) s1;
     s3 \<leftarrow> uart_puthex32 M wtcon s2;
     s4 \<leftarrow> uart_puts M [NL] s3;
     s5 \<leftarrow> uart_puts M ''PSCI_VERSION='' s4;
     let (psci, s6) = smc0 C PSCI_VERSION_FID s5;
     s7 \<leftarrow> uart_puthex32 M (ucast psci) s6;
     s8 \<leftarrow> uart_puts M [NL] s7;
     s9 \<leftarrow> uart_puts M ''SMCCC_VERSION='' s8;
     let (smccc, s10) = smc0 C SMCCC_VERSION_FID s9;
     s11 \<leftarrow> uart_puthex32 M (ucast smccc) s10;
     s12 \<leftarrow> uart_puts M [NL] s11;
     let (_, s13) = smc0 C HARNESS_UNHANDLED_SMC_FID s12;
     uart_puts M (''resumed'' @ [NL]) s13
   }"

section \<open>Interrupts\<close>

abbreviation (input) VTIMER_INTID :: u64 where "VTIMER_INTID \<equiv> 27"
abbreviation (input) INTID_SPURIOUS_MIN :: u64 where "INTID_SPURIOUS_MIN \<equiv> 1020"
abbreviation (input) TIMER_PERIOD_TICKS :: u64 where "TIMER_PERIOD_TICKS \<equiv> 2458"
abbreviation (input) GICD_BASE :: u64 where "GICD_BASE \<equiv> 0x10400000"
abbreviation (input) GICR_BASE :: u64 where "GICR_BASE \<equiv> 0x10440000"

definition lab_irq :: "'d cpu \<Rightarrow> 'd harness \<Rightarrow> 'd harness" where
  "lab_irq C s =
     (let (iar, s1) = mrs C ICC_IAR1 s
      in if INTID_SPURIOUS_MIN \<le> iar AND 0xffffff then s1\<lparr>hx_spurious := hx_spurious s1 + 1\<rparr>
         else let s2 = (if iar AND 0xffffff = VTIMER_INTID
                        then op (Msr CNTV_TVAL TIMER_PERIOD_TICKS) (s1\<lparr>hx_timer_irqs := hx_timer_irqs s1 + 1\<rparr>) else s1)
              in op (Barrier ''isb'') (op (Msr ICC_EOIR1 iar) s2))"

definition take_irqs :: "'d cpu \<Rightarrow> 'd harness \<Rightarrow> 'd harness" where
  "take_irqs C s = (let (k, d) = cpu_irqs C (io_dev s) in (lab_irq C ^^ k) (s\<lparr>io_dev := d\<rparr>))"

text \<open>What \<open>lab_bad_exception\<close> prints before it waits for ever.\<close>

definition lab_bad_exception :: "'d machine \<Rightarrow> u64 \<Rightarrow> u64 \<Rightarrow> u64 \<Rightarrow> u64 \<Rightarrow> 'd harness \<Rightarrow> 'd harness option" where
  "lab_bad_exception M vector esr elr far s0 = do {
     s1 \<leftarrow> uart_puts M ''harness: unexpected exception, vector '' s0;
     s2 \<leftarrow> uart_putdec M vector s1;
     s3 \<leftarrow> uart_puts M '' ESR '' s2;
     s4 \<leftarrow> uart_puthex64 M esr s3;
     s5 \<leftarrow> uart_puts M '' ELR '' s4;
     s6 \<leftarrow> uart_puthex64 M elr s5;
     s7 \<leftarrow> uart_puts M '' FAR '' s6;
     s8 \<leftarrow> uart_puthex64 M far s7;
     uart_puts M [NL] s8
   }"

definition gicr_sgi_base :: "'d cpu \<Rightarrow> 'd harness \<Rightarrow> u64 \<times> 'd harness" where
  "gicr_sgi_base C s = (let (mpidr, s1) = mrs C MPIDR s in (GICR_BASE + (mpidr AND 0xff) * 0x20000 + 0x10000, s1))"

definition gic_cpu_interface_on :: "'d harness \<Rightarrow> 'd harness" where
  "gic_cpu_interface_on s =
     fold op [Msr ICC_SRE 7, Barrier ''isb'', Msr ICC_PMR 0xff, Msr ICC_BPR1 0, Msr ICC_IGRPEN1 1, Barrier ''isb''] s"

definition timer_irqs_on :: "'d machine \<Rightarrow> 'd cpu \<Rightarrow> hx_layout \<Rightarrow> 'd harness \<Rightarrow> 'd harness option" where
  "timer_irqs_on M C L s =
     (let s1 = fold op [Msr VBAR (at_vectors L), Barrier ''isb''] s;
          s2 = write32 M (GICD_BASE + 0x0000) (0x10 OR 0x2) s1;
          (base, s3) = gicr_sgi_base C s2;
          s4 = write32 M (base + 0x0100) (push_bit 27 1) s3;
          s5 = gic_cpu_interface_on s4;
          s6 = fold op [Msr CNTV_TVAL TIMER_PERIOD_TICKS, Msr CNTV_CTL 1, Barrier ''isb'', Irq_Unmask] s5
      in uart_puts M (''harness: virtual timer firing every 100 us'' @ [NL]) s6)"

section \<open>Page tables\<close>

abbreviation (input) DESC_BLOCK :: u64 where "DESC_BLOCK \<equiv> 0x1"
abbreviation (input) DESC_TABLE :: u64 where "DESC_TABLE \<equiv> 0x3"
abbreviation (input) DESC_PAGE :: u64 where "DESC_PAGE \<equiv> 0x3"
abbreviation (input) DESC_AP_RO :: u64 where "DESC_AP_RO \<equiv> 0x80"
abbreviation (input) DESC_SH_INNER :: u64 where "DESC_SH_INNER \<equiv> 0x300"
abbreviation (input) DESC_AF :: u64 where "DESC_AF \<equiv> 0x400"
abbreviation (input) DESC_DBM :: u64 where "DESC_DBM \<equiv> 0x8000000000000"
abbreviation (input) DESC_PXN :: u64 where "DESC_PXN \<equiv> 0x20000000000000"
abbreviation (input) DESC_UXN :: u64 where "DESC_UXN \<equiv> 0x40000000000000"
abbreviation (input) ATTR_DEVICE :: u64 where "ATTR_DEVICE \<equiv> 0"
abbreviation (input) ATTR_NORMAL :: u64 where "ATTR_NORMAL \<equiv> 1"
abbreviation (input) PAGE_SIZE :: u64 where "PAGE_SIZE \<equiv> 4096"
abbreviation (input) ENTRIES :: nat where "ENTRIES \<equiv> 512"

definition DESC_ATTR :: "u64 \<Rightarrow> u64" where "DESC_ATTR n = push_bit 2 n"

definition test_desc :: "hx_layout \<Rightarrow> bool \<Rightarrow> u64" where
  "test_desc L hw_updates =
     (at_test_page L OR DESC_ATTR ATTR_NORMAL OR DESC_SH_INNER OR DESC_PAGE) OR (if hw_updates then DESC_DBM OR DESC_AP_RO else DESC_AF)"

definition test_slot :: "hx_layout \<Rightarrow> nat" where
  "test_slot L = unat ((at_test_page L - HARNESS_RAM_GPA) div PAGE_SIZE)"

definition ram_desc :: "nat \<Rightarrow> u64" where
  "ram_desc i = (HARNESS_RAM_GPA + of_nat i * PAGE_SIZE) OR DESC_ATTR ATTR_NORMAL OR DESC_SH_INNER OR DESC_AF OR DESC_PAGE"

definition device_desc :: u64 where
  "device_desc = DESC_ATTR ATTR_DEVICE OR DESC_AF OR DESC_PXN OR DESC_UXN OR DESC_BLOCK"

definition build_page_tables :: "hx_layout \<Rightarrow> bool \<Rightarrow> 'd harness \<Rightarrow> 'd harness" where
  "build_page_tables L hw_updates s =
     (let s1 = s\<lparr>hx_l1 := (hx_l1 s)(0 := device_desc)\<rparr>;
          s2 = s1\<lparr>hx_l1 := (hx_l1 s1)(2 := at_l2 L OR DESC_TABLE)\<rparr>;
          s3 = s2\<lparr>hx_l2 := (hx_l2 s2)(0 := at_l3 L OR DESC_TABLE)\<rparr>;
          s4 = fold (\<lambda>i s. s\<lparr>hx_l3 := (hx_l3 s)(i := ram_desc i)\<rparr>) [0..<ENTRIES] s3
      in s4\<lparr>hx_l3 := (hx_l3 s4)(test_slot L := test_desc L hw_updates)\<rparr>)"

definition put_reg :: "'d machine \<Rightarrow> string \<Rightarrow> u64 \<Rightarrow> 'd harness \<Rightarrow> 'd harness option" where
  "put_reg M name val s0 = do {
     s1 \<leftarrow> uart_puts M ''harness: '' s0;
     s2 \<leftarrow> uart_puts M name s1;
     s3 \<leftarrow> uart_puts M '' '' s2;
     s4 \<leftarrow> uart_puthex64 M val s3;
     uart_puts M [NL] s4
   }"

definition report_mmu_regs :: "'d machine \<Rightarrow> 'd cpu \<Rightarrow> 'd harness \<Rightarrow> 'd harness option" where
  "report_mmu_regs M C s =
     (let (mmfr1, s1) = mrs C ID_AA64MMFR1 s;
          (tcr, s2) = mrs C TCR s1;
          (sctlr, s3) = mrs C SCTLR s2
      in put_reg M ''ID_AA64MMFR1_EL1'' mmfr1 s3 \<bind> put_reg M ''TCR_EL1'' tcr \<bind> put_reg M ''SCTLR_EL1'' sctlr)"

definition tcr_value :: "bool \<Rightarrow> u64" where
  "tcr_value hw_updates = 25 OR 0x100 OR 0x400 OR 0x3000 OR 0x800000 OR 0x200000000
     OR (if hw_updates then 0x8000000000 OR 0x10000000000 else 0)"

definition mmu_on :: "'d machine \<Rightarrow> 'd cpu \<Rightarrow> hx_layout \<Rightarrow> bool \<Rightarrow> 'd harness \<Rightarrow> 'd harness option" where
  "mmu_on M C L hw_updates s =
     (let s1 = build_page_tables L hw_updates s;
          s2 = fold op [Barrier ''dsb ish'', Msr MAIR 0xff00, Msr TCR (tcr_value hw_updates), Msr TTBR0 (at_l1 L), Barrier ''isb'',
                        Tlbi ''vmalle1'' 0, Barrier ''dsb nsh'', Barrier ''isb''] s1;
          (sctlr, s3) = mrs C SCTLR s2;
          s4 = fold op [Msr SCTLR (sctlr OR 0x1 OR 0x4 OR 0x1000), Barrier ''isb''] s3
      in uart_puts M ''harness: MMU on, identity map, hardware AF and dirty updates '' s4
           \<bind> uart_puts M (if hw_updates then ''on'' @ [NL] else ''off'' @ [NL]) \<bind> report_mmu_regs M C)"

section \<open>The lab modes\<close>

text \<open>
  Modes 1 to 7 loop for ever: the loops run for \<open>n\<close> reports here, and \<open>lab_run\<close> says whether it returned.  Pending interrupts
  are taken before each iteration.
\<close>

definition TLBI_REPORT_EVERY :: nat where "TLBI_REPORT_EVERY = 1000000"
definition WALK_REPORT_EVERY :: nat where "WALK_REPORT_EVERY = 100000"

record walk =
  wk_hw_updates :: bool
  wk_broadcast :: bool

definition report :: "'d machine \<Rightarrow> u64 \<Rightarrow> u64 \<Rightarrow> string \<Rightarrow> 'd harness \<Rightarrow> 'd harness option" where
  "report M mode finished what s0 = do {
     s1 \<leftarrow> uart_puts M ''harness mode '' s0;
     s2 \<leftarrow> uart_putdec M mode s1;
     s3 \<leftarrow> uart_puts M '': '' s2;
     s4 \<leftarrow> uart_putdec M finished s3;
     s5 \<leftarrow> uart_puts M what s4;
     s6 \<leftarrow> uart_puts M '', timer irqs '' s5;
     s7 \<leftarrow> uart_putdec M (hx_timer_irqs s6) s6;
     s8 \<leftarrow> uart_puts M '', spurious '' s7;
     s9 \<leftarrow> uart_putdec M (hx_spurious s8) s8;
     uart_puts M [NL] s9
   }"

definition tlbi_round :: "'d cpu \<Rightarrow> 'd harness \<Rightarrow> 'd harness" where
  "tlbi_round C s = fold op [Tlbi ''vaale1is'' 0, Barrier ''dsb ish''] (take_irqs C s)"

fun tlbi_reports :: "'d machine \<Rightarrow> 'd cpu \<Rightarrow> u64 \<Rightarrow> nat \<Rightarrow> u64 \<Rightarrow> 'd harness \<Rightarrow> 'd harness option" where
  "tlbi_reports M C mode 0 finished s = Some s"
| "tlbi_reports M C mode (Suc n) finished s =
     (let s1 = (tlbi_round C ^^ TLBI_REPORT_EVERY) s;
          finished1 = finished + of_nat TLBI_REPORT_EVERY
      in report M mode finished1 '' broadcast tlbi'' s1 \<bind> tlbi_reports M C mode n finished1)"

definition invalidate_page :: "u64 \<Rightarrow> bool \<Rightarrow> 'd harness \<Rightarrow> 'd harness" where
  "invalidate_page va_page broadcast s =
     (if broadcast then fold op [Barrier ''dsb ishst'', Tlbi ''vaale1is'' va_page, Barrier ''dsb ish'', Barrier ''isb''] s
      else fold op [Barrier ''dsb nshst'', Tlbi ''vaale1'' va_page, Barrier ''dsb nsh'', Barrier ''isb''] s)"

text \<open>The read-modify-write of \<open>test_page[0]\<close> walks the tables; a fault ends in \<open>lab_bad_exception\<close>, which never returns.\<close>

definition touch_test_page :: "'d cpu \<Rightarrow> hx_layout \<Rightarrow> 'd harness \<Rightarrow> 'd harness option" where
  "touch_test_page C L s =
     (case cpu_touch C (hx_l3 s (test_slot L)) (io_dev s) of
        (None, d) \<Rightarrow> None
      | (Some desc, d) \<Rightarrow> Some (s\<lparr>io_dev := d, hx_l3 := (hx_l3 s)(test_slot L := desc), hx_test := hx_test s + 1\<rparr>))"

definition walk_round :: "'d cpu \<Rightarrow> hx_layout \<Rightarrow> walk \<Rightarrow> u64 \<Rightarrow> 'd harness \<Rightarrow> 'd harness option" where
  "walk_round C L w va_page s =
     (let s1 = take_irqs C s;
          s2 = s1\<lparr>hx_l3 := (hx_l3 s1)(test_slot L := test_desc L (wk_hw_updates w))\<rparr>
      in touch_test_page C L (invalidate_page va_page (wk_broadcast w) s2))"

definition report_hw_update :: "'d machine \<Rightarrow> hx_layout \<Rightarrow> 'd harness \<Rightarrow> 'd harness option" where
  "report_hw_update M L s =
     (let desc = hx_l3 s (test_slot L)
      in put_reg M ''test page descriptor'' desc s
           \<bind> uart_puts M (if desc AND DESC_AF \<noteq> 0 \<and> desc AND DESC_AP_RO = 0
                            then ''harness: hardware set AF and cleared the read-only bit'' @ [NL]
                            else ''harness: FAIL: the descriptor was not updated by hardware'' @ [NL]))"

fun walk_reports :: "'d machine \<Rightarrow> 'd cpu \<Rightarrow> hx_layout \<Rightarrow> u64 \<Rightarrow> walk \<Rightarrow> nat \<Rightarrow> u64 \<Rightarrow> 'd harness \<Rightarrow> 'd harness option" where
  "walk_reports M C L mode w 0 finished s = Some s"
| "walk_reports M C L mode w (Suc n) finished s = do {
     s1 \<leftarrow> for_each (\<lambda>_. walk_round C L w (drop_bit 12 (at_test_page L))) [0..<WALK_REPORT_EVERY] s;
     s2 \<leftarrow> (if finished = 0 \<and> wk_hw_updates w then report_hw_update M L s1 else Some s1);
     let finished1 = finished + of_nat WALK_REPORT_EVERY;
     s3 \<leftarrow> report M mode finished1 '' pte resets + tlbi + touch'' s2;
     walk_reports M C L mode w n finished1 s3
   }"

definition walk_forever :: "'d machine \<Rightarrow> 'd cpu \<Rightarrow> hx_layout \<Rightarrow> u64 \<Rightarrow> walk \<Rightarrow> nat \<Rightarrow> 'd harness \<Rightarrow> 'd harness option" where
  "walk_forever M C L mode w n s =
     uart_puts M (if wk_broadcast w then ''harness: broadcast tlbi'' @ [NL] else ''harness: local tlbi'' @ [NL]) s
       \<bind> walk_reports M C L mode w n 0"

definition walk_with :: "'d machine \<Rightarrow> 'd cpu \<Rightarrow> hx_layout \<Rightarrow> u64 \<Rightarrow> bool \<Rightarrow> bool \<Rightarrow> bool \<Rightarrow> nat \<Rightarrow> 'd harness \<Rightarrow> 'd harness option" where
  "walk_with M C L mode timer hw_updates broadcast n s = do {
     s1 \<leftarrow> mmu_on M C L hw_updates s;
     s2 \<leftarrow> (if timer then timer_irqs_on M C L s1 else Some s1);
     walk_forever M C L mode \<lparr>wk_hw_updates = hw_updates, wk_broadcast = broadcast\<rparr> n s2
   }"

text \<open>\<open>False\<close>: still in its loop after \<open>n\<close> reports.\<close>

definition in_loop :: "'d harness option \<Rightarrow> (bool \<times> 'd harness) option" where
  "in_loop r = r \<bind> (\<lambda>s. Some (False, s))"

definition lab_run :: "'d machine \<Rightarrow> 'd cpu \<Rightarrow> hx_layout \<Rightarrow> nat \<Rightarrow> u64 \<Rightarrow> 'd harness \<Rightarrow> (bool \<times> 'd harness) option" where
  "lab_run M C L n mode s0 = do {
     s1 \<leftarrow> uart_puts M ''harness mode '' s0;
     s2 \<leftarrow> uart_putdec M mode s1;
     s \<leftarrow> uart_puts M [NL] s2;
     if mode = 1 then in_loop (tlbi_reports M C mode n 0 s)
     else if mode = 2 then in_loop (timer_irqs_on M C L s \<bind> tlbi_reports M C mode n 0)
     else if mode = 3 then in_loop (walk_with M C L mode False True True n s)
     else if mode = 4 then in_loop (walk_with M C L mode True True True n s)
     else if mode = 5 then in_loop (walk_with M C L mode True False True n s)
     else if mode = 6 then in_loop (walk_with M C L mode True True False n s)
     else if mode = 7 then in_loop (walk_with M C L mode True False False n s)
     else uart_puts M (''harness: unknown mode; modes are 1 to 7'' @ [NL]) s \<bind> (\<lambda>s. Some (True, s))
   }"

definition harness_main :: "'d machine \<Rightarrow> 'd cpu \<Rightarrow> hx_layout \<Rightarrow> nat \<Rightarrow> u64 \<Rightarrow> 'd harness \<Rightarrow> (bool \<times> 'd harness) option" where
  "harness_main M C L n mode s = do {
     s1 \<leftarrow> uart_puts M (''hello'' @ [NL]) s;
     (returned, s2) \<leftarrow> (if mode \<noteq> 0 then lab_run M C L n mode s1 else Some (True, s1));
     if returned then regression M C s2 \<bind> (\<lambda>s. Some (True, s)) else Some (False, s2)
   }"

end
