(* ===== verification/Harness_Run.thy ===== *)
theory Harness_Run
  imports Harness
begin

text \<open>
  The test guest at work: what it prints and calls in a regression run, and the address translation its page tables define.
\<close>

section \<open>Output\<close>

abbreviation (input) UTRSTAT_GPA :: u64 where "UTRSTAT_GPA \<equiv> 0x10870010"
abbreviation (input) UTXH_GPA :: u64 where "UTXH_GPA \<equiv> 0x10870020"
abbreviation (input) WTCON_GPA :: u64 where "WTCON_GPA \<equiv> 0x10060000"

text \<open>The characters a run stored to the transmit register, and its reads of the watchdog.\<close>

fun sent_char :: "access \<Rightarrow> string" where
  "sent_char (Write32 a v) = (if a = UTXH_GPA then [char_of (unat v)] else [])"
| "sent_char _ = []"

definition sent :: "'d harness \<Rightarrow> string" where
  "sent s = concat (map sent_char (io_log s))"

definition watchdog_reads :: "'d harness \<Rightarrow> access list" where
  "watchdog_reads s = filter (\<lambda>a. access_addr a = WTCON_GPA) (io_log s)"

text \<open>A transmitter that drains: from any device state the polled status is ready after finitely many reads.\<close>

definition uart_drains :: "'d machine \<Rightarrow> bool" where
  "uart_drains M \<longleftrightarrow> (\<forall>d. \<exists>n. nth_read M UTRSTAT_GPA n d AND EXYNOS_UART_UTRSTAT_TXFE \<noteq> 0)"

text \<open>Printing a text touches the UART only.\<close>

definition prints :: "string \<Rightarrow> 'd harness \<Rightarrow> 'd harness \<Rightarrow> bool" where
  "prints t s s' \<longleftrightarrow> (\<exists>d as. s' = s\<lparr>io_dev := d, io_log := io_log s @ as\<rparr> \<and> concat (map sent_char as) = t
     \<and> (\<forall>a\<in>set as. access_addr a \<in> {UTRSTAT_GPA, UTXH_GPA}))"

lemma prints_fields:
  assumes "prints t s s'"
  shows "sent s' = sent s @ t \<and> watchdog_reads s' = watchdog_reads s \<and> hx_ops s' = hx_ops s \<and> hx_l1 s' = hx_l1 s \<and> hx_l2 s' = hx_l2 s
    \<and> hx_l3 s' = hx_l3 s"
proof -
  obtain d as where as: "s' = s\<lparr>io_dev := d, io_log := io_log s @ as\<rparr>" "concat (map sent_char as) = t"
      "\<forall>a\<in>set as. access_addr a \<in> {UTRSTAT_GPA, UTXH_GPA}"
    using assms unfolding prints_def by blast
  have "filter (\<lambda>a. access_addr a = WTCON_GPA) as = []" using as(3) by (auto simp: filter_empty_conv)
  then show ?thesis using as(1,2) by (simp add: sent_def watchdog_reads_def)
qed

lemma prints_trans: "prints t s s1 \<Longrightarrow> prints u s1 s2 \<Longrightarrow> prints (t @ u) s s2"
proof -
  assume "prints t s s1" and "prints u s1 s2"
  then obtain d as d' as' where a: "s1 = s\<lparr>io_dev := d, io_log := io_log s @ as\<rparr>" "concat (map sent_char as) = t"
      "\<forall>a\<in>set as. access_addr a \<in> {UTRSTAT_GPA, UTXH_GPA}"
    and b: "s2 = s1\<lparr>io_dev := d', io_log := io_log s1 @ as'\<rparr>" "concat (map sent_char as') = u"
      "\<forall>a\<in>set as'. access_addr a \<in> {UTRSTAT_GPA, UTXH_GPA}"
    unfolding prints_def by blast
  have "s2 = s\<lparr>io_dev := d', io_log := io_log s @ (as @ as')\<rparr>" using a(1) b(1) by simp
  then show ?thesis unfolding prints_def using a(2,3) b(2,3) by (intro exI [of _ d'] exI [of _ "as @ as'"]) auto
qed

lemma putc_prints:
  assumes "uart_drains M"
  shows "\<exists>s'. uart_putc M c s = Some s' \<and> prints [c] s s'"
proof -
  have reg: "HARNESS_UART_GPA + EXYNOS_UART_UTRSTAT = UTRSTAT_GPA" "HARNESS_UART_GPA + EXYNOS_UART_UTXH = UTXH_GPA" by simp_all
  obtain n where "nth_read M UTRSTAT_GPA n (io_dev s) AND EXYNOS_UART_UTRSTAT_TXFE \<noteq> 0"
    using assms by (auto simp: uart_drains_def)
  then obtain s1 where s1: "poll M UTRSTAT_GPA (\<lambda>v. v AND EXYNOS_UART_UTRSTAT_TXFE \<noteq> 0) s = Some s1"
    using poll_returns [of "\<lambda>v. v AND EXYNOS_UART_UTRSTAT_TXFE \<noteq> 0"] by blast
  obtain as d where as: "s1 = s\<lparr>io_dev := d, io_log := io_log s @ as\<rparr>"
      "polled UTRSTAT_GPA (\<lambda>v. v AND EXYNOS_UART_UTRSTAT_TXFE \<noteq> 0) as" using poll_log [OF s1] by blast
  have quiet: "concat (map sent_char as) = []" "\<forall>a\<in>set as. access_addr a = UTRSTAT_GPA"
    using as(2) by (auto simp: polled_def)
  let ?v = "of_nat (of_char c) :: u32"
  have "write32 M UTXH_GPA ?v s1
      = s\<lparr>io_dev := mc_write32 M UTXH_GPA ?v d, io_log := io_log s @ (as @ [Write32 UTXH_GPA ?v])\<rparr>"
    by (simp add: write32_def as(1))
  then have "prints [c] s (write32 M UTXH_GPA ?v s1)"
    unfolding prints_def using quiet by (intro exI [of _ "mc_write32 M UTXH_GPA ?v d"] exI [of _ "as @ [Write32 UTXH_GPA ?v]"]) simp
  then show ?thesis using s1 by (simp add: uart_putc_def reg)
qed

lemma prints_nothing: "prints [] s s"
proof -
  have "s = s\<lparr>io_dev := io_dev s, io_log := io_log s @ []\<rparr>" by simp
  then show ?thesis unfolding prints_def by (intro exI [of _ "io_dev s"] exI [of _ "[]"]) simp
qed

section \<open>Printing by characters\<close>

text \<open>
  What the guest's output routines use of the machine: while it is \<open>ready\<close>, a character can be sent, with an effect \<open>did\<close> that adds up.
\<close>

definition hex32 :: "u32 \<Rightarrow> string" where
  "hex32 v = ''0x'' @ hex_nibbles (ucast v) 8"

definition lab_preamble :: "u64 \<Rightarrow> string" where
  "lab_preamble mode = (if mode = 0 then [] else ''harness mode '' @ put_dec mode @ [NL] @ ''harness: unknown mode; modes are 1 to 7'' @ [NL])"

locale text_port =
  fixes M :: "'d machine" and ready :: "'d harness \<Rightarrow> bool" and did :: "string \<Rightarrow> 'd harness \<Rightarrow> 'd harness \<Rightarrow> bool"
  assumes putc: "ready s \<Longrightarrow> \<exists>s'. uart_putc M c s = Some s' \<and> did [c] s s'"
    and unsent: "ready s \<Longrightarrow> did [] s s"
    and keeps: "did t s s' \<Longrightarrow> ready s \<Longrightarrow> ready s'"
    and adds: "did t s s1 \<Longrightarrow> did u s1 s2 \<Longrightarrow> did (t @ u) s s2"
begin

lemma puts: "ready s \<Longrightarrow> \<exists>s'. uart_puts M t s = Some s' \<and> did t s s'"
proof (induction t arbitrary: s)
  case Nil
  then show ?case using unsent [OF Nil] by (simp add: uart_puts_def)
next
  case (Cons c t)
  obtain s1 where s1: "uart_putc M c s = Some s1" "did [c] s s1" using putc [OF Cons.prems] by blast
  obtain s2 where s2: "uart_puts M t s1 = Some s2" "did t s1 s2" using Cons.IH [OF keeps [OF s1(2) Cons.prems]] by blast
  have "did (c # t) s s2" using adds [OF s1(2) s2(2)] by simp
  then show ?case using s1 s2 by (simp add: uart_puts_def)
qed

lemma puts_puts:
  assumes "ready s"
  shows "\<exists>s'. uart_puts M t s \<bind> uart_puts M u = Some s' \<and> did (t @ u) s s'"
proof -
  obtain s1 where s1: "uart_puts M t s = Some s1" "did t s s1" using puts [OF assms] by blast
  obtain s2 where s2: "uart_puts M u s1 = Some s2" "did u s1 s2" using puts [OF keeps [OF s1(2) assms]] by blast
  then show ?thesis using s1(1) adds [OF s1(2) s2(2)] by simp
qed

lemma puthex32: "ready s \<Longrightarrow> \<exists>s'. uart_puthex32 M v s = Some s' \<and> did (hex32 v) s s'"
  unfolding uart_puthex32_def uart_puthex_def hex32_def by (rule puts_puts)

lemma hex_line:
  assumes "ready s"
  shows "\<exists>s'. uart_puthex32 M v s \<bind> uart_puts M [NL] \<bind> uart_puts M u = Some s' \<and> did (hex32 v @ [NL] @ u) s s'"
proof -
  obtain s1 where s1: "uart_puthex32 M v s = Some s1" "did (hex32 v) s s1" using puthex32 [OF assms] by blast
  obtain s2 where s2: "uart_puts M [NL] s1 \<bind> uart_puts M u = Some s2" "did ([NL] @ u) s1 s2" using puts_puts [OF keeps [OF s1(2) assms]] by blast
  then show ?thesis using s1(1) adds [OF s1(2) s2(2)] by simp
qed

lemma unknown_mode:
  assumes "ready s" and "7 < mode"
  shows "\<exists>s'. lab_run M C L n mode s = Some (True, s') \<and> did (lab_preamble mode) s s'"
proof -
  have ne: "mode \<noteq> 0" "mode \<noteq> 1" "mode \<noteq> 2" "mode \<noteq> 3" "mode \<noteq> 4" "mode \<noteq> 5" "mode \<noteq> 6" "mode \<noteq> 7" using assms(2) by auto
  obtain s2 where 2: "uart_puts M ''harness mode '' s \<bind> uart_puts M (put_dec mode) = Some s2" "did (''harness mode '' @ put_dec mode) s s2"
    using puts_puts [OF assms(1)] by blast
  note r2 = keeps [OF 2(2) assms(1)]
  obtain s4 where 4: "uart_puts M [NL] s2 \<bind> uart_puts M (''harness: unknown mode; modes are 1 to 7'' @ [NL]) = Some s4"
      "did ([NL] @ ''harness: unknown mode; modes are 1 to 7'' @ [NL]) s2 s4" using puts_puts [OF r2] by blast
  have "lab_run M C L n mode s = Some (True, s4)"
    using 2(1) 4(1) unfolding lab_run_def uart_putdec_def by (auto simp: ne bind_eq_Some_conv)
  moreover have "did (lab_preamble mode) s s4" using adds [OF 2(2) 4(2)] ne(1) unfolding lab_preamble_def by simp
  ultimately show ?thesis by blast
qed

end

text \<open>The machine of any UART that drains.\<close>

interpretation drained: text_port M "\<lambda>s. uart_drains M" prints for M
  by unfold_locales (use putc_prints prints_nothing prints_trans in blast)+

section \<open>The regression run\<close>

definition regression_text :: "u32 \<Rightarrow> u64 \<Rightarrow> u64 \<Rightarrow> string" where
  "regression_text wtcon psci smccc = ''WTCON='' @ hex32 wtcon @ [NL] @ ''PSCI_VERSION='' @ hex32 (ucast psci) @ [NL]
     @ ''SMCCC_VERSION='' @ hex32 (ucast smccc) @ [NL] @ ''resumed'' @ [NL]"

lemma smc0_fields:
  "smc0 C f s = (x, s') \<Longrightarrow> hx_ops s' = hx_ops s @ [Smc0 f x] \<and> sent s' = sent s \<and> watchdog_reads s' = watchdog_reads s"
  by (auto simp: smc0_def op_def sent_def watchdog_reads_def Let_def split_beta)

lemma wtcon_fields:
  "read32 M (HARNESS_WATCHDOG_GPA + HARNESS_WATCHDOG_WTCON) s = (v, s') \<Longrightarrow>
   hx_ops s' = hx_ops s \<and> sent s' = sent s \<and> watchdog_reads s' = watchdog_reads s @ [Read32 WTCON_GPA v]"
  by (auto simp: read32_def sent_def watchdog_reads_def Let_def split_beta)

text \<open>The run as its device accesses and calls, with the text between them.\<close>

lemma regression_parts:
  "regression M C s = uart_puts M ''WTCON='' s \<bind> (\<lambda>s1. case read32 M (HARNESS_WATCHDOG_GPA + HARNESS_WATCHDOG_WTCON) s1 of (w, s2) \<Rightarrow>
     (uart_puthex32 M w s2 \<bind> uart_puts M [NL] \<bind> uart_puts M ''PSCI_VERSION='') \<bind> (\<lambda>s5. case smc0 C PSCI_VERSION_FID s5 of (p, s6) \<Rightarrow>
     (uart_puthex32 M (ucast p) s6 \<bind> uart_puts M [NL] \<bind> uart_puts M ''SMCCC_VERSION='') \<bind> (\<lambda>s9. case smc0 C SMCCC_VERSION_FID s9 of (q, s10) \<Rightarrow>
     (uart_puthex32 M (ucast q) s10 \<bind> uart_puts M [NL] \<bind> uart_puts M []) \<bind> (\<lambda>s12. case smc0 C HARNESS_UNHANDLED_SMC_FID s12 of (u, s13) \<Rightarrow>
     uart_puts M (''resumed'' @ [NL]) s13))))"
  by (simp add: regression_def uart_puts_def Let_def split_beta)

lemma regression_runs:
  assumes drains: "uart_drains M"
  shows "\<exists>s' w p v u. regression M C s = Some s' \<and> sent s' = sent s @ regression_text w p v
    \<and> hx_ops s' = hx_ops s @ [Smc0 PSCI_VERSION_FID p, Smc0 SMCCC_VERSION_FID v, Smc0 HARNESS_UNHANDLED_SMC_FID u]
    \<and> watchdog_reads s' = watchdog_reads s @ [Read32 WTCON_GPA w]"
proof -
  note puts = drained.puts [OF drains] and line = drained.hex_line [OF drains]
  obtain s1 where 1: "uart_puts M ''WTCON='' s = Some s1" "prints ''WTCON='' s s1" using puts by blast
  obtain w s2 where 2: "read32 M (HARNESS_WATCHDOG_GPA + HARNESS_WATCHDOG_WTCON) s1 = (w, s2)" by fastforce
  obtain s5 where 5: "uart_puthex32 M w s2 \<bind> uart_puts M [NL] \<bind> uart_puts M ''PSCI_VERSION='' = Some s5"
      "prints (hex32 w @ [NL] @ ''PSCI_VERSION='') s2 s5" using line by blast
  obtain p s6 where 6: "smc0 C PSCI_VERSION_FID s5 = (p, s6)" by fastforce
  obtain s9 where 9: "uart_puthex32 M (ucast p) s6 \<bind> uart_puts M [NL] \<bind> uart_puts M ''SMCCC_VERSION='' = Some s9"
      "prints (hex32 (ucast p) @ [NL] @ ''SMCCC_VERSION='') s6 s9" using line by blast
  obtain v s10 where 10: "smc0 C SMCCC_VERSION_FID s9 = (v, s10)" by fastforce
  obtain s12 where 12: "uart_puthex32 M (ucast v) s10 \<bind> uart_puts M [NL] \<bind> uart_puts M [] = Some s12"
      "prints (hex32 (ucast v) @ [NL] @ []) s10 s12" using line by blast
  obtain u s13 where 13: "smc0 C HARNESS_UNHANDLED_SMC_FID s12 = (u, s13)" by fastforce
  obtain s14 where 14: "uart_puts M (''resumed'' @ [NL]) s13 = Some s14" "prints (''resumed'' @ [NL]) s13 s14" using puts by blast
  have "regression M C s = Some s14" unfolding regression_parts by (simp only: 1 2 5 6 9 10 12 13 14 bind.bind_lunit prod.case)
  moreover note fields = prints_fields [OF 1(2)] wtcon_fields [OF 2] prints_fields [OF 5(2)] smc0_fields [OF 6] prints_fields [OF 9(2)]
    smc0_fields [OF 10] prints_fields [OF 12(2)] smc0_fields [OF 13] prints_fields [OF 14(2)]
  have "sent s14 = sent s @ regression_text w p v" by (simp only: fields regression_text_def append_assoc append_Nil2)
  moreover have "hx_ops s14 = hx_ops s @ [Smc0 PSCI_VERSION_FID p, Smc0 SMCCC_VERSION_FID v, Smc0 HARNESS_UNHANDLED_SMC_FID u]"
    by (simp only: fields append_assoc append.simps)
  moreover have "watchdog_reads s14 = watchdog_reads s @ [Read32 WTCON_GPA w]" by (simp only: fields)
  ultimately show ?thesis by blast
qed

lemma lab_run_loops:
  assumes "mode \<in> {1..7}" and "lab_run M C L n mode s = Some (b, s')"
  shows "\<not> b"
proof -
  have "unat mode \<in> {1..7}" using assms(1) by (simp add: word_le_nat_alt)
  then have "unat mode = 1 \<or> unat mode = 2 \<or> unat mode = 3 \<or> unat mode = 4 \<or> unat mode = 5 \<or> unat mode = 6 \<or> unat mode = 7"
    by (simp only: atLeastAtMost_iff) linarith
  then have "mode = 1 \<or> mode = 2 \<or> mode = 3 \<or> mode = 4 \<or> mode = 5 \<or> mode = 6 \<or> mode = 7"
    using word_of_unat [of mode] by fastforce
  then show ?thesis using assms(2) unfolding lab_run_def in_loop_def by (elim disjE) (auto split: bind_splits)
qed

text \<open>
  C38. With a UART that drains, the guest prints its greeting, the regression text with the value it read from the watchdog and the
  answers of its two version calls, and makes exactly three calls, in order; a mode above 7 adds the message about it.  In modes 1 to
  7 it never gets to the regression run.
\<close>

theorem harness_main_spec:
  assumes drains: "uart_drains M"
  shows "(mode = 0 \<or> 7 < mode \<longrightarrow> (\<exists>s' w p v u. harness_main M C L n mode s = Some (True, s')
        \<and> sent s' = sent s @ ''hello'' @ [NL] @ lab_preamble mode @ regression_text w p v
        \<and> hx_ops s' = hx_ops s @ [Smc0 PSCI_VERSION_FID p, Smc0 SMCCC_VERSION_FID v, Smc0 HARNESS_UNHANDLED_SMC_FID u]
        \<and> watchdog_reads s' = watchdog_reads s @ [Read32 WTCON_GPA w]))
    \<and> (mode \<in> {1..7} \<longrightarrow> (\<forall>b s'. harness_main M C L n mode s = Some (b, s') \<longrightarrow> \<not> b))"
proof -
  obtain s1 where s1: "uart_puts M (''hello'' @ [NL]) s = Some s1" "prints (''hello'' @ [NL]) s s1"
    using drained.puts [OF drains] by blast
  show ?thesis
  proof (intro conjI impI)
    assume mode: "mode = 0 \<or> 7 < mode"
    obtain s2 where s2: "(if mode \<noteq> 0 then lab_run M C L n mode s1 else Some (True, s1)) = Some (True, s2)"
        "sent s2 = sent s1 @ lab_preamble mode" "hx_ops s2 = hx_ops s1" "watchdog_reads s2 = watchdog_reads s1"
    proof (cases "mode = 0")
      case True
      then show ?thesis using that [of s1] by (simp add: lab_preamble_def)
    next
      case False
      then obtain s2 where s2: "lab_run M C L n mode s1 = Some (True, s2)" "prints (lab_preamble mode) s1 s2"
        using drained.unknown_mode [OF drains, of mode C L n s1] mode by blast
      then show ?thesis using that [of s2] False prints_fields [OF s2(2)] by simp
    qed
    obtain s' w p v u where s': "regression M C s2 = Some s'" "sent s' = sent s2 @ regression_text w p v"
        "hx_ops s' = hx_ops s2 @ [Smc0 PSCI_VERSION_FID p, Smc0 SMCCC_VERSION_FID v, Smc0 HARNESS_UNHANDLED_SMC_FID u]"
        "watchdog_reads s' = watchdog_reads s2 @ [Read32 WTCON_GPA w]"
      using regression_runs [OF drains, of C s2] by blast
    have "harness_main M C L n mode s = Some (True, s')"
      unfolding harness_main_def by (simp only: s1 s2 s' bind.bind_lunit prod.case if_True)
    moreover have "sent s' = sent s @ ''hello'' @ [NL] @ lab_preamble mode @ regression_text w p v"
      using s'(2) s2(2) prints_fields [OF s1(2)] by simp
    ultimately show "\<exists>s' w p v u. harness_main M C L n mode s = Some (True, s')
        \<and> sent s' = sent s @ ''hello'' @ [NL] @ lab_preamble mode @ regression_text w p v
        \<and> hx_ops s' = hx_ops s @ [Smc0 PSCI_VERSION_FID p, Smc0 SMCCC_VERSION_FID v, Smc0 HARNESS_UNHANDLED_SMC_FID u]
        \<and> watchdog_reads s' = watchdog_reads s @ [Read32 WTCON_GPA w]"
      using s'(3,4) s2(3,4) prints_fields [OF s1(2)]
      by (intro exI [of _ s'] exI [of _ w] exI [of _ p] exI [of _ v] exI [of _ u]) simp
  next
    assume mode: "mode \<in> {1..7}"
    show "\<forall>b s'. harness_main M C L n mode s = Some (b, s') \<longrightarrow> \<not> b"
    using lab_run_loops [OF mode, of M C L n s1] mode s1(1) by (auto simp: harness_main_def split: bind_splits if_splits)
  qed
qed

text \<open>A UART that is always ready and a firmware that answers 1.\<close>

definition ready_uart :: "unit machine" where
  "ready_uart = \<lparr>mc_read32 = (\<lambda>a d. (EXYNOS_UART_UTRSTAT_TXFE, d)), mc_write32 = (\<lambda>_ _ d. d), mc_read64 = (\<lambda>_ d. (0, d)),
     mc_cntpct = (\<lambda>d. (0, d)), mc_cntfrq = 1\<rparr>"

definition quiet_cpu :: "unit cpu" where
  "quiet_cpu = \<lparr>cpu_smc = (\<lambda>_ d. (1, d)), cpu_mrs = (\<lambda>_ d. (0, d)), cpu_touch = (\<lambda>x d. (Some x, d)), cpu_irqs = (\<lambda>d. (0, d))\<rparr>"

definition ram_layout :: hx_layout where
  "ram_layout = \<lparr>at_vectors = 0x80000800, at_l1 = 0x80004000, at_l2 = 0x80005000, at_l3 = 0x80006000, at_test_page = 0x80007000\<rparr>"

lemma ready_uart_drains: "uart_drains ready_uart"
  unfolding uart_drains_def by (intro allI exI [of _ 0]) (simp add: ready_uart_def)

lemma harness_main_spec_witness:
  "\<exists>s' w p v u. harness_main ready_uart quiet_cpu ram_layout 3 0 (harness_boot ()) = Some (True, s')
     \<and> sent s' = ''hello'' @ [NL] @ regression_text w p v
     \<and> hx_ops s' = [Smc0 PSCI_VERSION_FID p, Smc0 SMCCC_VERSION_FID v, Smc0 HARNESS_UNHANDLED_SMC_FID u]"
proof -
  have "sent (harness_boot () :: unit harness) = []" "hx_ops (harness_boot ()) = []" by (simp_all add: sent_def harness_boot_def)
  then show ?thesis
    using harness_main_spec [OF ready_uart_drains, of 0 quiet_cpu ram_layout 3 "harness_boot ()"]
    by (simp add: lab_preamble_def) blast
qed

end
