(* ===== verification/Harness_Tables.thy ===== *)
theory Harness_Tables
  imports Harness_Run
begin

text \<open>
  The address translation the tables of \<^verbatim>\<open>lab.c\<close> define, as the architecture's table walk (VMSAv8-64, 4 KiB granule,
  39-bit addresses: the walk starts at level 1).  The hardware is specified by \<open>translate\<close>; the property is that
  \<open>build_page_tables\<close> makes it the identity on the devices and on the guest's RAM, and a fault elsewhere.
\<close>

section \<open>The table walk\<close>

definition desc_addr :: "u64 \<Rightarrow> u64" where
  "desc_addr d = d AND 0xFFFFFFFFF000"

definition table_at :: "hx_layout \<Rightarrow> 'd harness \<Rightarrow> u64 \<Rightarrow> (nat \<Rightarrow> u64) option" where
  "table_at L s a =
     (if a = at_l1 L then Some (hx_l1 s) else if a = at_l2 L then Some (hx_l2 s) else if a = at_l3 L then Some (hx_l3 s) else None)"

definition walk_l3 :: "(nat \<Rightarrow> u64) \<Rightarrow> nat \<Rightarrow> (nat \<times> u64) option" where
  "walk_l3 t va = (let d = t (va div 2 ^ 12 mod 512) in if d AND 3 = 3 then Some (unat (desc_addr d) + va mod 2 ^ 12, d) else None)"

definition walk_l2 :: "hx_layout \<Rightarrow> 'd harness \<Rightarrow> (nat \<Rightarrow> u64) \<Rightarrow> nat \<Rightarrow> (nat \<times> u64) option" where
  "walk_l2 L s t va =
     (let d = t (va div 2 ^ 21 mod 512)
      in if d AND 1 = 0 then None
         else if d AND 2 = 0 then Some (unat (d AND 0xFFFFFFE00000) + va mod 2 ^ 21, d)
         else table_at L s (desc_addr d) \<bind> (\<lambda>t. walk_l3 t va))"

definition translate :: "hx_layout \<Rightarrow> 'd harness \<Rightarrow> nat \<Rightarrow> (nat \<times> u64) option" where
  "translate L s va =
     (if 2 ^ 39 \<le> va then None
      else let d = hx_l1 s (va div 2 ^ 30)
           in if d AND 1 = 0 then None
              else if d AND 2 = 0 then Some (unat (d AND 0xFFFFC0000000) + va mod 2 ^ 30, d)
              else table_at L s (desc_addr d) \<bind> (\<lambda>t. walk_l2 L s t va))"

section \<open>Where the linker may place the tables\<close>

definition ram_page :: "u64 \<Rightarrow> bool" where
  "ram_page a \<longleftrightarrow> a AND 0xFFF = 0 \<and> HARNESS_RAM_GPA \<le> a \<and> a < 0x80200000"

definition layout_ok :: "hx_layout \<Rightarrow> bool" where
  "layout_ok L \<longleftrightarrow> ram_page (at_l1 L) \<and> ram_page (at_l2 L) \<and> ram_page (at_l3 L) \<and> ram_page (at_test_page L)
     \<and> distinct [at_l1 L, at_l2 L, at_l3 L, at_test_page L]"

lemma page_offset: "unat (a AND 0xFFF) = unat a mod 4096" for a :: u64
proof -
  have "a AND 0xFFF = take_bit 12 a" by (simp only: take_bit_eq_mask mask_eq_exp_minus_1) simp
  then show ?thesis by (simp only: unsigned_take_bit_eq) (simp only: take_bit_eq_mod, simp)
qed

lemma desc_addr_page:
  assumes "a AND 0xFFF = 0" and "unat a < 2 ^ 48" and "f AND 0xFFFFFFFFF000 = 0"
  shows "desc_addr (a OR f) = a"
proof -
  have "unat (take_bit 48 a) = unat a" using assms(2) by (simp add: unsigned_take_bit_eq take_bit_nat_eq_self)
  then have "take_bit 48 a = a" by (simp only: word_unat_eq_iff)
  then have "a = a AND 0xFFFFFFFFFFFF" by (simp add: take_bit_eq_mask mask_eq_exp_minus_1)
  also have "(0xFFFFFFFFFFFF :: u64) = 0xFFF OR 0xFFFFFFFFF000" by simp
  also have "a AND (0xFFF OR 0xFFFFFFFFF000) = a AND 0xFFFFFFFFF000" using assms(1) by (simp only: bit.conj_disj_distrib) simp
  finally show ?thesis using assms(3) by (simp add: desc_addr_def bit.conj_disj_distrib2)
qed

lemma ram_page_unat: "ram_page a \<Longrightarrow> unat a mod 4096 = 0 \<and> 0x80000000 \<le> unat a \<and> unat a < 0x80200000"
  using page_offset [of a] by (auto simp: ram_page_def word_le_nat_alt word_less_nat_alt)

lemma ram_desc_unat:
  assumes "i < 512"
  shows "unat (HARNESS_RAM_GPA + of_nat i * PAGE_SIZE) = 0x80000000 + i * 4096"
proof -
  have "HARNESS_RAM_GPA + of_nat i * PAGE_SIZE = (of_nat (0x80000000 + i * 4096) :: u64)" by simp
  moreover have "0x80000000 + i * 4096 < 2 ^ 64" using assms by simp
  ultimately show ?thesis by (simp only: unat_of_nat) simp
qed

lemma ram_desc_addr:
  assumes "i < 512"
  shows "unat (desc_addr (ram_desc i)) = 0x80000000 + i * 4096" and "ram_desc i AND 3 = 3"
proof -
  let ?a = "HARNESS_RAM_GPA + of_nat i * PAGE_SIZE" and ?f = "0x707 :: u64"
  have desc: "ram_desc i = ?a OR ?f" by (simp add: ram_desc_def DESC_ATTR_def or.assoc)
  have "unat (?a AND 0xFFF) = 0" unfolding page_offset ram_desc_unat [OF assms] by simp
  then have "?a AND 0xFFF = 0" by (simp only: unat_eq_0)
  then have "desc_addr (?a OR ?f) = ?a" using assms ram_desc_unat [OF assms] by (intro desc_addr_page) simp_all
  then show "unat (desc_addr (ram_desc i)) = 0x80000000 + i * 4096" using desc ram_desc_unat [OF assms] by simp
  have "(?a OR ?f) AND 3 = ?a AND 3 OR (?f AND 3)" by (rule bit.conj_disj_distrib2)
  moreover have "(x AND 3) OR 3 = (3 :: u64)" for x :: u64 by (simp add: or.commute)
  ultimately show "ram_desc i AND 3 = 3" using desc by simp
qed

lemma test_slot_eq: "ram_page (at_test_page L) \<Longrightarrow> test_slot L = (unat (at_test_page L) - 0x80000000) div 4096"
  by (simp add: test_slot_def unat_div unat_sub ram_page_def)

lemma test_desc_addr:
  assumes "ram_page (at_test_page L)"
  shows "desc_addr (test_desc L hw) = at_test_page L" and "test_desc L hw AND 3 = 3"
proof -
  let ?a = "at_test_page L" and ?f = "if hw then 0x8000000000387 else 0x707 :: u64"
  have desc: "test_desc L hw = ?a OR ?f" by (simp add: test_desc_def DESC_ATTR_def or.assoc)
  have "?a AND 0xFFF = 0" "unat ?a < 2 ^ 48" using assms ram_page_unat [OF assms] by (simp_all add: ram_page_def)
  then show "desc_addr (test_desc L hw) = ?a" unfolding desc by (intro desc_addr_page) simp_all
  have "(?a OR ?f) AND 3 = ?a AND 3 OR (?f AND 3)" by (rule bit.conj_disj_distrib2)
  moreover have "(x AND 3) OR 3 = (3 :: u64)" for x :: u64 by (simp add: or.commute)
  ultimately show "test_desc L hw AND 3 = 3" using desc by (cases hw) simp_all
qed

lemma table_desc:
  assumes "ram_page a"
  shows "desc_addr (a OR DESC_TABLE) = a" and "(a OR DESC_TABLE) AND 1 \<noteq> 0" and "(a OR DESC_TABLE) AND 2 \<noteq> 0"
proof -
  show "desc_addr (a OR DESC_TABLE) = a"
    using assms ram_page_unat [OF assms] by (intro desc_addr_page) (simp_all add: ram_page_def)
  have "bit (a OR DESC_TABLE) 0" "bit (a OR DESC_TABLE) 1" by (simp_all add: bit_or_iff)
  then have "bit ((a OR DESC_TABLE) AND 1) 0" "bit ((a OR DESC_TABLE) AND 2) 1" by (simp_all add: bit_and_iff)
  then show "(a OR DESC_TABLE) AND 1 \<noteq> 0" "(a OR DESC_TABLE) AND 2 \<noteq> 0" by force+
qed

section \<open>The tables\<close>

lemma fill_l3:
  "fold (\<lambda>i s. s\<lparr>hx_l3 := (hx_l3 s)(i := f i)\<rparr>) [0..<n] s = s\<lparr>hx_l3 := (\<lambda>i. if i < n then f i else hx_l3 s i)\<rparr>"
proof (induction n)
  case (Suc n)
  let ?F = "\<lambda>i s. s\<lparr>hx_l3 := (hx_l3 s)(i := f i)\<rparr>"
  have "(\<lambda>i. if i < n then f i else hx_l3 s i)(n := f n) = (\<lambda>i. if i < Suc n then f i else hx_l3 s i)"
    by (auto simp: fun_eq_iff less_Suc_eq)
  then have "?F n (s\<lparr>hx_l3 := (\<lambda>i. if i < n then f i else hx_l3 s i)\<rparr>) = s\<lparr>hx_l3 := (\<lambda>i. if i < Suc n then f i else hx_l3 s i)\<rparr>"
    by simp
  moreover have "fold ?F [0..<Suc n] s = ?F n (fold ?F [0..<n] s)" by simp
  ultimately show ?case unfolding Suc.IH by (rule trans [rotated])
qed simp

lemma built_tables:
  "build_page_tables L hw s = s\<lparr>hx_l1 := (hx_l1 s)(0 := device_desc, 2 := at_l2 L OR DESC_TABLE),
     hx_l2 := (hx_l2 s)(0 := at_l3 L OR DESC_TABLE),
     hx_l3 := (\<lambda>i. if i < 512 then ram_desc i else hx_l3 s i)(test_slot L := test_desc L hw)\<rparr>"
  by (simp add: build_page_tables_def fill_l3 Let_def cong: if_cong)

text \<open>The last level, for an address of the RAM.\<close>

definition ram_leaf :: "hx_layout \<Rightarrow> bool \<Rightarrow> nat \<Rightarrow> u64" where
  "ram_leaf L hw va = (if va div 4096 = unat (at_test_page L) div 4096 then test_desc L hw else ram_desc ((va - 0x80000000) div 4096))"

lemma walk_ram:
  assumes page: "ram_page (at_test_page L)" and va: "0x80000000 \<le> va" "va < 0x80200000"
  shows "walk_l3 ((\<lambda>i. if i < 512 then ram_desc i else t i)(test_slot L := test_desc L hw)) va = Some (va, ram_leaf L hw va)"
proof -
  have page_of: "(0x80000000 + w) div 4096 = 0x80000 + w div 4096" for w :: nat
    using div_plus_div_distrib_dvd_left [of 4096 "0x80000000" w] by simp
  define i where "i = (va - 0x80000000) div 4096"
  have i: "i < 512" "(va - 0x80000000) div 4096 = i" using va by (simp_all add: i_def less_mult_imp_div_less)
  have i': "va div 4096 = 0x80000 + i" using page_of [of "va - 0x80000000"] va(1) by (simp add: i_def)
  have slot: "va div 2 ^ 12 mod 512 = i" using i' i(1) mod_mult_self3 [of 1024 512 i] by simp
  define k where "k = (unat (at_test_page L) - 0x80000000) div 4096"
  have k: "unat (at_test_page L) div 4096 = 0x80000 + k" "test_slot L = k"
    using page_of [of "unat (at_test_page L) - 0x80000000"] ram_page_unat [OF page] test_slot_eq [OF page] by (simp_all add: k_def)
  have k': "unat (at_test_page L) = 0x80000000 + k * 4096"
    using div_mult_mod_eq [of "unat (at_test_page L)" 4096] k(1) ram_page_unat [OF page] by simp
  have va_eq: "va = 0x80000000 + i * 4096 + va mod 2 ^ 12" using i' div_mult_mod_eq [of va 4096] by simp
  have same: "va div 4096 = unat (at_test_page L) div 4096 \<longleftrightarrow> i = k" using i' k(1) by simp
  show ?thesis
  proof (cases "i = k")
    case True
    then show ?thesis
      using i slot k k' test_desc_addr [OF page, of hw] va_eq same by (simp add: walk_l3_def ram_leaf_def)
  next
    case False
    then show ?thesis
      using i slot k ram_desc_addr [OF i(1)] va_eq same by (simp add: walk_l3_def ram_leaf_def)
  qed
qed

lemma translate_ram_gigabyte:
  assumes layout: "layout_ok L" and zero: "hx_l2 s = (\<lambda>_. 0)" and gb: "va div 2 ^ 30 = 2"
  shows "translate L (build_page_tables L hw s) va = (if va < 0x80200000 then Some (va, ram_leaf L hw va) else None)"
proof -
  have pages: "ram_page (at_l2 L)" "ram_page (at_l3 L)" "ram_page (at_test_page L)"
    and ne: "at_l2 L \<noteq> at_l1 L" "at_l3 L \<noteq> at_l1 L" "at_l3 L \<noteq> at_l2 L" using layout by (auto simp: layout_ok_def)
  let ?t = "build_page_tables L hw s"
  have parts: "va = va div 2 ^ 30 * 2 ^ 30 + va mod 2 ^ 30" "va mod 2 ^ 30 < 2 ^ 30" by simp_all
  have va: "2 ^ 31 \<le> va" "va < 2 ^ 31 + 2 ^ 30" using gb parts by simp_all
  define w where "w = va - 2 ^ 31"
  have w: "va = 0x80000000 + w" "w < 2 ^ 30" using va by (simp_all add: w_def)
  have "va div 2 ^ 21 = 1024 + w div 2 ^ 21" using div_plus_div_distrib_dvd_left [of "2 ^ 21" "0x80000000" w] by (simp add: w(1))
  moreover have "w div 2 ^ 21 < 512" using w(2) by (simp add: less_mult_imp_div_less)
  ultimately have i2: "va div 2 ^ 21 mod 512 = w div 2 ^ 21" using mod_mult_self3 [of 2 512 "w div 2 ^ 21"] by simp
  have l2: "table_at L ?t (desc_addr (at_l2 L OR DESC_TABLE)) = Some (hx_l2 ?t)"
    using ne by (simp add: table_desc(1) [OF pages(1)] table_at_def)
  have tr: "translate L ?t va = walk_l2 L ?t (hx_l2 ?t) va"
    using gb va l2 table_desc(2,3) [OF pages(1)] by (simp add: translate_def built_tables)
  show ?thesis
  proof (cases "va < 0x80200000")
    case True
    then have i2: "va div 2 ^ 21 mod 512 = 0" using i2 w(1) by simp
    have l3: "table_at L ?t (desc_addr (at_l3 L OR DESC_TABLE)) = Some (hx_l3 ?t)"
      using ne by (simp add: table_desc(1) [OF pages(2)] table_at_def)
    have "walk_l2 L ?t (hx_l2 ?t) va = walk_l3 (hx_l3 ?t) va"
      using i2 l3 table_desc(2,3) [OF pages(2)] by (simp add: walk_l2_def built_tables)
    then show ?thesis using tr va True walk_ram [OF pages(3), of va "hx_l3 s" hw] by (simp add: built_tables)
  next
    case False
    then have "va div 2 ^ 21 mod 512 \<noteq> 0" using i2 w(1) by (simp add: div_eq_0_iff)
    then show ?thesis using tr va False zero by (simp add: walk_l2_def built_tables)
  qed
qed

text \<open>
  C39. After \<open>build_page_tables\<close> the table walk maps every address below 1 GiB to itself as a device, every address of the guest's
  2 MiB of RAM to itself as normal memory, the test page through the descriptor the lab resets, and nothing else.
\<close>

theorem page_tables_identity:
  assumes layout: "layout_ok L" and zero: "hx_l1 s = (\<lambda>_. 0)" "hx_l2 s = (\<lambda>_. 0)"
  shows "translate L (build_page_tables L hw s) va =
    (if va < 2 ^ 30 then Some (va, device_desc)
     else if 0x80000000 \<le> va \<and> va < 0x80200000 then Some (va, ram_leaf L hw va) else None)"
proof -
  consider "va < 2 ^ 30" | "va div 2 ^ 30 = 2" | "va div 2 ^ 30 \<noteq> 0" "va div 2 ^ 30 \<noteq> 2"
    by (cases "va div 2 ^ 30 = 0") (auto simp: div_eq_0_iff)
  then show ?thesis
  proof cases
    case 1
    then have "device_desc AND 1 \<noteq> 0" "device_desc AND 2 = 0" "device_desc AND 0xFFFFC0000000 = 0"
      by (simp_all add: device_desc_def DESC_ATTR_def)
    then show ?thesis using 1 by (simp add: translate_def built_tables)
  next
    case 2
    moreover have "2 ^ 31 \<le> va" using 2 div_times_less_eq_dividend [of va "2 ^ 30"] by simp
    ultimately show ?thesis using translate_ram_gigabyte [OF layout zero(2)] by simp
  next
    case 3
    have "\<not> va < 2 ^ 30" using 3 by auto
    moreover have "\<not> (0x80000000 \<le> va \<and> va < 0x80200000)"
    proof
      assume "0x80000000 \<le> va \<and> va < 0x80200000"
      then have "va div 2 ^ 30 = 2" by (intro div_nat_eqI) simp_all
      then show False using 3 by simp
    qed
    ultimately show ?thesis using 3 zero(1) by (simp add: translate_def built_tables)
  qed
qed

lemma page_tables_identity_witness:
  "translate ram_layout (build_page_tables ram_layout True (harness_boot ())) 0x80007004 = Some (0x80007004, test_desc ram_layout True)"
proof -
  have "layout_ok ram_layout" by (simp add: layout_ok_def ram_page_def ram_layout_def)
  from page_tables_identity [OF this, where s = "harness_boot ()" and hw = True and va = "0x80007004"]
  show ?thesis by (simp add: harness_boot_def ram_leaf_def ram_layout_def)
qed

end
