(* ===== verification/Hosted_Guest.thy ===== *)
theory Hosted_Guest
  imports Vmm Guest_Lines Harness_Run
begin

text \<open>
  The test guest on the VMM: its accesses to the UART and the watchdog and its SMCs trap, and the VMM's \<open>fault\<close> handles them.  Here the
  machine and the processor of \<open>Harness\<close> are the VMM of \<open>Vmm\<close>: a run of the guest is a run of both.  What the kernel, the processor
  and libvmm contribute is the parameters \<open>platform\<close> and \<open>traps\<close>, with what is used of them as hypotheses.
\<close>

section \<open>A trapped instruction\<close>

text \<open>
  What a store, a load and an SMC of the guest on a vCPU do before the VMM runs: the fault message, and the kernel's state with
  the guest's registers.  \<open>tp_loaded\<close> is the register a load of the guest reads into.
\<close>

record 'k traps =
  tp_store :: "u64 \<Rightarrow> u64 \<Rightarrow> u32 \<Rightarrow> 'k \<Rightarrow> msg \<times> 'k"
  tp_load :: "u64 \<Rightarrow> u64 \<Rightarrow> 'k \<Rightarrow> msg \<times> 'k"
  tp_smc :: "u64 \<Rightarrow> u64 \<Rightarrow> 'k \<Rightarrow> msg \<times> 'k"
  tp_loaded :: "user_context \<Rightarrow> u32"

definition guest_regs :: "'k platform \<Rightarrow> 'k vmm \<Rightarrow> user_context" where
  "guest_regs P s = snd (p_read_registers P (v_run_vcpu s) zero_context (v_k s))"

definition guest_trap :: "'k platform \<Rightarrow> msg \<times> 'k \<Rightarrow> 'k vmm \<Rightarrow> 'k vmm" where
  "guest_trap P mk s = snd (vmm_fault P (v_run_vcpu s) (fst mk) (s\<lparr>v_k := snd mk\<rparr>))"

text \<open>
  Only a running guest executes: the accesses of a stopped guest's code do not happen, and leave the VMM alone.
\<close>

definition hosted_store :: "'k platform \<Rightarrow> 'k traps \<Rightarrow> u64 \<Rightarrow> u32 \<Rightarrow> 'k vmm \<Rightarrow> 'k vmm" where
  "hosted_store P T a v s = (if v_state s = GUEST_RUNNING then guest_trap P (tp_store T (v_run_vcpu s) a v (v_k s)) s else s)"

definition hosted_load :: "'k platform \<Rightarrow> 'k traps \<Rightarrow> u64 \<Rightarrow> 'k vmm \<Rightarrow> u32 \<times> 'k vmm" where
  "hosted_load P T a s =
     (if v_state s = GUEST_RUNNING
      then let s1 = guest_trap P (tp_load T (v_run_vcpu s) a (v_k s)) s in (tp_loaded T (guest_regs P s1), s1)
      else (- 1, s))"

definition hosted_smc :: "'k platform \<Rightarrow> 'k traps \<Rightarrow> u64 \<Rightarrow> 'k vmm \<Rightarrow> u64 \<times> 'k vmm" where
  "hosted_smc P T fid s =
     (if v_state s = GUEST_RUNNING
      then let s1 = guest_trap P (tp_smc T (v_run_vcpu s) fid (v_k s)) s in (uc_x0 (guest_regs P s1), s1)
      else (0, s))"

definition hosted_machine :: "'k platform \<Rightarrow> 'k traps \<Rightarrow> 'k vmm machine \<Rightarrow> 'k vmm machine" where
  "hosted_machine P T M = M\<lparr>mc_read32 := hosted_load P T, mc_write32 := hosted_store P T\<rparr>"

definition hosted_cpu :: "'k platform \<Rightarrow> 'k traps \<Rightarrow> 'k vmm cpu \<Rightarrow> 'k vmm cpu" where
  "hosted_cpu P T C = C\<lparr>cpu_smc := hosted_smc P T\<rparr>"

section \<open>What libvmm and the kernel promise\<close>

text \<open>The handler registered for an address, and its call.\<close>

fun handler_at :: "effect list \<Rightarrow> u64 \<Rightarrow> (u64 \<times> vm_handler) option" where
  "handler_at [] a = None"
| "handler_at (RegisterHandler base sz h # es) a =
     (if unat base \<le> unat a \<and> unat a < unat base + unat sz then Some (base, h) else handler_at es a)"
| "handler_at (e # es) a = handler_at es a"

lemma handler_at_append: "handler_at es a = Some x \<Longrightarrow> handler_at (es @ fs) a = Some x"
  by (induction es a rule: handler_at.induct) (auto split: if_splits)

definition device_handler :: "'k platform \<Rightarrow> vm_handler \<Rightarrow> u64 \<Rightarrow> u64 \<Rightarrow> u64 \<Rightarrow> user_context \<Rightarrow> 'k vmm \<Rightarrow> bool \<times> user_context \<times> 'k vmm" where
  "device_handler P h vcpu_id offset fsr regs s =
     (case h of UartFault \<Rightarrow> uart_fault P vcpu_id offset fsr regs s | ForwardFault fwd \<Rightarrow> forward_fault P fwd vcpu_id offset fsr regs s)"

text \<open>
  A memory fault at an address with a registered handler: libvmm calls it with the guest's registers, and if it handled the access
  writes them back and steps the guest over the instruction.
\<close>

definition dispatched :: "'k platform \<Rightarrow> u64 \<Rightarrow> u64 \<Rightarrow> vm_handler \<Rightarrow> msg \<Rightarrow> 'k vmm \<Rightarrow> bool \<times> 'k vmm" where
  "dispatched P c base h m s =
     (let (err, regs) = tcb_read_registers P c zero_context s;
          (ok, regs1, s1) = device_handler P h c (m_mr m (seL4_VMFault_Addr P) - base) (m_mr m (seL4_VMFault_FSR P)) regs s
      in if ok then (let (b, k) = p_advance_vcpu P c regs1 (v_k s1) in (b, s1\<lparr>v_k := k\<rparr>)) else (False, s1))"

definition libvmm_dispatches :: "'k platform \<Rightarrow> bool" where
  "libvmm_dispatches P \<longleftrightarrow> (\<forall>c m s base h. m_label m = seL4_Fault_VMFault P \<and> fst (tcb_read_registers P c zero_context s) = seL4_NoError
     \<and> handler_at (v_out s) (m_mr m (seL4_VMFault_Addr P)) = Some (base, h) \<longrightarrow> p_fault_handle P c m s = dispatched P c base h m s)"

text \<open>A trapped access: a memory fault that names the address, with the guest's registers readable and of the kind \<open>Q\<close>.\<close>

definition access_traps :: "'k platform \<Rightarrow> u64 \<Rightarrow> u64 \<Rightarrow> (u64 \<Rightarrow> user_context \<Rightarrow> bool) \<Rightarrow> msg \<times> 'k \<Rightarrow> bool" where
  "access_traps P c a Q mk \<longleftrightarrow> m_label (fst mk) = seL4_Fault_VMFault P \<and> m_mr (fst mk) (seL4_VMFault_Addr P) = a
     \<and> (\<exists>regs. p_read_registers P c zero_context (snd mk) = (seL4_NoError, regs) \<and> Q (m_mr (fst mk) (seL4_VMFault_FSR P)) regs)"

text \<open>
  The kernel keeps the guest's registers while the VMM runs, and stepping the guest writes them; stores and loads of a word trap with
  their operand; an SMC traps with its function id in \<open>x0\<close>; and libvmm answers PSCI_VERSION.
\<close>

definition registers_kept :: "'k platform \<Rightarrow> 'k traps \<Rightarrow> bool" where
  "registers_kept P T \<longleftrightarrow> (\<forall>c r k. p_read_registers P c r (snd (p_cntpct P k)) = p_read_registers P c r k)
     \<and> (\<forall>c regs k. fst (p_advance_vcpu P c regs k) \<and> (\<exists>regs1. p_read_registers P c zero_context (snd (p_advance_vcpu P c regs k)) = (seL4_NoError, regs1)
          \<and> uc_x0 regs1 = uc_x0 regs \<and> tp_loaded T regs1 = tp_loaded T regs))"

definition accesses_trap :: "'k platform \<Rightarrow> 'k traps \<Rightarrow> bool" where
  "accesses_trap P T \<longleftrightarrow> seL4_Fault_VMFault P \<noteq> seL4_Fault_VCPUFault P
     \<and> (\<forall>c a v k. access_traps P c a (\<lambda>fsr regs. p_fault_is_write P fsr \<and> ucast (p_fault_get_data P regs fsr) = v) (tp_store T c a v k))
     \<and> (\<forall>c a k. access_traps P c a (\<lambda>fsr regs. \<not> p_fault_is_write P fsr \<and> p_fault_width_bytes P fsr = 4
          \<and> (\<forall>off v. tp_loaded T (p_fault_emulate_write P regs off fsr (ucast v)) = v)) (tp_load T c a k))"

definition smcs_trap :: "'k platform \<Rightarrow> 'k traps \<Rightarrow> bool" where
  "smcs_trap P T \<longleftrightarrow> 0 < PSCI_MAX P
     \<and> (\<forall>c fid k. m_label (fst (tp_smc T c fid k)) = seL4_Fault_VCPUFault P
          \<and> HSR_EXCEPTION_CLASS P (m_mr (fst (tp_smc T c fid k)) (seL4_VCPUFault_HSR P)) = HSR_SMC_64_EXCEPTION P
          \<and> (\<exists>regs. p_read_registers P c zero_context (snd (tp_smc T c fid k)) = (seL4_NoError, regs) \<and> uc_x0 regs = fid))
     \<and> (\<forall>c hsr k. uc_x0 (snd (p_read_registers P c zero_context k)) = PSCI_VERSION_FID
          \<longrightarrow> fst (p_smc_handle P c hsr k) \<and> fst (p_read_registers P c zero_context (snd (p_smc_handle P c hsr k))) = seL4_NoError)"

definition hosts :: "'k platform \<Rightarrow> 'k traps \<Rightarrow> bool" where
  "hosts P T \<longleftrightarrow> libvmm_dispatches P \<and> registers_kept P T \<and> accesses_trap P T \<and> smcs_trap P T"

section \<open>What a run shows\<close>

text \<open>
  The effects of a run on the host: the guest's text on both consoles, the values of forwarded reads, and \<open>x0\<close> into and out of
  the SMCs.
\<close>

definition forwarded_values :: "trace_record list \<Rightarrow> u64 list" where
  "forwarded_values rs = map tr_value (filter (\<lambda>r. tr_kind r = TRACE_KIND_MMIO \<and> tr_flags r = TRACE_MMIO_FORWARDED) rs)"

definition smc_x0s :: "u8 \<Rightarrow> trace_record list \<Rightarrow> u64 list" where
  "smc_x0s kind rs = map tr_addr (filter (\<lambda>r. tr_kind r = kind) rs)"

lemma observed_append [simp]:
  "forwarded_values (xs @ ys) = forwarded_values xs @ forwarded_values ys" "smc_x0s k (xs @ ys) = smc_x0s k xs @ smc_x0s k ys"
  by (simp_all add: forwarded_values_def smc_x0s_def)

lemma observed_Nil [simp]: "forwarded_values [] = []" "smc_x0s k [] = []"
  by (simp_all add: forwarded_values_def smc_x0s_def)

definition harness_tx :: "int option" where
  "harness_tx = Some (uint UTXH_GPA)"

definition shown :: "string \<Rightarrow> u32 list \<Rightarrow> u64 list \<Rightarrow> u64 list \<Rightarrow> exynos_uart_emul \<Rightarrow> effect list \<Rightarrow> bool" where
  "shown t ws ins outs u es \<longleftrightarrow> printf_texts es = snd (uart_feed t u)
     \<and> map written_char (filter (is_console_write harness_tx) (emitted es)) = t
     \<and> forwarded_values (emitted es) = map ucast ws \<and> smc_x0s TRACE_KIND_SMC_ENTER (emitted es) = ins
     \<and> smc_x0s TRACE_KIND_SMC_EXIT (emitted es) = outs"

lemma uart_feed_append: "uart_feed (t @ t') u = (case uart_feed t u of (u1, p) \<Rightarrow> case uart_feed t' u1 of (u2, q) \<Rightarrow> (u2, p @ q))"
  by (induction t arbitrary: u) (simp_all add: split_beta Let_def)

lemma shown_append:
  "shown t ws ins outs u es \<Longrightarrow> shown t' ws' ins' outs' (fst (uart_feed t u)) es' \<Longrightarrow>
   shown (t @ t') (ws @ ws') (ins @ ins') (outs @ outs') u (es @ es')"
  by (auto simp: shown_def uart_feed_append split_beta)

text \<open>A part of the run that leaves the guest running.\<close>

definition hosted :: "string \<Rightarrow> u32 list \<Rightarrow> u64 list \<Rightarrow> u64 list \<Rightarrow> 'k vmm \<Rightarrow> 'k vmm \<Rightarrow> bool" where
  "hosted t ws ins outs s s' \<longleftrightarrow> same_guest s s' \<and> v_uart s' = fst (uart_feed t (v_uart s))
     \<and> (\<exists>es. v_out s' = v_out s @ es \<and> shown t ws ins outs (v_uart s) es \<and> guest_events es = [])"

lemma hosted_nothing: "hosted [] [] [] [] s s"
  by (auto simp: hosted_def same_guest_def shown_def guest_events_def intro!: exI [of _ "[]"])

lemma hosted_trans: "hosted t ws ins outs s s1 \<Longrightarrow> hosted t' ws' ins' outs' s1 s2 \<Longrightarrow> hosted (t @ t') (ws @ ws') (ins @ ins') (outs @ outs') s s2"
proof -
  assume a: "hosted t ws ins outs s s1" and b: "hosted t' ws' ins' outs' s1 s2"
  from a obtain es where es: "v_out s1 = v_out s @ es" "shown t ws ins outs (v_uart s) es" "guest_events es = []" by (auto simp: hosted_def)
  from b obtain fs where fs: "v_out s2 = v_out s1 @ fs" "shown t' ws' ins' outs' (v_uart s1) fs" "guest_events fs = []" by (auto simp: hosted_def)
  have u: "v_uart s1 = fst (uart_feed t (v_uart s))" "v_uart s2 = fst (uart_feed t' (v_uart s1))" using a b by (simp_all add: hosted_def)
  have "v_out s2 = v_out s @ (es @ fs) \<and> shown (t @ t') (ws @ ws') (ins @ ins') (outs @ outs') (v_uart s) (es @ fs) \<and> guest_events (es @ fs) = []"
    using es fs shown_append [OF es(2) fs(2) [unfolded u(1)]] by simp
  moreover have "v_uart s2 = fst (uart_feed (t @ t') (v_uart s))" using u by (simp add: uart_feed_append split_beta)
  moreover have "same_guest s s2" using a b by (simp add: hosted_def same_guest_def)
  ultimately show ?thesis unfolding hosted_def by blast
qed

section \<open>From the trap to the handler\<close>

lemma heartbeat_logs:
  "\<exists>lg. v_out (heartbeat P s) = v_out s @ map Log lg \<and> v_uart (heartbeat P s) = v_uart s \<and> same_guest s (heartbeat P s)
    \<and> v_k (heartbeat P s) = snd (p_cntpct P (v_k s))"
proof (cases "fst (p_cntpct P (v_k s)) - v_last_heartbeat s < p_cntfrq P")
  case True
  then show ?thesis
    by (intro exI [of _ "[]"]) (simp add: heartbeat_def guest_stats_heartbeat_def read_cntpct_def split_beta Let_def same_guest_def)
next
  case False
  then have "\<exists>t. heartbeat P s = LOG_VMM t (s\<lparr>v_k := snd (p_cntpct P (v_k s)), v_last_heartbeat := fst (p_cntpct P (v_k s))\<rparr>)"
    by (simp add: heartbeat_def guest_stats_heartbeat_def read_cntpct_def split_beta Let_def) blast
  then show ?thesis by (auto simp: LOG_VMM_def out_def same_guest_def intro!: exI [of _ "[_]"])
qed

text \<open>The state in which the policy or libvmm takes over.\<close>

definition fault_entered :: "'k platform \<Rightarrow> msg \<Rightarrow> u64 \<Rightarrow> 'k vmm \<Rightarrow> 'k vmm" where
  "fault_entered P m hsr s =
     heartbeat P (guest_stats_count P (m_label m) hsr (breadcrumb_enter P VMM_PHASE_FAULT (m_label m) (m_mr m 0) (m_mr m 1) s))"

lemma vmm_fault_entered:
  assumes "smc_fault_hsr P m 0 = (is_smc, hsr)"
  shows "vmm_fault P c m s =
    (let (handled, stop, s3) = (if is_smc then (let (h, s3) = smc_policy_handle P c hsr (fault_entered P m hsr s)
           in (h, \<lparr>gf_kind = GUEST_FAULT_SMC, gf_detail = 0\<rparr>, s3)) else guest_fault_handle P c m (fault_entered P m hsr s))
     in (handled, breadcrumb_leave P (if handled then s3 else guest_control_fault_stopped P c stop s3)))"
  using assms by (simp add: vmm_fault_def handle_fault_def fault_entered_def Let_def split_beta)

lemma fault_entered_spec:
  assumes "registers_kept P T"
  shows "\<exists>lg. v_out (fault_entered P m hsr s) = v_out s @ map Log lg \<and> v_uart (fault_entered P m hsr s) = v_uart s
    \<and> same_guest s (fault_entered P m hsr s) \<and> (\<forall>c r. p_read_registers P c r (v_k (fault_entered P m hsr s)) = p_read_registers P c r (v_k s))"
proof -
  let ?s1 = "guest_stats_count P (m_label m) hsr (breadcrumb_enter P VMM_PHASE_FAULT (m_label m) (m_mr m 0) (m_mr m 1) s)"
  have k: "p_read_registers P c r (snd (p_cntpct P k)) = p_read_registers P c r k" for c r k
    using assms by (simp add: registers_kept_def)
  have "v_out ?s1 = v_out s \<and> v_uart ?s1 = v_uart s \<and> same_guest s ?s1 \<and> (\<forall>c r. p_read_registers P c r (v_k ?s1) = p_read_registers P c r (v_k s))"
    by (simp add: guest_stats_count_def breadcrumb_enter_def set_phase_def upd_crumb_def read_cntpct_def split_beta Let_def same_guest_def k)
  moreover obtain lg where "v_out (heartbeat P ?s1) = v_out ?s1 @ map Log lg" "v_uart (heartbeat P ?s1) = v_uart ?s1" "same_guest ?s1 (heartbeat P ?s1)"
      "v_k (heartbeat P ?s1) = snd (p_cntpct P (v_k ?s1))" using heartbeat_logs by blast
  ultimately show ?thesis unfolding fault_entered_def by (auto simp: k same_guest_def)
qed

lemma breadcrumb_leave_fields:
  "v_out (breadcrumb_leave P s) = v_out s" "v_uart (breadcrumb_leave P s) = v_uart s" "same_guest s (breadcrumb_leave P s)"
  "v_k (breadcrumb_leave P s) = snd (p_cntpct P (v_k s))"
  by (simp_all add: breadcrumb_leave_def same_guest_def) (simp add: set_phase_def upd_crumb_def read_cntpct_def split_beta Let_def)

lemma stepped_registers:
  assumes "registers_kept P T"
  shows "fst (p_advance_vcpu P c regs k)" and "\<exists>regs1. p_read_registers P c zero_context (snd (p_advance_vcpu P c regs k)) = (seL4_NoError, regs1)
      \<and> uc_x0 regs1 = uc_x0 regs \<and> tp_loaded T regs1 = tp_loaded T regs"
    and "p_read_registers P c r (snd (p_cntpct P k)) = p_read_registers P c r k"
  using assms unfolding registers_kept_def by blast+

lemma quiet_logs [simp]: "emitted (map Log lg) = []" "printf_texts (map Log lg) = []" "guest_events (map Log lg) = []"
  by (induction lg) (simp_all add: guest_events_def)

text \<open>A trapped access to a registered device reaches its handler, and the guest goes on with the registers the handler gave it.\<close>

lemma memory_trap:
  assumes "hosts P T" and "access_traps P (v_run_vcpu s) a Q mk" and "handler_at (v_out s) a = Some (base, h)"
    and handled: "\<And>fsr regs e. Q fsr regs \<Longrightarrow> v_uart e = v_uart s \<Longrightarrow> \<exists>regs1 k ws es.
      device_handler P h (v_run_vcpu s) (a - base) fsr regs e = (True, regs1, e\<lparr>v_k := k, v_uart := fst (uart_feed t (v_uart s)), v_out := v_out e @ es\<rparr>)
      \<and> shown t ws [] [] (v_uart s) es \<and> guest_events es = [] \<and> R ws (tp_loaded T regs1)"
  shows "\<exists>ws. hosted t ws [] [] s (guest_trap P mk s) \<and> R ws (tp_loaded T (guest_regs P (guest_trap P mk s)))"
proof -
  have kept: "registers_kept P T" and disp: "libvmm_dispatches P" and ne: "seL4_Fault_VMFault P \<noteq> seL4_Fault_VCPUFault P"
    using assms(1) by (simp_all add: hosts_def accesses_trap_def)
  obtain m k0 where mk: "mk = (m, k0)" by fastforce
  let ?fsr = "m_mr m (seL4_VMFault_FSR P)"
  obtain regs where lab: "m_label m = seL4_Fault_VMFault P" "m_mr m (seL4_VMFault_Addr P) = a"
    and rd: "p_read_registers P (v_run_vcpu s) zero_context k0 = (seL4_NoError, regs)" and q: "Q ?fsr regs"
    using assms(2) mk by (auto simp: access_traps_def)
  let ?e = "fault_entered P m 0 (s\<lparr>v_k := k0\<rparr>)" and ?c = "v_run_vcpu s"
  obtain lg where e: "v_out ?e = v_out s @ map Log lg" "v_uart ?e = v_uart s" "same_guest s ?e"
      "p_read_registers P ?c zero_context (v_k ?e) = (seL4_NoError, regs)"
    using fault_entered_spec [OF kept, of m 0 "s\<lparr>v_k := k0\<rparr>"] rd by (auto simp: same_guest_def)
  obtain regs1 k ws es where run: "device_handler P h ?c (a - base) ?fsr regs ?e
        = (True, regs1, ?e\<lparr>v_k := k, v_uart := fst (uart_feed t (v_uart s)), v_out := v_out ?e @ es\<rparr>)"
    and es: "shown t ws [] [] (v_uart s) es" "guest_events es = []" "R ws (tp_loaded T regs1)" using handled [OF q e(2)] by blast
  have read: "tcb_read_registers P ?c zero_context ?e = (seL4_NoError, regs)" using e(4) by (simp add: tcb_read_registers_def)
  have "handler_at (v_out ?e) a = Some (base, h)" using e(1) handler_at_append [OF assms(3)] by simp
  then have ph: "p_fault_handle P ?c m ?e = dispatched P ?c base h m ?e"
    using disp lab read unfolding libvmm_dispatches_def by simp
  define e1 where "e1 = ?e\<lparr>v_k := snd (p_advance_vcpu P ?c regs1 k), v_uart := fst (uart_feed t (v_uart s)), v_out := v_out ?e @ es\<rparr>"
  note adv = stepped_registers [OF kept]
  have "dispatched P ?c base h m ?e = (True, e1)"
    using run lab(2) read adv(1) [of ?c regs1 k] by (simp add: dispatched_def split_beta Let_def e1_def)
  moreover have sm: "smc_fault_hsr P m 0 = (False, 0)" using lab(1) ne by (simp add: smc_fault_hsr_def)
  ultimately have t: "guest_trap P mk s = breadcrumb_leave P e1"
    using ph by (simp add: guest_trap_def mk vmm_fault_entered [OF sm] guest_fault_handle_def Let_def)
  have g: "same_guest s (breadcrumb_leave P e1)"
    using e(3) breadcrumb_leave_fields(3) [of e1 P] by (simp add: same_guest_def e1_def)
  have "shown ([] @ t) ([] @ ws) ([] @ []) ([] @ []) (v_uart s) (map Log lg @ es)"
    by (rule shown_append) (use es(1) in \<open>simp_all add: shown_def\<close>)
  then have "hosted t ws [] [] s (breadcrumb_leave P e1)"
    using g e(1) es(2) unfolding hosted_def by (auto simp: breadcrumb_leave_fields e1_def)
  moreover have "tp_loaded T (guest_regs P (breadcrumb_leave P e1)) = tp_loaded T regs1"
    using g adv(2) [of ?c regs1 k] by (auto simp: guest_regs_def breadcrumb_leave_fields adv(3) same_guest_def e1_def)
  ultimately show ?thesis using es(3) unfolding t by auto
qed

section \<open>The accesses of the guest\<close>

text \<open>The VMM with the test guest on it: running, with the guest's UART and watchdog registered.\<close>

definition hosting :: "'k vmm \<Rightarrow> bool" where
  "hosting s \<longleftrightarrow> v_state s = GUEST_RUNNING \<and> ue_gpa (v_uart s) = HARNESS_UART_GPA
     \<and> handler_at (v_out s) UTRSTAT_GPA = Some (HARNESS_UART_GPA, UartFault) \<and> handler_at (v_out s) UTXH_GPA = Some (HARNESS_UART_GPA, UartFault)
     \<and> (\<exists>fwd. handler_at (v_out s) WTCON_GPA = Some (HARNESS_WATCHDOG_GPA, ForwardFault fwd))"

lemma uart_feed_gpa: "ue_gpa (fst (uart_feed t u)) = ue_gpa u"
  by (induction t arbitrary: u) (simp_all add: split_beta Let_def console_putc_gpa)

lemma hosted_hosting:
  assumes "hosted t ws ins outs s s'" and "hosting s"
  shows "hosting s'"
proof -
  obtain es where "v_out s' = v_out s @ es" using assms(1) by (auto simp: hosted_def)
  then have "handler_at (v_out s) a = Some x \<Longrightarrow> handler_at (v_out s') a = Some x" for a x by (simp add: handler_at_append)
  then show ?thesis using assms unfolding hosting_def hosted_def same_guest_def by (auto simp: uart_feed_gpa)
qed

lemma uart_char_feed: "uart_feed [c] u = uart_console_putc c u"
  by (simp add: split_beta Let_def)

lemma status_load:
  assumes "hosts P T" and "hosting s"
  shows "\<exists>s'. hosted_load P T UTRSTAT_GPA s = (6, s') \<and> hosted [] [] [] [] s s'"
proof -
  let ?mk = "tp_load T (v_run_vcpu s) UTRSTAT_GPA (v_k s)"
  have h: "handler_at (v_out s) UTRSTAT_GPA = Some (HARNESS_UART_GPA, UartFault)" and r: "v_state s = GUEST_RUNNING"
    and g: "ue_gpa (v_uart s) = HARNESS_UART_GPA" using assms(2) by (simp_all add: hosting_def)
  have tr: "access_traps P (v_run_vcpu s) UTRSTAT_GPA (\<lambda>fsr regs. \<not> p_fault_is_write P fsr \<and> p_fault_width_bytes P fsr = 4
      \<and> (\<forall>off v. tp_loaded T (p_fault_emulate_write P regs off fsr (ucast v)) = v)) ?mk"
    using assms(1) by (simp add: hosts_def accesses_trap_def)
  have "\<exists>ws. hosted [] ws [] [] s (guest_trap P ?mk s) \<and> ws = [] \<and> tp_loaded T (guest_regs P (guest_trap P ?mk s)) = 6"
  proof (rule memory_trap [OF assms(1) tr h, where t = "[]" and R = "\<lambda>ws v. ws = [] \<and> v = 6"])
    fix fsr regs and e :: "'a vmm"
    assume q: "\<not> p_fault_is_write P fsr \<and> p_fault_width_bytes P fsr = 4 \<and> (\<forall>off v. tp_loaded T (p_fault_emulate_write P regs off fsr (ucast v)) = v)"
      and u: "v_uart e = v_uart s"
    let ?regs1 = "p_fault_emulate_write P regs 0x10 fsr 6"
    let ?es = "[Emit (mmio_record P (v_run_vcpu s) (uc_pc ?regs1) UTRSTAT_GPA fsr 0 6)]"
    have "device_handler P UartFault (v_run_vcpu s) (UTRSTAT_GPA - HARNESS_UART_GPA) fsr regs e
        = (True, ?regs1, e\<lparr>v_k := v_k e, v_uart := fst (uart_feed [] (v_uart s)), v_out := v_out e @ ?es\<rparr>)"
      using q g u by (simp add: device_handler_def uart_fault_def emul_uart_read_def mmio_trace_def mmio_trace_emit_def trace_emit_def out_def Let_def)
    moreover have "shown [] [] [] [] (v_uart s) ?es" "guest_events ?es = []"
      using q by (simp_all add: shown_def guest_events_def mmio_record_def is_console_write_def forwarded_values_def smc_x0s_def zero_record_def)
    moreover have "tp_loaded T ?regs1 = 6" using q [THEN conjunct2, THEN conjunct2, THEN spec, THEN spec, of "0x10" 6] by simp
    ultimately show "\<exists>regs1 k ws es. device_handler P UartFault (v_run_vcpu s) (UTRSTAT_GPA - HARNESS_UART_GPA) fsr regs e
        = (True, regs1, e\<lparr>v_k := k, v_uart := fst (uart_feed [] (v_uart s)), v_out := v_out e @ es\<rparr>)
        \<and> shown [] ws [] [] (v_uart s) es \<and> guest_events es = [] \<and> ws = [] \<and> tp_loaded T regs1 = 6" by blast
  qed
  then show ?thesis using r by (auto simp: hosted_load_def)
qed

lemma watchdog_load:
  assumes "hosts P T" and "hosting s"
  shows "\<exists>w s'. hosted_load P T WTCON_GPA s = (w, s') \<and> hosted [] [w] [] [] s s'"
proof -
  let ?mk = "tp_load T (v_run_vcpu s) WTCON_GPA (v_k s)"
  obtain fwd where h: "handler_at (v_out s) WTCON_GPA = Some (HARNESS_WATCHDOG_GPA, ForwardFault fwd)" and r: "v_state s = GUEST_RUNNING"
    using assms(2) by (auto simp: hosting_def)
  have tr: "access_traps P (v_run_vcpu s) WTCON_GPA (\<lambda>fsr regs. \<not> p_fault_is_write P fsr \<and> p_fault_width_bytes P fsr = 4
      \<and> (\<forall>off v. tp_loaded T (p_fault_emulate_write P regs off fsr (ucast v)) = v)) ?mk"
    using assms(1) by (simp add: hosts_def accesses_trap_def)
  have "\<exists>ws. hosted [] ws [] [] s (guest_trap P ?mk s) \<and> ws = [tp_loaded T (guest_regs P (guest_trap P ?mk s))]"
  proof (rule memory_trap [OF assms(1) tr h, where t = "[]" and R = "\<lambda>ws v. ws = [v]"])
    fix fsr regs and e :: "'a vmm"
    assume q: "\<not> p_fault_is_write P fsr \<and> p_fault_width_bytes P fsr = 4 \<and> (\<forall>off v. tp_loaded T (p_fault_emulate_write P regs off fsr (ucast v)) = v)"
      and u: "v_uart e = v_uart s"
    obtain w k where w: "p_mmio_read32 P (mf_vmm_vaddr fwd) (v_k e) = (w, k)" by fastforce
    let ?regs1 = "p_fault_emulate_write P regs 0 fsr (ucast w)"
    let ?es = "[Emit (mmio_record P (v_run_vcpu s) (uc_pc ?regs1) (mf_gpa fwd) fsr TRACE_MMIO_FORWARDED (ucast w))]"
    have "device_handler P (ForwardFault fwd) (v_run_vcpu s) (WTCON_GPA - HARNESS_WATCHDOG_GPA) fsr regs e
        = (True, ?regs1, e\<lparr>v_k := k, v_uart := fst (uart_feed [] (v_uart s)), v_out := v_out e @ ?es\<rparr>)"
      using q w by (simp add: device_handler_def forward_fault_def forward_access_supported_def mmio_trace_def mmio_trace_emit_def trace_emit_def
          out_def Let_def u [symmetric])
    moreover have "shown [] [w] [] [] (v_uart s) ?es" "guest_events ?es = []"
      using q by (simp_all add: shown_def guest_events_def mmio_record_def is_console_write_def forwarded_values_def smc_x0s_def zero_record_def)
    moreover have "[w] = [tp_loaded T ?regs1]" using q by simp
    ultimately show "\<exists>regs1 k ws es. device_handler P (ForwardFault fwd) (v_run_vcpu s) (WTCON_GPA - HARNESS_WATCHDOG_GPA) fsr regs e
        = (True, regs1, e\<lparr>v_k := k, v_uart := fst (uart_feed [] (v_uart s)), v_out := v_out e @ es\<rparr>)
        \<and> shown [] ws [] [] (v_uart s) es \<and> guest_events es = [] \<and> ws = [tp_loaded T regs1]" by blast
  qed
  then show ?thesis using r by (auto simp: hosted_load_def Let_def)
qed

lemma low_byte:
  assumes "ucast d = (of_nat (of_char c) :: u32)"
  shows "char_of_byte (ucast (d AND 0xff :: u64)) = c"
proof -
  have c: "of_char c < (256 :: nat)" by (rule of_char_less)
  have "(of_char c :: nat) mod 4294967296 = of_char c" by (intro mod_less less_trans [OF c]) simp
  then have "unat (ucast d :: u32) = of_char c" by (simp add: assms unat_of_nat)
  then have "unat d mod 2 ^ 32 = of_char c" by (simp add: unsigned_ucast_eq take_bit_eq_mod)
  then have "unat d mod 256 = of_char c" using c mod_mod_cancel [of 256 "2 ^ 32" "unat d"] by simp
  moreover have "d AND 0xff = take_bit 8 d" by (simp add: take_bit_eq_mask mask_eq_exp_minus_1)
  ultimately have "unat (ucast (d AND 0xff) :: u8) = of_char c" by (simp add: unsigned_ucast_eq unsigned_take_bit_eq take_bit_eq_mod unat_mod)
  then show ?thesis by (simp add: char_of_byte_def)
qed

lemma char_store:
  assumes "hosts P T" and "hosting s"
  shows "hosted [c] [] [] [] s (hosted_store P T UTXH_GPA (of_nat (of_char c)) s)"
proof -
  let ?mk = "tp_store T (v_run_vcpu s) UTXH_GPA (of_nat (of_char c)) (v_k s)"
  have h: "handler_at (v_out s) UTXH_GPA = Some (HARNESS_UART_GPA, UartFault)" and r: "v_state s = GUEST_RUNNING"
    and g: "ue_gpa (v_uart s) = HARNESS_UART_GPA" using assms(2) by (simp_all add: hosting_def)
  have tr: "access_traps P (v_run_vcpu s) UTXH_GPA (\<lambda>fsr regs. p_fault_is_write P fsr \<and> ucast (p_fault_get_data P regs fsr) = (of_nat (of_char c) :: u32)) ?mk"
    using assms(1) by (simp add: hosts_def accesses_trap_def)
  have "\<exists>ws. hosted [c] ws [] [] s (guest_trap P ?mk s) \<and> ws = []"
  proof (rule memory_trap [OF assms(1) tr h, where t = "[c]" and R = "\<lambda>ws v. ws = []"])
    fix fsr regs and e :: "'a vmm"
    assume q: "p_fault_is_write P fsr \<and> ucast (p_fault_get_data P regs fsr) = (of_nat (of_char c) :: u32)"
      and u: "v_uart e = v_uart s"
    let ?r = "mmio_record P (v_run_vcpu s) (uc_pc regs) UTXH_GPA fsr 0 (p_fault_get_data P regs fsr)"
    let ?es = "Emit ?r # map Printf (snd (uart_feed [c] (v_uart s)))"
    have ch: "uart_char P fsr regs = c" using low_byte [of "p_fault_get_data P regs fsr" c] q by (simp add: uart_char_def)
    have t: "snd (snd (uart_fault P (v_run_vcpu s) EXYNOS_UART_UTXH fsr regs e))
        = e\<lparr>v_k := v_k e, v_uart := fst (uart_feed [c] (v_uart s)), v_out := v_out e @ ?es\<rparr>"
      using uart_write_one [of P fsr "v_run_vcpu s" regs e] q g u unfolding ch uart_char_feed by simp
    have "device_handler P UartFault (v_run_vcpu s) (UTXH_GPA - HARNESS_UART_GPA) fsr regs e = uart_fault P (v_run_vcpu s) EXYNOS_UART_UTXH fsr regs e"
      by (simp add: device_handler_def)
    also have "\<dots> = (True, regs, snd (snd (uart_fault P (v_run_vcpu s) EXYNOS_UART_UTXH fsr regs e)))"
      using q by (simp add: uart_fault_def emul_uart_write_def split_beta Let_def)
    finally have "device_handler P UartFault (v_run_vcpu s) (UTXH_GPA - HARNESS_UART_GPA) fsr regs e
        = (True, regs, e\<lparr>v_k := v_k e, v_uart := fst (uart_feed [c] (v_uart s)), v_out := v_out e @ ?es\<rparr>)" unfolding t .
    moreover have "written_char ?r = c" using ch by (simp add: written_char_def mmio_record_def uart_char_def)
    then have "shown [c] [] [] [] (v_uart s) ?es" "guest_events ?es = []"
      using q by (simp_all add: shown_def guest_events_def mmio_record_def is_console_write_def forwarded_values_def smc_x0s_def zero_record_def
          harness_tx_def)
    ultimately show "\<exists>regs1 k ws es. device_handler P UartFault (v_run_vcpu s) (UTXH_GPA - HARNESS_UART_GPA) fsr regs e
        = (True, regs1, e\<lparr>v_k := k, v_uart := fst (uart_feed [c] (v_uart s)), v_out := v_out e @ es\<rparr>)
        \<and> shown [c] ws [] [] (v_uart s) es \<and> guest_events es = [] \<and> ws = []" by blast
  qed
  then show ?thesis using r by (simp add: hosted_store_def)
qed

section \<open>The calls of the guest\<close>

text \<open>A trapped SMC reaches the policy.\<close>

lemma smc_trap:
  assumes "hosts P T"
  obtains regs e lg hsr where "uc_x0 regs = fid" and "p_read_registers P (v_run_vcpu s) zero_context (v_k e) = (seL4_NoError, regs)"
    and "v_out e = v_out s @ map Log lg" and "v_uart e = v_uart s" and "same_guest s e"
    and "guest_trap P (tp_smc T (v_run_vcpu s) fid (v_k s)) s
      = breadcrumb_leave P (case smc_policy_handle P (v_run_vcpu s) hsr e of (handled, s3) \<Rightarrow>
          if handled then s3 else guest_control_fault_stopped P (v_run_vcpu s) \<lparr>gf_kind = GUEST_FAULT_SMC, gf_detail = 0\<rparr> s3)"
proof -
  have kept: "registers_kept P T" and smcs: "smcs_trap P T" using assms by (simp_all add: hosts_def)
  obtain m k where mk: "tp_smc T (v_run_vcpu s) fid (v_k s) = (m, k)" by fastforce
  then have lab: "m_label m = seL4_Fault_VCPUFault P" "HSR_EXCEPTION_CLASS P (m_mr m (seL4_VCPUFault_HSR P)) = HSR_SMC_64_EXCEPTION P"
      "\<exists>regs. p_read_registers P (v_run_vcpu s) zero_context k = (seL4_NoError, regs) \<and> uc_x0 regs = fid"
    using smcs unfolding smcs_trap_def by (metis fst_conv snd_conv)+
  then obtain regs where rd: "p_read_registers P (v_run_vcpu s) zero_context k = (seL4_NoError, regs)" "uc_x0 regs = fid" by blast
  let ?hsr = "m_mr m (seL4_VCPUFault_HSR P)"
  let ?e = "fault_entered P m ?hsr (s\<lparr>v_k := k\<rparr>)"
  obtain lg where e: "v_out ?e = v_out s @ map Log lg" "v_uart ?e = v_uart s" "same_guest s ?e"
      "p_read_registers P (v_run_vcpu s) zero_context (v_k ?e) = (seL4_NoError, regs)"
    using fault_entered_spec [OF kept, of m ?hsr "s\<lparr>v_k := k\<rparr>"] rd by (auto simp: same_guest_def)
  have sm: "smc_fault_hsr P m 0 = (True, ?hsr)" using lab by (simp add: smc_fault_hsr_def)
  have "guest_trap P (m, k) s = breadcrumb_leave P (case smc_policy_handle P (v_run_vcpu s) ?hsr ?e of (handled, s3) \<Rightarrow>
      if handled then s3 else guest_control_fault_stopped P (v_run_vcpu s) \<lparr>gf_kind = GUEST_FAULT_SMC, gf_detail = 0\<rparr> s3)"
    by (simp add: guest_trap_def vmm_fault_entered [OF sm] split_beta Let_def)
  then show ?thesis using that [OF rd(2) e(4) e(1-3)] mk by simp
qed

text \<open>A call that was handled returns the \<open>x0\<close> its exit record shows.\<close>

lemma smc_returns:
  assumes kept: "registers_kept P T" and run: "v_state s = GUEST_RUNNING"
    and trap: "guest_trap P (tp_smc T (v_run_vcpu s) fid (v_k s)) s = breadcrumb_leave P (e\<lparr>v_k := k, v_out := v_out e @ es\<rparr>)"
    and e: "v_out e = v_out s @ map Log lg" "v_uart e = v_uart s" "same_guest s e"
    and es: "shown [] [] [fid] [uc_x0 regs1] (v_uart s) es" "guest_events es = []"
    and rd: "p_read_registers P (v_run_vcpu s) zero_context k = (seL4_NoError, regs1)"
  shows "\<exists>p s'. hosted_smc P T fid s = (p, s') \<and> hosted [] [] [fid] [p] s s'"
proof -
  let ?e1 = "e\<lparr>v_k := k, v_out := v_out e @ es\<rparr>"
  have g: "same_guest s (breadcrumb_leave P ?e1)" using e(3) breadcrumb_leave_fields(3) [of ?e1 P] by (simp add: same_guest_def)
  have "shown ([] @ []) ([] @ []) ([] @ [fid]) ([] @ [uc_x0 regs1]) (v_uart s) (map Log lg @ es)"
    by (rule shown_append) (use es(1) in \<open>simp_all add: shown_def\<close>)
  then have "hosted [] [] [fid] [uc_x0 regs1] s (breadcrumb_leave P ?e1)"
    using g e es(2) unfolding hosted_def by (auto simp: breadcrumb_leave_fields)
  moreover have "uc_x0 (guest_regs P (breadcrumb_leave P ?e1)) = uc_x0 regs1"
    using g rd by (simp add: guest_regs_def breadcrumb_leave_fields stepped_registers(3) [OF kept] same_guest_def)
  ultimately show ?thesis using run trap by (simp add: hosted_smc_def Let_def)
qed

lemma smc_records_observed:
  assumes "kind \<in> {TRACE_KIND_SMC_ENTER, TRACE_KIND_SMC_EXIT}"
  shows "filter (is_console_write tx) (smc_records kind fl rf v pc hsr r) = []" and "forwarded_values (smc_records kind fl rf v pc hsr r) = []"
    and "smc_x0s TRACE_KIND_SMC_ENTER (smc_records kind fl rf v pc hsr r) = (if kind = TRACE_KIND_SMC_ENTER then [uc_x0 r] else [])"
    and "smc_x0s TRACE_KIND_SMC_EXIT (smc_records kind fl rf v pc hsr r) = (if kind = TRACE_KIND_SMC_EXIT then [uc_x0 r] else [])"
    and "filter (\<lambda>r. tr_kind r = TRACE_KIND_GUEST) (smc_records kind fl rf v pc hsr r) = []"
  using assms by (auto simp: smc_records_def smc_record_def is_console_write_def forwarded_values_def smc_x0s_def zero_record_def)

lemma printf_texts_emits [simp]: "printf_texts (map Emit rs) = []"
  by (induction rs) simp_all

lemma psci_version_call:
  assumes "hosts P T" and "hosting s"
  shows "\<exists>p s'. hosted_smc P T PSCI_VERSION_FID s = (p, s') \<and> hosted [] [] [PSCI_VERSION_FID] [p] s s'"
proof -
  have kept: "registers_kept P T" and smcs: "smcs_trap P T" and r: "v_state s = GUEST_RUNNING" using assms by (simp_all add: hosts_def hosting_def)
  let ?c = "v_run_vcpu s"
  obtain regs e lg hsr where x0: "uc_x0 regs = PSCI_VERSION_FID" and rd: "p_read_registers P ?c zero_context (v_k e) = (seL4_NoError, regs)"
    and e: "v_out e = v_out s @ map Log lg" "v_uart e = v_uart s" "same_guest s e"
    and t: "guest_trap P (tp_smc T ?c PSCI_VERSION_FID (v_k s)) s = breadcrumb_leave P (case smc_policy_handle P ?c hsr e of (handled, s3) \<Rightarrow>
          if handled then s3 else guest_control_fault_stopped P ?c \<lparr>gf_kind = GUEST_FAULT_SMC, gf_detail = 0\<rparr> s3)"
    by (rule smc_trap [OF assms(1)])
  obtain k where k: "p_smc_handle P ?c hsr (v_k e) = (True, k)" "fst (p_read_registers P ?c zero_context k) = seL4_NoError"
  proof -
    have "uc_x0 (snd (p_read_registers P ?c zero_context (v_k e))) = PSCI_VERSION_FID" using rd x0 by simp
    then have "fst (p_smc_handle P ?c hsr (v_k e)) \<and> fst (p_read_registers P ?c zero_context (snd (p_smc_handle P ?c hsr (v_k e)))) = seL4_NoError"
      using smcs unfolding smcs_trap_def by blast
    then show ?thesis using that by (metis prod.collapse)
  qed
  obtain regs1 where regs1: "p_read_registers P ?c zero_context k = (seL4_NoError, regs1)" using k(2) by (metis prod.collapse)
  let ?es = "map Emit (smc_enter_records ?c (uc_pc regs) hsr regs) @ SmcHandle ?c hsr # map Emit (smc_exit_records 0 ?c (uc_pc regs) hsr regs1)"
  have pol: "smc_policy P (ucast (uc_x0 regs)) = SMC_EMULATE_PSCI"
    using smcs by (simp add: x0 smc_policy_def SMCCC_SERVICE_def SMCCC_FUNC_NUMBER_def smcs_trap_def)
  have "smc_policy_handle P ?c hsr e = (True, e\<lparr>v_k := k, v_out := v_out e @ ?es\<rparr>)"
    using rd k(1) regs1 by (simp add: smc_policy_handle_def read_regs_def pol smc_emulate_psci_def smc_handle_def tcb_read_registers_def smc_trace_out out_def Let_def)
  moreover have "shown [] [] [PSCI_VERSION_FID] [uc_x0 regs1] (v_uart s) ?es \<and> guest_events ?es = []"
    by (simp add: shown_def guest_events_def smc_records_observed x0)
  ultimately show ?thesis using smc_returns [OF kept r _ e _ _ regs1, where es = ?es] t by simp
qed

lemma smccc_version_call:
  assumes "hosts P T" and "hosting s"
  shows "\<exists>p s'. hosted_smc P T SMCCC_VERSION_FID s = (p, s') \<and> hosted [] [] [SMCCC_VERSION_FID] [p] s s'"
proof -
  have kept: "registers_kept P T" and r: "v_state s = GUEST_RUNNING" using assms by (simp_all add: hosts_def hosting_def)
  let ?c = "v_run_vcpu s"
  obtain regs e lg hsr where x0: "uc_x0 regs = SMCCC_VERSION_FID" and rd: "p_read_registers P ?c zero_context (v_k e) = (seL4_NoError, regs)"
    and e: "v_out e = v_out s @ map Log lg" "v_uart e = v_uart s" "same_guest s e"
    and t: "guest_trap P (tp_smc T ?c SMCCC_VERSION_FID (v_k s)) s = breadcrumb_leave P (case smc_policy_handle P ?c hsr e of (handled, s3) \<Rightarrow>
          if handled then s3 else guest_control_fault_stopped P ?c \<lparr>gf_kind = GUEST_FAULT_SMC, gf_detail = 0\<rparr> s3)"
    by (rule smc_trap [OF assms(1)])
  obtain resp k where k: "p_smc_call P (smc_request regs) (v_k e) = (resp, k)" by fastforce
  let ?regs1 = "smc_result resp regs"
  obtain regs2 where adv: "fst (p_advance_vcpu P ?c ?regs1 k)" and regs2: "p_read_registers P ?c zero_context (snd (p_advance_vcpu P ?c ?regs1 k)) = (seL4_NoError, regs2)"
      and x: "uc_x0 regs2 = uc_x0 ?regs1" using stepped_registers [OF kept] by blast
  let ?es = "map Emit (smc_enter_records ?c (uc_pc regs) hsr regs) @ SmcCall (smc_request regs)
      # map Emit (smc_exit_records TRACE_SMC_FORWARDED ?c (uc_pc regs) hsr ?regs1) @ [AdvanceVcpu ?c ?regs1]"
  have pol: "smc_policy P (ucast (uc_x0 regs)) = SMC_FORWARD" by (simp add: x0 forward_iff)
  have "smc_policy_handle P ?c hsr e = (True, e\<lparr>v_k := snd (p_advance_vcpu P ?c ?regs1 k), v_out := v_out e @ ?es\<rparr>)"
    using rd k adv by (simp add: smc_policy_handle_def read_regs_def pol smc_forward_and_resume_def smc_forward_def tcb_read_registers_def
        microkit_arm_smc_call_def fault_advance_vcpu_def smc_trace_out out_def Let_def split_beta)
  moreover have "shown [] [] [SMCCC_VERSION_FID] [uc_x0 regs2] (v_uart s) ?es \<and> guest_events ?es = []"
    by (simp add: shown_def guest_events_def smc_records_observed x0 x)
  ultimately show ?thesis using smc_returns [OF kept r _ e _ _ regs2, where es = ?es] t by simp
qed

lemma fault_stopped_out:
  assumes "p_read_registers P c zero_context (v_k s) = (seL4_NoError, regs)"
  shows "\<exists>k t. guest_control_fault_stopped P c \<lparr>gf_kind = GUEST_FAULT_SMC, gf_detail = 0\<rparr> s = s\<lparr>v_k := k, v_state := GUEST_STOPPED_BY_FAULT,
      v_last_fault := \<lparr>fs_pc = uc_pc regs, fs_fault = \<lparr>gf_kind = GUEST_FAULT_SMC, gf_detail = uc_x0 regs\<rparr>\<rparr>,
      v_out := v_out s @ [VcpuStop c, VcpuSetOn c False, Emit (event TRACE_GUEST_STOPPED_BY_FAULT (uc_pc regs) (v_run s) (v_run_vcpu s)), Log t]\<rparr>"
proof -
  let ?s3 = "(vcpu_set_on P c False (microkit_vcpu_stop P c s))\<lparr>v_last_fault := \<lparr>fs_pc = uc_pc regs,
      fs_fault = \<lparr>gf_kind = GUEST_FAULT_SMC, gf_detail = uc_x0 regs\<rparr>\<rparr>, v_state := GUEST_STOPPED_BY_FAULT\<rparr>"
  obtain t where "print_fault_stop P (trace_guest_event TRACE_GUEST_STOPPED_BY_FAULT (uc_pc regs) ?s3)
      = LOG_VMM t (trace_guest_event TRACE_GUEST_STOPPED_BY_FAULT (uc_pc regs) ?s3)" using print_fault_stop_log by blast
  then have "guest_control_fault_stopped P c \<lparr>gf_kind = GUEST_FAULT_SMC, gf_detail = 0\<rparr> s = s\<lparr>v_k := p_vcpu_set_on P c False (p_vcpu_stop P c (v_k s)),
      v_state := GUEST_STOPPED_BY_FAULT, v_last_fault := \<lparr>fs_pc = uc_pc regs, fs_fault = \<lparr>gf_kind = GUEST_FAULT_SMC, gf_detail = uc_x0 regs\<rparr>\<rparr>,
      v_out := v_out s @ [VcpuStop c, VcpuSetOn c False, Emit (event TRACE_GUEST_STOPPED_BY_FAULT (uc_pc regs) (v_run s) (v_run_vcpu s)), Log t]\<rparr>"
    using assms by (simp add: guest_control_fault_stopped_def tcb_read_registers_def trace_guest_event_def guest_event_record_def event_def LOG_VMM_def
        trace_emit_def vcpu_set_on_def microkit_vcpu_stop_def out_def)
  then show ?thesis by blast
qed

text \<open>The SMC no policy handles stops the guest.\<close>

definition hosted_stop :: "u64 \<Rightarrow> 'k vmm \<Rightarrow> 'k vmm \<Rightarrow> bool" where
  "hosted_stop fid s s' \<longleftrightarrow> v_state s' = GUEST_STOPPED_BY_FAULT \<and> v_run s' = v_run s \<and> fs_fault (v_last_fault s') = \<lparr>gf_kind = GUEST_FAULT_SMC, gf_detail = fid\<rparr>
     \<and> (\<exists>es. v_out s' = v_out s @ es \<and> shown [] [] [fid] [0] (v_uart s) es
          \<and> guest_events es = [event TRACE_GUEST_STOPPED_BY_FAULT (fs_pc (v_last_fault s')) (v_run s) (v_run_vcpu s)])"

lemma unhandled_call:
  assumes "hosts P T" and "hosting s"
  shows "\<exists>p s'. hosted_smc P T HARNESS_UNHANDLED_SMC_FID s = (p, s') \<and> hosted_stop HARNESS_UNHANDLED_SMC_FID s s'"
proof -
  have r: "v_state s = GUEST_RUNNING" using assms by (simp_all add: hosting_def)
  let ?c = "v_run_vcpu s" and ?fid = HARNESS_UNHANDLED_SMC_FID
  obtain regs e lg hsr where x0: "uc_x0 regs = ?fid" and rd: "p_read_registers P ?c zero_context (v_k e) = (seL4_NoError, regs)"
    and e: "v_out e = v_out s @ map Log lg" "v_uart e = v_uart s" "same_guest s e"
    and t: "guest_trap P (tp_smc T ?c ?fid (v_k s)) s = breadcrumb_leave P (case smc_policy_handle P ?c hsr e of (handled, s3) \<Rightarrow>
          if handled then s3 else guest_control_fault_stopped P ?c \<lparr>gf_kind = GUEST_FAULT_SMC, gf_detail = 0\<rparr> s3)"
    by (rule smc_trap [OF assms(1)])
  have pol: "smc_policy P (ucast (uc_x0 regs)) = SMC_UNHANDLED" by (simp add: x0 smc_policy_def SMCCC_SERVICE_def)
  obtain lt where h: "smc_policy_handle P ?c hsr e = (False, e\<lparr>v_out := v_out e @ map Emit (smc_enter_records ?c (uc_pc regs) hsr regs)
        @ [Emit (smc_unhandled_record ?c (uc_pc regs) hsr), LogErr lt]\<rparr>)"
    using rd by (simp add: smc_policy_handle_def read_regs_def pol tcb_read_registers_def smc_trace_out LOG_VMM_ERR_def out_def Let_def)
  let ?s3 = "snd (smc_policy_handle P ?c hsr e)"
  have "p_read_registers P ?c zero_context (v_k ?s3) = (seL4_NoError, regs)" using rd h by simp
  from fault_stopped_out [OF this] obtain k lf where
    st: "guest_control_fault_stopped P ?c \<lparr>gf_kind = GUEST_FAULT_SMC, gf_detail = 0\<rparr> ?s3 = ?s3\<lparr>v_k := k, v_state := GUEST_STOPPED_BY_FAULT,
      v_last_fault := \<lparr>fs_pc = uc_pc regs, fs_fault = \<lparr>gf_kind = GUEST_FAULT_SMC, gf_detail = uc_x0 regs\<rparr>\<rparr>,
      v_out := v_out ?s3 @ [VcpuStop ?c, VcpuSetOn ?c False, Emit (event TRACE_GUEST_STOPPED_BY_FAULT (uc_pc regs) (v_run ?s3) (v_run_vcpu ?s3)), Log lf]\<rparr>"
    by blast
  let ?es = "map Log lg @ map Emit (smc_enter_records ?c (uc_pc regs) hsr regs) @ [Emit (smc_unhandled_record ?c (uc_pc regs) hsr), LogErr lt,
      VcpuStop ?c, VcpuSetOn ?c False, Emit (event TRACE_GUEST_STOPPED_BY_FAULT (uc_pc regs) (v_run s) (v_run_vcpu s)), Log lf]"
  have "v_run ?s3 = v_run s" "v_run_vcpu ?s3 = v_run_vcpu s" using e(3) h by (simp_all add: same_guest_def)
  then have "hosted_smc P T ?fid s = (uc_x0 (guest_regs P (guest_trap P (tp_smc T ?c ?fid (v_k s)) s)), guest_trap P (tp_smc T ?c ?fid (v_k s)) s)
      \<and> v_out (guest_trap P (tp_smc T ?c ?fid (v_k s)) s) = v_out s @ ?es
      \<and> v_state (guest_trap P (tp_smc T ?c ?fid (v_k s)) s) = GUEST_STOPPED_BY_FAULT \<and> v_run (guest_trap P (tp_smc T ?c ?fid (v_k s)) s) = v_run s
      \<and> v_last_fault (guest_trap P (tp_smc T ?c ?fid (v_k s)) s) = \<lparr>fs_pc = uc_pc regs, fs_fault = \<lparr>gf_kind = GUEST_FAULT_SMC, gf_detail = ?fid\<rparr>\<rparr>"
    using r t h st e(1) breadcrumb_leave_fields(3) [of _ P] by (simp add: hosted_smc_def breadcrumb_leave_fields same_guest_def x0 Let_def)
  moreover have "shown [] [] [?fid] [0] (v_uart s) ?es"
    by (simp add: shown_def smc_records_observed x0) (simp add: smc_unhandled_record_def smc_record_def event_def is_console_write_def forwarded_values_def
        smc_x0s_def zero_record_def)
  moreover have "guest_events ?es = [event TRACE_GUEST_STOPPED_BY_FAULT (uc_pc regs) (v_run s) (v_run_vcpu s)]"
    by (simp add: guest_events_def smc_records_observed smc_unhandled_record_def smc_record_def event_def)
  ultimately show ?thesis unfolding hosted_stop_def by auto
qed

end
