(* ===== verification/Hosted_Run.thy ===== *)
theory Hosted_Run
  imports Hosted_Guest
begin

text \<open>
  The regression run of the test guest on the VMM, from the VMM's initialisation and \<open>guest-start\<close> to the call that stops the guest.  Every
  access and call of the guest's code goes through the VMM's \<open>fault\<close>, as \<open>Hosted_Guest\<close> says.
\<close>

section \<open>The guest's code on the VMM\<close>

lemma hosted_putc:
  assumes "hosts P T" and "hosting (io_dev s)"
  shows "\<exists>s'. uart_putc (hosted_machine P T M) c s = Some s' \<and> hosted [c] [] [] [] (io_dev s) (io_dev s')"
proof -
  have reg: "HARNESS_UART_GPA + EXYNOS_UART_UTRSTAT = UTRSTAT_GPA" "HARNESS_UART_GPA + EXYNOS_UART_UTXH = UTXH_GPA" by simp_all
  obtain d where d: "hosted_load P T UTRSTAT_GPA (io_dev s) = (6, d)" "hosted [] [] [] [] (io_dev s) d" using status_load [OF assms] by blast
  let ?s1 = "s\<lparr>io_dev := d, io_log := io_log s @ [Read32 UTRSTAT_GPA 6]\<rparr>"
  have "poll (hosted_machine P T M) UTRSTAT_GPA (\<lambda>v. v AND EXYNOS_UART_UTRSTAT_TXFE \<noteq> 0) s = Some ?s1"
    by (subst poll.simps) (simp add: read32_def hosted_machine_def d(1))
  moreover have "hosted [c] [] [] [] d (hosted_store P T UTXH_GPA (of_nat (of_char c)) d)"
    by (rule char_store [OF assms(1) hosted_hosting [OF d(2) assms(2)]])
  then have "hosted [c] [] [] [] (io_dev s) (io_dev (write32 (hosted_machine P T M) UTXH_GPA (of_nat (of_char c)) ?s1))"
    using hosted_trans [OF d(2)] by (simp add: write32_def hosted_machine_def)
  ultimately show ?thesis by (simp add: uart_putc_def reg)
qed

interpretation guest_port: text_port "hosted_machine P T M" "\<lambda>s. hosts P T \<and> hosting (io_dev s)" "\<lambda>t s s'. hosted t [] [] [] (io_dev s) (io_dev s')"
  for P :: "'k platform" and T M
proof
  fix t u and s s1 s2 :: "'k vmm harness"
  assume "hosted t [] [] [] (io_dev s) (io_dev s1)" "hosted u [] [] [] (io_dev s1) (io_dev s2)"
  then show "hosted (t @ u) [] [] [] (io_dev s) (io_dev s2)" using hosted_trans by fastforce
qed (use hosted_putc hosted_nothing hosted_hosting in blast)+

text \<open>The code of a stopped guest leaves the VMM alone.\<close>

lemma stopped_putc:
  assumes "v_state (io_dev s) \<noteq> GUEST_RUNNING"
  shows "\<exists>s'. uart_putc (hosted_machine P T M) c s = Some s' \<and> io_dev s' = io_dev s"
  using assms by (simp add: uart_putc_def poll.simps read32_def write32_def hosted_machine_def hosted_load_def hosted_store_def)

interpretation stopped_port: text_port "hosted_machine P T M" "\<lambda>s. v_state (io_dev s) \<noteq> GUEST_RUNNING" "\<lambda>t s s'. io_dev s' = io_dev s"
  for P :: "'k platform" and T M
  by unfold_locales (simp_all add: stopped_putc)

lemma hosted_line:
  assumes "hosts P T" and "hosting (io_dev s)"
  shows "\<exists>s'. uart_puthex32 (hosted_machine P T M) v s \<bind> uart_puts (hosted_machine P T M) [NL] \<bind> uart_puts (hosted_machine P T M) u = Some s'
    \<and> hosted (hex32 v @ [NL] @ u) [] [] [] (io_dev s) (io_dev s') \<and> hosting (io_dev s')"
  using guest_port.hex_line [of P T s M v u] assms hosted_hosting by blast

lemma hosted_call:
  assumes "hosted_smc P T fid (io_dev s) = (x, d)"
  shows "\<exists>s'. smc0 (hosted_cpu P T C) fid s = (x, s') \<and> io_dev s' = d"
  using assms by (simp add: smc0_def hosted_cpu_def op_def)

definition version_text :: "u32 \<Rightarrow> u64 \<Rightarrow> u64 \<Rightarrow> string" where
  "version_text w p q = ''WTCON='' @ hex32 w @ [NL] @ ''PSCI_VERSION='' @ hex32 (ucast p) @ [NL] @ ''SMCCC_VERSION='' @ hex32 (ucast q) @ [NL]"

lemma hosted_regression:
  fixes M :: "'k vmm machine"
  assumes "hosts P T" and "hosting (io_dev s)"
  shows "\<exists>s' d w p q. regression (hosted_machine P T M) (hosted_cpu P T C) s = Some s'
    \<and> hosted (version_text w p q) [w] [PSCI_VERSION_FID, SMCCC_VERSION_FID] [p, q] (io_dev s) d \<and> hosted_stop HARNESS_UNHANDLED_SMC_FID d (io_dev s')"
proof -
  let ?M = "hosted_machine P T M" and ?C = "hosted_cpu P T C"
  note keep = hosted_hosting and line = hosted_line [OF assms(1)]
  obtain s1 where 1: "uart_puts ?M ''WTCON='' s = Some s1" "hosted ''WTCON='' [] [] [] (io_dev s) (io_dev s1)"
    using guest_port.puts [of P T s M "''WTCON=''"] assms by blast
  obtain w d2 where d2: "hosted_load P T WTCON_GPA (io_dev s1) = (w, d2)" "hosted [] [w] [] [] (io_dev s1) d2"
    using watchdog_load [OF assms(1) keep [OF 1(2) assms(2)]] by blast
  obtain s2 where 2: "read32 ?M (HARNESS_WATCHDOG_GPA + HARNESS_WATCHDOG_WTCON) s1 = (w, s2)" "io_dev s2 = d2"
    using d2(1) by (simp add: read32_def hosted_machine_def)
  obtain s5 where 5: "uart_puthex32 ?M w s2 \<bind> uart_puts ?M [NL] \<bind> uart_puts ?M ''PSCI_VERSION='' = Some s5"
      "hosted (hex32 w @ [NL] @ ''PSCI_VERSION='') [] [] [] d2 (io_dev s5)" "hosting (io_dev s5)"
    using line [of s2 M w "''PSCI_VERSION=''"] keep [OF d2(2) keep [OF 1(2) assms(2)]] 2(2) by auto
  obtain p d6 where d6: "hosted_smc P T PSCI_VERSION_FID (io_dev s5) = (p, d6)" "hosted [] [] [PSCI_VERSION_FID] [p] (io_dev s5) d6"
    using psci_version_call [OF assms(1) 5(3)] by blast
  obtain s6 where 6: "smc0 ?C PSCI_VERSION_FID s5 = (p, s6)" "io_dev s6 = d6" using hosted_call [OF d6(1)] by blast
  obtain s9 where 9: "uart_puthex32 ?M (ucast p) s6 \<bind> uart_puts ?M [NL] \<bind> uart_puts ?M ''SMCCC_VERSION='' = Some s9"
      "hosted (hex32 (ucast p) @ [NL] @ ''SMCCC_VERSION='') [] [] [] d6 (io_dev s9)" "hosting (io_dev s9)"
    using line [of s6 M "ucast p" "''SMCCC_VERSION=''"] keep [OF d6(2) 5(3)] 6(2) by auto
  obtain q d10 where d10: "hosted_smc P T SMCCC_VERSION_FID (io_dev s9) = (q, d10)" "hosted [] [] [SMCCC_VERSION_FID] [q] (io_dev s9) d10"
    using smccc_version_call [OF assms(1) 9(3)] by blast
  obtain s10 where 10: "smc0 ?C SMCCC_VERSION_FID s9 = (q, s10)" "io_dev s10 = d10" using hosted_call [OF d10(1)] by blast
  obtain s12 where 12: "uart_puthex32 ?M (ucast q) s10 \<bind> uart_puts ?M [NL] \<bind> uart_puts ?M [] = Some s12"
      "hosted (hex32 (ucast q) @ [NL] @ []) [] [] [] d10 (io_dev s12)" "hosting (io_dev s12)"
    using line [of s10 M "ucast q" "[]"] keep [OF d10(2) 9(3)] 10(2) by auto
  obtain x d13 where d13: "hosted_smc P T HARNESS_UNHANDLED_SMC_FID (io_dev s12) = (x, d13)" "hosted_stop HARNESS_UNHANDLED_SMC_FID (io_dev s12) d13"
    using unhandled_call [OF assms(1) 12(3)] by blast
  obtain s13 where 13: "smc0 ?C HARNESS_UNHANDLED_SMC_FID s12 = (x, s13)" "io_dev s13 = d13" using hosted_call [OF d13(1)] by blast
  obtain s14 where 14: "uart_puts ?M (''resumed'' @ [NL]) s13 = Some s14" "io_dev s14 = d13"
    using stopped_port.puts [of s13 P T M "''resumed'' @ [NL]"] 13(2) d13(2) by (auto simp: hosted_stop_def)
  have "regression ?M ?C s = Some s14" unfolding regression_parts by (simp only: 1 2 5 6 9 10 12 13 14 bind.bind_lunit prod.case)
  moreover have "hosted (version_text w p q) [w] [PSCI_VERSION_FID, SMCCC_VERSION_FID] [p, q] (io_dev s) (io_dev s12)"
    using hosted_trans [OF 1(2) hosted_trans [OF d2(2) hosted_trans [OF 5(2) hosted_trans [OF d6(2) hosted_trans [OF 9(2) hosted_trans [OF d10(2) 12(2)]]]]]]
    by (simp only: version_text_def append.simps append_assoc append_Nil append_Nil2)
  ultimately show ?thesis using d13(2) 14(2) by blast
qed

section \<open>Lines of text\<close>

definition plain :: "string \<Rightarrow> bool" where
  "plain l \<longleftrightarrow> NL \<notin> set l \<and> CR \<notin> set l \<and> length l \<le> 100"

lemma text_lines_line: "NL \<notin> set l \<Longrightarrow> text_lines cur (l @ NL # cs) = (cur @ l) # text_lines [] cs"
  by (induction l arbitrary: cur) auto

lemma text_lines_of: "\<forall>l \<in> set ls. NL \<notin> set l \<Longrightarrow> text_lines [] (concat (map (\<lambda>l. l @ [NL]) ls) @ cs) = ls @ text_lines [] cs"
  by (induction ls) (simp_all add: text_lines_line)

lemma hex_nibbles_plain: "NL \<notin> set (hex_nibbles v n)" "CR \<notin> set (hex_nibbles v n)"
proof -
  have "c \<in> set (hex_nibbles v n) \<Longrightarrow> is_hex c" for c by (auto simp: hex_nibbles_def text_simps)
  moreover have "\<not> is_hex NL" "\<not> is_hex CR" by (simp_all add: is_hex_def hex_val_def)
  ultimately show "NL \<notin> set (hex_nibbles v n)" "CR \<notin> set (hex_nibbles v n)" by blast+
qed

text \<open>What a run in mode 0 or above 7 prints until it is stopped.\<close>

definition harness_lines :: "u64 \<Rightarrow> u32 \<Rightarrow> u64 \<Rightarrow> u64 \<Rightarrow> string list" where
  "harness_lines mode w p q = [''hello''] @ (if mode = 0 then [] else [''harness mode '' @ put_dec mode, ''harness: unknown mode; modes are 1 to 7''])
     @ [''WTCON='' @ hex32 w, ''PSCI_VERSION='' @ hex32 (ucast p), ''SMCCC_VERSION='' @ hex32 (ucast q)]"

lemma harness_lines_text:
  "concat (map (\<lambda>l. l @ [NL]) (harness_lines mode w p q)) = ''hello'' @ [NL] @ lab_preamble mode @ version_text w p q"
  by (simp add: harness_lines_def lab_preamble_def version_text_def)

lemma harness_lines_plain: "l \<in> set (harness_lines mode w p q) \<Longrightarrow> plain l"
  using put_dec_length [of mode]
  by (auto simp: harness_lines_def plain_def hex32_def hex_nibbles_plain put_dec_plain is_digit_def hex_nibbles_length split: if_splits)

lemma plain_lines_shown:
  assumes "\<forall>l \<in> set ls. plain l" and "uart_ok u" and "uart_text u = []"
  shows "snd (uart_feed (concat (map (\<lambda>l. l @ [NL]) ls)) u) = map print_line ls"
proof -
  let ?t = "concat (map (\<lambda>l. l @ [NL]) ls)"
  have nl: "\<forall>l \<in> set ls. NL \<notin> set l" using assms(1) by (simp add: plain_def)
  have "CR \<notin> set ?t" using assms(1) by (auto simp: plain_def)
  moreover have "\<forall>l \<in> set (text_lines [] (?t @ [NL])). length l \<le> CONSOLE_LINE_MAX - 1"
    using assms(1) by (auto simp: text_lines_of [OF nl] plain_def)
  ultimately have "snd (fold line_putc ?t ([], [])) = ls"
    using fold_line_putc [of ?t "[]" "[]"] text_lines_of [OF nl, of "[]"] by simp
  then show ?thesis using uart_feed_refines [OF assms(2), of ?t "[]"] by (simp add: assms(3))
qed

section \<open>From boot\<close>

text \<open>The build for the test guest, on a platform where libvmm takes the VMM's registrations.\<close>

definition harness_build :: "'k platform \<Rightarrow> config \<Rightarrow> 'k vmm \<Rightarrow> bool" where
  "harness_build P C s \<longleftrightarrow> cf_map C = harness_map \<and> cf_watchdog_vaddr C \<noteq> 0 \<and> fst (p_guest_init P (v_k s))
     \<and> (\<forall>base sz h k. fst (p_register_handler P base sz h k))"

lemma boot_fresh_devices:
  "v_uart (snd (boot_fresh P C sel s)) = v_uart s \<and> (\<exists>es. v_out (snd (boot_fresh P C sel s)) = v_out s @ es)"
proof -
  obtain b s1 where ld: "guest_image_load P C sel s = (b, s1)" by fastforce
  then obtain es where s1: "v_uart s1 = v_uart s" "v_out s1 = v_out s @ es" using guest_image_load_frame [of s P C sel] by (auto simp: load_frame_def)
  have "v_uart (guest_stats_reset P x) = v_uart x \<and> (\<exists>fs. v_out (guest_stats_reset P x) = v_out x @ fs)" for x :: "'a vmm"
    using quiet_stats(1) [of x P] by (auto simp: quiet_def)
  then have reset: "v_uart (guest_stats_reset P x) = v_uart x" "\<exists>fs. v_out (guest_stats_reset P x) = v_out x @ fs" for x :: "'a vmm" by blast+
  let ?v = "GUEST_SELECT_VCPU sel"
  let ?s2 = "vcpu_reset P ?v (s1\<lparr>v_run_vcpu := ?v\<rparr>)"
  obtain fs where "v_out (guest_stats_reset P (?s2\<lparr>v_run := v_run ?s2 + 1\<rparr>)) = v_out s @ es @ VcpuReset ?v # fs"
    using reset(2) [of "?s2\<lparr>v_run := v_run ?s2 + 1\<rparr>"] s1 by (auto simp: vcpu_reset_def out_def)
  then show ?thesis
    using ld s1 reset(1) [of "?s2\<lparr>v_run := v_run ?s2 + 1\<rparr>"]
    by (auto simp: boot_fresh_def start_vcpu_def trace_guest_event_def trace_emit_def tcb_write_registers_def vcpu_set_on_def microkit_vcpu_restart_def
        LOG_VMM_ERR_def out_def Let_def vcpu_reset_def split_beta split: option.splits)
qed

lemma guest_start_devices:
  "v_uart (guest_control_start P C sel s) = v_uart s \<and> (\<exists>es. v_out (guest_control_start P C sel s) = v_out s @ es)"
  using boot_fresh_devices [of P C sel s] by (auto simp: guest_control_start_def LOG_VMM_def out_def split_beta Let_def)

lemma harness_init_devices:
  assumes "harness_build P C s"
  shows "\<exists>t t' fwd. v_out (vmm_init P C s) = v_out s @ [Log t, RegisterHandler HARNESS_UART_GPA 0x100 UartFault,
      RegisterHandler HARNESS_WATCHDOG_GPA 0x100 (ForwardFault fwd), Log t']
    \<and> v_uart (vmm_init P C s) = (v_uart s)\<lparr>ue_gpa := HARNESS_UART_GPA, ue_line_len := 0\<rparr>"
  using assms by (auto simp: harness_build_def vmm_init_def exynos_uart_emul_init_def mmio_forward_read_only_init_def harness_map_def vmm_simps)

lemma started_hosting:
  assumes "harness_build P C s" and "v_out s = []" and "v_state (guest_control_start P C sel (vmm_init P C s)) = GUEST_RUNNING"
  defines "s1 \<equiv> guest_control_start P C sel (vmm_init P C s)"
  shows "hosting s1" and "uart_ok (v_uart s1)" and "uart_text (v_uart s1) = []"
proof -
  from harness_init_devices [OF assms(1)] obtain t t' fwd where
    o: "v_out (vmm_init P C s) = [Log t, RegisterHandler HARNESS_UART_GPA 0x100 UartFault,
      RegisterHandler HARNESS_WATCHDOG_GPA 0x100 (ForwardFault fwd), Log t']"
    and u: "v_uart (vmm_init P C s) = (v_uart s)\<lparr>ue_gpa := HARNESS_UART_GPA, ue_line_len := 0\<rparr>" using assms(2) by auto
  from guest_start_devices [of P C sel "vmm_init P C s"] obtain es where
    s1: "v_uart s1 = v_uart (vmm_init P C s)" "v_out s1 = v_out (vmm_init P C s) @ es" unfolding s1_def by blast
  show "hosting s1" using assms(3) u s1 by (simp add: hosting_def o s1_def)
  show "uart_ok (v_uart s1)" "uart_text (v_uart s1) = []" using u s1 by (simp_all add: uart_ok_def uart_text_def)
qed

section \<open>Properties\<close>

lemma hosted_main:
  assumes "hosts P T" and "hosting (io_dev s)" and "mode = 0 \<or> 7 < mode"
  shows "\<exists>s' d w p q. harness_main (hosted_machine P T M) (hosted_cpu P T C) L n mode s = Some (True, s')
    \<and> hosted (concat (map (\<lambda>l. l @ [NL]) (harness_lines mode w p q))) [w] [PSCI_VERSION_FID, SMCCC_VERSION_FID] [p, q] (io_dev s) d
    \<and> hosted_stop HARNESS_UNHANDLED_SMC_FID d (io_dev s')"
proof -
  let ?M = "hosted_machine P T M" and ?C = "hosted_cpu P T C"
  obtain s1 where 1: "uart_puts ?M (''hello'' @ [NL]) s = Some s1" "hosted (''hello'' @ [NL]) [] [] [] (io_dev s) (io_dev s1)"
    using guest_port.puts [of P T s M "''hello'' @ [NL]"] assms by blast
  note h1 = hosted_hosting [OF 1(2) assms(2)]
  have "\<exists>s2. (if mode \<noteq> 0 then lab_run ?M ?C L n mode s1 else Some (True, s1)) = Some (True, s2)
      \<and> hosted (lab_preamble mode) [] [] [] (io_dev s1) (io_dev s2)"
    using assms(3) guest_port.unknown_mode [of P T s1 mode M ?C L n] assms(1) h1 hosted_nothing by (auto simp: lab_preamble_def)
  then obtain s2 where 2: "(if mode \<noteq> 0 then lab_run ?M ?C L n mode s1 else Some (True, s1)) = Some (True, s2)"
      "hosted (lab_preamble mode) [] [] [] (io_dev s1) (io_dev s2)" by blast
  obtain s' d w p q where 3: "regression ?M ?C s2 = Some s'"
      "hosted (version_text w p q) [w] [PSCI_VERSION_FID, SMCCC_VERSION_FID] [p, q] (io_dev s2) d"
      "hosted_stop HARNESS_UNHANDLED_SMC_FID d (io_dev s')"
    using hosted_regression [OF assms(1) hosted_hosting [OF 2(2) h1], of M C] by blast
  have "harness_main ?M ?C L n mode s = Some (True, s')"
    unfolding harness_main_def by (simp only: 1 2 3 bind.bind_lunit prod.case if_True)
  moreover have "hosted (concat (map (\<lambda>l. l @ [NL]) (harness_lines mode w p q))) [w] [PSCI_VERSION_FID, SMCCC_VERSION_FID] [p, q] (io_dev s) d"
    using hosted_trans [OF 1(2) hosted_trans [OF 2(2) 3(2)]] unfolding harness_lines_text by (simp only: append_assoc append_Nil)
  ultimately show ?thesis using 3(3) by blast
qed

text \<open>
  C3. The test guest on the VMM, from boot: started in mode 0, or in a mode it does not know, it prints its greeting and the values it
  reads, and both consoles show exactly these lines; the watchdog value is the one the VMM forwarded, the versions are the ones the
  exit records of its two calls carry, in order; the third call is refused by the policy and stops the guest by fault, so that
  \<open>resumed\<close> never appears.
\<close>

theorem harness_hosted:
  fixes P :: "'k platform" and M :: "'k vmm machine"
  assumes "hosts P T" and "harness_build P Cf s0" and "v_out s0 = []"
    and "v_state (guest_control_start P Cf sel (vmm_init P Cf s0)) = GUEST_RUNNING"
    and "GUEST_SELECT_HARNESS_MODE sel = 0 \<or> 7 < GUEST_SELECT_HARNESS_MODE sel"
  defines "s \<equiv> guest_control_start P Cf sel (vmm_init P Cf s0)" and "mode \<equiv> GUEST_SELECT_HARNESS_MODE sel"
  shows "\<exists>s' es w p q. harness_main (hosted_machine P T M) (hosted_cpu P T C) L n mode (harness_boot s) = Some (True, s')
    \<and> v_out (io_dev s') = v_out s @ es
    \<and> printf_texts es = map print_line (harness_lines mode w p q) \<and> console_lines harness_tx [] (emitted es) = harness_lines mode w p q
    \<and> forwarded_values (emitted es) = [ucast w]
    \<and> smc_x0s TRACE_KIND_SMC_ENTER (emitted es) = [PSCI_VERSION_FID, SMCCC_VERSION_FID, HARNESS_UNHANDLED_SMC_FID]
    \<and> smc_x0s TRACE_KIND_SMC_EXIT (emitted es) = [p, q, 0]
    \<and> v_state (io_dev s') = GUEST_STOPPED_BY_FAULT
    \<and> fs_fault (v_last_fault (io_dev s')) = \<lparr>gf_kind = GUEST_FAULT_SMC, gf_detail = HARNESS_UNHANDLED_SMC_FID\<rparr>
    \<and> guest_events es = [event TRACE_GUEST_STOPPED_BY_FAULT (fs_pc (v_last_fault (io_dev s'))) (v_run s) (v_run_vcpu s)]"
proof -
  have dev: "io_dev (harness_boot s) = s" by (simp add: harness_boot_def)
  note st = started_hosting [OF assms(2,3,4), folded s_def]
  obtain s' d w p q where main: "harness_main (hosted_machine P T M) (hosted_cpu P T C) L n mode (harness_boot s) = Some (True, s')"
    and run: "hosted (concat (map (\<lambda>l. l @ [NL]) (harness_lines mode w p q))) [w] [PSCI_VERSION_FID, SMCCC_VERSION_FID] [p, q] s d"
    and stop: "hosted_stop HARNESS_UNHANDLED_SMC_FID d (io_dev s')"
    using hosted_main [OF assms(1), of "harness_boot s" mode M C L n] st(1) assms(5) unfolding dev mode_def by blast
  let ?ls = "harness_lines mode w p q" and ?fids = "[PSCI_VERSION_FID, SMCCC_VERSION_FID, HARNESS_UNHANDLED_SMC_FID]"
  have plain: "\<forall>l \<in> set ?ls. plain l" using harness_lines_plain by blast
  let ?t = "concat (map (\<lambda>l. l @ [NL]) ?ls)"
  from run obtain es1 where es1: "v_out d = v_out s @ es1" "shown ?t [w] [PSCI_VERSION_FID, SMCCC_VERSION_FID] [p, q] (v_uart s) es1"
      "guest_events es1 = []" "same_guest s d" "v_uart d = fst (uart_feed ?t (v_uart s))" by (auto simp: hosted_def)
  from stop obtain es2 where es2: "v_out (io_dev s') = v_out d @ es2" "shown [] [] [HARNESS_UNHANDLED_SMC_FID] [0] (v_uart d) es2"
      "guest_events es2 = [event TRACE_GUEST_STOPPED_BY_FAULT (fs_pc (v_last_fault (io_dev s'))) (v_run d) (v_run_vcpu d)]"
    by (auto simp: hosted_stop_def)
  have sh: "shown ?t [w] ?fids [p, q, 0] (v_uart s) (es1 @ es2)"
    using shown_append [OF es1(2) es2(2) [unfolded es1(5)]] by simp
  have "printf_texts (es1 @ es2) = map print_line ?ls" using sh plain_lines_shown [OF plain st(2,3)] by (simp add: shown_def)
  moreover have "console_lines harness_tx [] (emitted (es1 @ es2)) = ?ls"
    using sh text_lines_of [of ?ls "[]"] plain unfolding console_lines_text shown_def plain_def by simp
  moreover have "guest_events (es1 @ es2) = [event TRACE_GUEST_STOPPED_BY_FAULT (fs_pc (v_last_fault (io_dev s'))) (v_run s) (v_run_vcpu s)]"
    using es1(3,4) es2(3) by (simp add: same_guest_def)
  ultimately show ?thesis
    using main sh stop es1(1) es2(1)
    by (intro exI [of _ s'] exI [of _ "es1 @ es2"] exI [of _ w] exI [of _ p] exI [of _ q]) (simp add: shown_def hosted_stop_def)
qed

text \<open>
  A platform that hosts: the kernel's state is the registers of the vCPU, \<open>x0\<close> is the operand of every instruction, and libvmm looks
  the handler up.
\<close>

definition host_kernel :: "user_context platform" where
  "host_kernel = \<lparr>p_cntpct = (\<lambda>k. (0, k)), p_cntfrq = 24576000,
     p_read_registers = (\<lambda>v r k. (0, k)), p_write_registers = (\<lambda>v r k. (0, r)), p_vcpu_reset = (\<lambda>v k. k), p_vcpu_set_on = (\<lambda>v b k. k),
     p_vcpu_restart = (\<lambda>v pc k. k), p_vcpu_stop = (\<lambda>v k. k), p_smc_handle = (\<lambda>v h k. (True, k\<lparr>uc_x0 := 0x10001\<rparr>)),
     p_smc_call = (\<lambda>r k. (r\<lparr>sm_x0 := 0x10002\<rparr>, k)), p_advance_vcpu = (\<lambda>v r k. (True, r\<lparr>uc_pc := uc_pc r + 4\<rparr>)), p_mmio_read32 = (\<lambda>a k. (0x21, k)),
     p_guest_init = (\<lambda>k. (True, k)), p_register_handler = (\<lambda>b z h k. (True, k)), p_fault_handle = (\<lambda>c m s. (False, s)),
     p_linux_setup_images = (\<lambda>g k d dg i ig r. (g, r)), p_fault_is_write = (\<lambda>f. f AND 0x40 \<noteq> 0),
     p_fault_width_bytes = (\<lambda>f. 4), p_fault_get_data = (\<lambda>r f. uc_x0 r), p_fault_emulate_write = (\<lambda>r a f v. r\<lparr>uc_x0 := v\<rparr>),
     HSR_EXCEPTION_CLASS = (\<lambda>h. drop_bit 26 h AND 0x3f), HSR_SMC_64_EXCEPTION = 0x17, HSR_WFx_EXCEPTION = 1,
     HSR_SYSREG_64_EXCEPTION = 0x18, PSCI_MAX = 21, seL4_Fault_VMFault = 6, seL4_Fault_VCPUFault = 8,
     seL4_Fault_VPPIEvent = 9, seL4_Fault_VGICMaintenance = 7, seL4_VMFault_IP = 0, seL4_VMFault_Addr = 1,
     seL4_VMFault_FSR = 3, seL4_VCPUFault_HSR = 0, microkit_name = ''vmm''\<rparr>"

definition host_platform :: "user_context platform" where
  "host_platform = host_kernel\<lparr>p_fault_handle := \<lambda>c m s. case handler_at (v_out s) (m_mr m 1) of
     None \<Rightarrow> (False, s) | Some (base, h) \<Rightarrow> dispatched host_kernel c base h m s\<rparr>"

definition host_traps :: "user_context traps" where
  "host_traps = \<lparr>tp_store = (\<lambda>c a v k. (\<lparr>m_label = 6, m_mr = (\<lambda>_. 0)(1 := a, 3 := 0x40)\<rparr>, k\<lparr>uc_x0 := ucast v\<rparr>)),
     tp_load = (\<lambda>c a k. (\<lparr>m_label = 6, m_mr = (\<lambda>_. 0)(1 := a)\<rparr>, k)),
     tp_smc = (\<lambda>c fid k. (\<lparr>m_label = 8, m_mr = (\<lambda>_. 0x5e000000)\<rparr>, k\<lparr>uc_x0 := fid\<rparr>)), tp_loaded = (\<lambda>r. ucast (uc_x0 r))\<rparr>"

definition host_vmm :: "user_context vmm" where
  "host_vmm = \<lparr>v_k = zero_context, v_out = [], v_state = GUEST_NOT_STARTED, v_run = 0, v_run_vcpu = 0,
     v_last_fault = \<lparr>fs_pc = 0, fs_fault = \<lparr>gf_kind = GUEST_FAULT_SMC, gf_detail = 0\<rparr>\<rparr>,
     v_stats = (\<lambda>_. \<lparr>es_count = 0, es_last = 0\<rparr>), v_last_heartbeat = 0,
     v_uart = \<lparr>ue_gpa = 0, ue_line = (\<lambda>_. NUL), ue_line_len = 0\<rparr>, v_cmd = empty_cmd_ring, v_notifications = 0, v_ram = (\<lambda>_. 0)\<rparr>"

lemma handlers_alone:
  "mmio_trace (P\<lparr>p_fault_handle := f\<rparr>) v regs a fsr fl x s = mmio_trace P v regs a fsr fl x s"
  "uart_fault (P\<lparr>p_fault_handle := f\<rparr>) v off fsr regs s = uart_fault P v off fsr regs s"
  "forward_fault (P\<lparr>p_fault_handle := f\<rparr>) fwd v off fsr regs s = forward_fault P fwd v off fsr regs s"
  "dispatched (P\<lparr>p_fault_handle := f\<rparr>) c base h m s = dispatched P c base h m s"
proof -
  show t: "mmio_trace (P\<lparr>p_fault_handle := f\<rparr>) v regs a fsr fl x s = mmio_trace P v regs a fsr fl x s" for v regs a fsr fl x s
    by (simp add: mmio_trace_def mmio_trace_emit_def mmio_record_def)
  show u: "uart_fault (P\<lparr>p_fault_handle := f\<rparr>) v off fsr regs s = uart_fault P v off fsr regs s" for v off fsr regs s
    by (simp add: uart_fault_def emul_uart_read_def emul_uart_write_def t cong: option.case_cong)
  show w: "forward_fault (P\<lparr>p_fault_handle := f\<rparr>) fwd v off fsr regs s = forward_fault P fwd v off fsr regs s" for fwd v off fsr regs s
    by (simp add: forward_fault_def forward_access_supported_def t Let_def split_beta)
  have "device_handler (P\<lparr>p_fault_handle := f\<rparr>) h v off fsr regs s = device_handler P h v off fsr regs s" for v off fsr regs s
    by (cases h) (simp_all add: device_handler_def u w)
  then show "dispatched (P\<lparr>p_fault_handle := f\<rparr>) c base h m s = dispatched P c base h m s"
    by (simp add: dispatched_def tcb_read_registers_def Let_def split_beta)
qed

lemma host_fault_handle:
  "p_fault_handle host_platform c m s = (case handler_at (v_out s) (m_mr m 1) of None \<Rightarrow> (False, s) | Some (base, h) \<Rightarrow> dispatched host_platform c base h m s)"
proof -
  have d: "dispatched host_platform = dispatched host_kernel" by (intro ext) (simp add: host_platform_def handlers_alone)
  show ?thesis unfolding d by (simp add: host_platform_def)
qed

lemma ucast_u32 [simp]: "ucast (ucast v :: u64) = (v :: u32)"
  by (rule bit_word_eqI) (auto simp: bit_ucast_iff)

lemma host_platform_fields:
  "p_cntpct host_platform = (\<lambda>k. (0, k))" "p_read_registers host_platform = (\<lambda>v r k. (0, k))" "PSCI_MAX host_platform = 21"
  "p_advance_vcpu host_platform = (\<lambda>v r k. (True, r\<lparr>uc_pc := uc_pc r + 4\<rparr>))" "p_smc_handle host_platform = (\<lambda>v h k. (True, k\<lparr>uc_x0 := 0x10001\<rparr>))"
  "p_fault_is_write host_platform = (\<lambda>f. f AND 0x40 \<noteq> 0)" "p_fault_width_bytes host_platform = (\<lambda>f. 4)"
  "p_fault_get_data host_platform = (\<lambda>r f. uc_x0 r)" "p_fault_emulate_write host_platform = (\<lambda>r a f v. r\<lparr>uc_x0 := v\<rparr>)"
  "HSR_EXCEPTION_CLASS host_platform = (\<lambda>h. drop_bit 26 h AND 0x3f)" "HSR_SMC_64_EXCEPTION host_platform = 0x17"
  "seL4_Fault_VMFault host_platform = 6" "seL4_Fault_VCPUFault host_platform = 8" "seL4_VMFault_Addr host_platform = 1"
  "seL4_VMFault_FSR host_platform = 3" "seL4_VCPUFault_HSR host_platform = 0" "p_guest_init host_platform = (\<lambda>k. (True, k))"
  "p_register_handler host_platform = (\<lambda>b z h k. (True, k))" "p_write_registers host_platform = (\<lambda>v r k. (0, r))"
  by (simp_all add: host_platform_def host_kernel_def)

lemma host_hosts: "hosts host_platform host_traps"
proof -
  have "libvmm_dispatches host_platform" by (simp add: libvmm_dispatches_def host_platform_fields host_fault_handle)
  moreover have "registers_kept host_platform host_traps" by (simp add: registers_kept_def host_platform_fields host_traps_def)
  moreover have "accesses_trap host_platform host_traps"
    by (simp add: accesses_trap_def access_traps_def host_platform_fields host_traps_def)
  moreover have "smcs_trap host_platform host_traps" by (simp add: smcs_trap_def host_platform_fields host_traps_def)
  ultimately show ?thesis by (simp add: hosts_def)
qed

lemma boot_fresh_running:
  "fst (boot_fresh P C sel s) \<Longrightarrow> v_state s \<noteq> GUEST_RUNNING \<Longrightarrow> v_state (guest_control_start P C sel s) = GUEST_RUNNING"
  by (auto simp: guest_control_start_def boot_fresh_def LOG_VMM_def out_def Let_def split_beta split: option.splits if_splits)

theorem harness_hosted_witness:
  "\<forall>M C. \<exists>s' es w p q. harness_main (hosted_machine host_platform host_traps M) (hosted_cpu host_platform host_traps C) ram_layout 3 0
        (harness_boot (guest_control_start host_platform demo_config 0x100 (vmm_init host_platform demo_config host_vmm))) = Some (True, s')
    \<and> v_out (io_dev s') = v_out (guest_control_start host_platform demo_config 0x100 (vmm_init host_platform demo_config host_vmm)) @ es
    \<and> printf_texts es = map print_line [''hello'', ''WTCON='' @ hex32 w, ''PSCI_VERSION='' @ hex32 (ucast p), ''SMCCC_VERSION='' @ hex32 (ucast q)]
    \<and> smc_x0s TRACE_KIND_SMC_EXIT (emitted es) = [p, q, 0] \<and> v_state (io_dev s') = GUEST_STOPPED_BY_FAULT" (is "\<forall>M C. ?W M C")
proof -
  let ?i = "vmm_init host_platform demo_config host_vmm"
  have b: "harness_build host_platform demo_config host_vmm" by (simp add: harness_build_def host_platform_fields demo_config_def)
  have o: "v_out host_vmm = []" by (simp add: host_vmm_def)
  have "fst (boot_fresh host_platform demo_config 0x100 ?i)"
    by (simp add: boot_fresh_def guest_image_load_def harness_image_load_def start_vcpu_def tcb_write_registers_def host_platform_fields
        GUEST_SELECT_VCPU_def GUEST_SELECT_GUEST_def GUEST_SELECT_IS_HARNESS_def demo_config_def harness_map_def Let_def)
  moreover have "v_state ?i = GUEST_NOT_STARTED" using init_other [of host_vmm host_platform demo_config] by (simp add: other_step_def same_guest_def host_vmm_def)
  ultimately have run: "v_state (guest_control_start host_platform demo_config 0x100 ?i) = GUEST_RUNNING" by (intro boot_fresh_running) simp_all
  have m: "GUEST_SELECT_HARNESS_MODE 0x100 = 0" by (simp add: GUEST_SELECT_HARNESS_MODE_def)
  show ?thesis
  proof (intro allI)
    fix M :: "user_context vmm machine" and C
    show "?W M C" using harness_hosted [OF host_hosts b o run, of M C ram_layout 3] unfolding m by (simp add: harness_lines_def) blast
  qed
qed

end
