(* ===== verification/Linux_Init.thy ===== *)
theory Linux_Init
  imports Machine
begin

text \<open>
  The first process of the Linux guest (\<^verbatim>\<open>guests/linux/init.c\<close>).  The kernel is the parameter \<open>kernel\<close>: the result of a system
  call, \<open>None\<close> when it does not return.  Every call is logged with its arguments.
\<close>

datatype syscall = SYS_openat u64 string u64 | SYS_write u64 string u64 | SYS_exit u64 | SYS_ppoll

record 'd kernel =
  k_call :: "syscall \<Rightarrow> 'd \<Rightarrow> u64 option \<times> 'd"

record 'd init =
  in_kernel :: 'd
  in_calls :: "syscall list"

abbreviation (input) AT_FDCWD :: u64 where "AT_FDCWD \<equiv> - 100"
abbreviation (input) O_WRONLY :: u64 where "O_WRONLY \<equiv> 1"

text \<open>A call gives the state after it and its result; \<open>Inl\<close> is a state the process never leaves.\<close>

definition syscall5 :: "'d kernel \<Rightarrow> syscall \<Rightarrow> 'd init \<Rightarrow> 'd init + u64 \<times> 'd init" where
  "syscall5 K c s =
     (let (r, d) = k_call K c (in_kernel s); s1 = s\<lparr>in_kernel := d, in_calls := in_calls s @ [c]\<rparr>
      in case r of None \<Rightarrow> Inl s1 | Some x \<Rightarrow> Inr (x, s1))"

definition open_kmsg :: "'d kernel \<Rightarrow> 'd init \<Rightarrow> 'd init + u64 \<times> 'd init" where
  "open_kmsg K = syscall5 K (SYS_openat AT_FDCWD ''/dev/kmsg'' O_WRONLY)"

definition write_fd :: "'d kernel \<Rightarrow> u64 \<Rightarrow> string \<Rightarrow> u64 \<Rightarrow> 'd init \<Rightarrow> 'd init + u64 \<times> 'd init" where
  "write_fd K fd t n = syscall5 K (SYS_write fd t n)"

definition exit_on_error :: "'d kernel \<Rightarrow> u64 \<Rightarrow> 'd init \<Rightarrow> 'd init + 'd init" where
  "exit_on_error K ret s =
     (if sint ret < 0 then (case syscall5 K (SYS_exit (- ret)) s of Inl s1 \<Rightarrow> Inl s1 | Inr (_, s1) \<Rightarrow> Inr s1) else Inr s)"

text \<open>The first \<open>n\<close> rounds of the waiting loop.\<close>

fun wait_forever :: "'d kernel \<Rightarrow> nat \<Rightarrow> 'd init \<Rightarrow> 'd init" where
  "wait_forever K 0 s = s"
| "wait_forever K (Suc n) s = (case syscall5 K SYS_ppoll s of Inl s1 \<Rightarrow> s1 | Inr (_, s1) \<Rightarrow> wait_forever K n s1)"

definition init_msg :: string where
  "init_msg = ''init: hello from userspace'' @ [NL]"

definition init_start :: "'d kernel \<Rightarrow> nat \<Rightarrow> 'd init \<Rightarrow> 'd init" where
  "init_start K n s =
     (case open_kmsg K s of Inl s1 \<Rightarrow> s1 | Inr (kmsg, s1) \<Rightarrow>
      case exit_on_error K kmsg s1 of Inl s2 \<Rightarrow> s2 | Inr s2 \<Rightarrow>
      case write_fd K kmsg init_msg (of_nat (length init_msg)) s2 of Inl s3 \<Rightarrow> s3 | Inr (written, s3) \<Rightarrow>
      case exit_on_error K written s3 of Inl s4 \<Rightarrow> s4 | Inr s4 \<Rightarrow> wait_forever K n s4)"

text \<open>\<open>exit\<close> does not return.  Nothing is asked of the other calls: a \<open>ppoll\<close> without a timeout may block for good.\<close>

definition exit_ends :: "'d kernel \<Rightarrow> bool" where
  "exit_ends K \<longleftrightarrow> (\<forall>e d. fst (k_call K (SYS_exit e) d) = None)"

lemma exit_on_error_fails:
  assumes "exit_ends K" and "sint r < 0"
  shows "\<exists>s1. exit_on_error K r s = Inl s1 \<and> in_calls s1 = in_calls s @ [SYS_exit (- r)]"
proof -
  have "fst (k_call K (SYS_exit (- r)) (in_kernel s)) = None" using assms(1) by (simp add: exit_ends_def)
  then show ?thesis using assms(2) by (simp add: exit_on_error_def syscall5_def Let_def split_beta)
qed

lemma exit_on_error_passes: "\<not> sint r < 0 \<Longrightarrow> exit_on_error K r s = Inr s"
  by (simp add: exit_on_error_def)

lemma wait_forever_calls:
  "\<exists>m\<le>n. in_calls (wait_forever K n s) = in_calls s @ replicate m SYS_ppoll \<and> (0 < n \<longrightarrow> 0 < m)
     \<and> ((\<forall>d. fst (k_call K SYS_ppoll d) \<noteq> None) \<longrightarrow> m = n)"
proof (induction n arbitrary: s)
  case (Suc n)
  obtain r d where k: "k_call K SYS_ppoll (in_kernel s) = (r, d)" by fastforce
  let ?s1 = "s\<lparr>in_kernel := d, in_calls := in_calls s @ [SYS_ppoll]\<rparr>"
  show ?case
  proof (cases r)
    case None
    then have "\<not> (\<forall>d. fst (k_call K SYS_ppoll d) \<noteq> None)" using k by (metis fst_conv)
    then show ?thesis using k None by (intro exI [of _ 1]) (simp add: syscall5_def, metis option.distinct(1))
  next
    case (Some x)
    obtain m where "m \<le> n" "in_calls (wait_forever K n ?s1) = in_calls ?s1 @ replicate m SYS_ppoll"
      "(\<forall>d. fst (k_call K SYS_ppoll d) \<noteq> None) \<longrightarrow> m = n" using Suc.IH [of ?s1] by blast
    then show ?thesis using k Some by (intro exI [of _ "Suc m"]) (auto simp: syscall5_def)
  qed
qed simp

section \<open>Property\<close>

text \<open>
  C40. On any kernel whose \<open>exit\<close> does not return, the first process of the Linux guest opens the kernel log, hands its
  whole message in one call to the descriptor it got, and then waits, in \<open>ppoll\<close> after \<open>ppoll\<close> as each of them returns, making no
  other call; if the open or the write returns an error, its next and last call is \<open>exit\<close> with that error's number.  (A call that does
  not return is the last one.)
\<close>

theorem init_calls:
  assumes ends: "exit_ends K"
  shows "\<exists>m\<le>n. (0 < n \<longrightarrow> 0 < m) \<and> ((\<forall>d. fst (k_call K SYS_ppoll d) \<noteq> None) \<longrightarrow> m = n)
    \<and> in_calls (init_start K n s) = in_calls s @ SYS_openat AT_FDCWD ''/dev/kmsg'' O_WRONLY
      # (case k_call K (SYS_openat AT_FDCWD ''/dev/kmsg'' O_WRONLY) (in_kernel s) of (None, _) \<Rightarrow> []
         | (Some kmsg, d1) \<Rightarrow> if sint kmsg < 0 then [SYS_exit (- kmsg)]
             else SYS_write kmsg init_msg 27
               # (case k_call K (SYS_write kmsg init_msg 27) d1 of (None, _) \<Rightarrow> []
                  | (Some written, d2) \<Rightarrow> if sint written < 0 then [SYS_exit (- written)] else replicate m SYS_ppoll))"
proof -
  have len: "of_nat (length init_msg) = (27 :: u64)" by (simp add: init_msg_def)
  let ?open = "SYS_openat AT_FDCWD ''/dev/kmsg'' O_WRONLY"
  obtain r d1 where k1: "k_call K ?open (in_kernel s) = (r, d1)" by fastforce
  let ?s1 = "s\<lparr>in_kernel := d1, in_calls := in_calls s @ [?open]\<rparr>"
  show ?thesis
  proof (cases "r = None \<or> sint (the r) < 0")
    case True
    then show ?thesis
      using k1 exit_on_error_fails [OF ends, of "the r" ?s1]
      by (intro exI [of _ n]) (cases r; auto simp: init_start_def open_kmsg_def syscall5_def)
  next
    case False
    then obtain kmsg where r: "r = Some kmsg" "\<not> sint kmsg < 0" by auto
    obtain q d2 where k2: "k_call K (SYS_write kmsg init_msg 27) d1 = (q, d2)" by fastforce
    let ?s3 = "s\<lparr>in_kernel := d2, in_calls := in_calls s @ [?open, SYS_write kmsg init_msg 27]\<rparr>"
    obtain m where m: "m \<le> n" "in_calls (wait_forever K n ?s3) = in_calls ?s3 @ replicate m SYS_ppoll" "0 < n \<longrightarrow> 0 < m"
      "(\<forall>d. fst (k_call K SYS_ppoll d) \<noteq> None) \<longrightarrow> m = n" using wait_forever_calls [where n = n and K = K and s = ?s3] by blast
    have start: "init_start K n s = (case q of None \<Rightarrow> ?s3 | Some w \<Rightarrow>
        case exit_on_error K w ?s3 of Inl s4 \<Rightarrow> s4 | Inr s4 \<Rightarrow> wait_forever K n s4)"
      using k1 k2 r by (simp add: init_start_def open_kmsg_def write_fd_def len syscall5_def exit_on_error_passes split: option.split)
    have "in_calls (init_start K n s) = in_calls s @ ?open # SYS_write kmsg init_msg 27
        # (case q of None \<Rightarrow> [] | Some written \<Rightarrow> if sint written < 0 then [SYS_exit (- written)] else replicate m SYS_ppoll)"
    proof (cases q)
      case None
      then show ?thesis by (simp add: start)
    next
      case (Some w)
      then show ?thesis
        using start m(2) exit_on_error_fails [OF ends, of w ?s3] exit_on_error_passes [of w K ?s3] by (cases "sint w < 0") auto
    qed
    then show ?thesis using k1 k2 r m(1,3,4) by (intro exI [of _ m]) (simp split: option.splits)
  qed
qed

text \<open>A kernel without \<^verbatim>\<open>/dev/kmsg\<close>, where the open fails with \<open>ENOENT\<close>; and one that has it and blocks in \<open>ppoll\<close>.\<close>

definition no_kmsg :: "unit kernel" where
  "no_kmsg = \<lparr>k_call = \<lambda>c d. (case c of SYS_exit e \<Rightarrow> None | SYS_openat f p fl \<Rightarrow> Some (- 2) | _ \<Rightarrow> Some 0, d)\<rparr>"

definition blocking_kernel :: "unit kernel" where
  "blocking_kernel = \<lparr>k_call = \<lambda>c d. (case c of SYS_openat f p fl \<Rightarrow> Some 3 | SYS_write f t n \<Rightarrow> Some n | _ \<Rightarrow> None, d)\<rparr>"

theorem init_calls_witness:
  "in_calls (init_start no_kmsg 3 \<lparr>in_kernel = (), in_calls = []\<rparr>) = [SYS_openat AT_FDCWD ''/dev/kmsg'' O_WRONLY, SYS_exit 2]
    \<and> in_calls (init_start blocking_kernel 1 \<lparr>in_kernel = (), in_calls = []\<rparr>)
      = [SYS_openat AT_FDCWD ''/dev/kmsg'' O_WRONLY, SYS_write 3 init_msg 27, SYS_ppoll]"
proof -
  have ends: "exit_ends no_kmsg" "exit_ends blocking_kernel" by (simp_all add: exit_ends_def no_kmsg_def blocking_kernel_def)
  obtain m where m: "m \<le> 1" "(0 :: nat) < 1 \<longrightarrow> 0 < m" "in_calls (init_start blocking_kernel 1 \<lparr>in_kernel = (), in_calls = []\<rparr>)
      = [SYS_openat AT_FDCWD ''/dev/kmsg'' O_WRONLY, SYS_write 3 init_msg 27] @ replicate m SYS_ppoll"
    using init_calls [OF ends(2), where n = 1 and s = "\<lparr>in_kernel = (), in_calls = []\<rparr>"] by (auto simp: blocking_kernel_def)
  then have "m = 1" by simp
  then show ?thesis
    using m(3) init_calls [OF ends(1), where n = 3 and s = "\<lparr>in_kernel = (), in_calls = []\<rparr>"] by (auto simp: no_kmsg_def)
qed

end
