(* ===== verification/Spec2Isabelle.thy ===== *)
theory Spec2Isabelle
  imports Trace_Pipeline Guest_Lines Freezewatch Command_Path Console_Panel Harness_Tables Hosted_Run Linux_Init
begin

text \<open>
  A verification development for the tracing hypervisor: a seL4/Microkit system that runs one guest on a phone, records every
  device access and firmware call of the guest, and writes the records to a serial console.

  \<^bold>\<open>The program.\<close>  It consists of protection domains that share memory pages and notify each other, and of a host tool:
  \<^item> the \<^emph>\<open>VMM\<close> (\<^verbatim>\<open>vmm/\<close>) starts and stops the guest on commands, handles its faults, emulates its UART, decides about its SMC
    calls, and writes a trace record for each with \<open>trace_emit\<close>;
  \<^item> the \<^emph>\<open>tracer\<close> (\<^verbatim>\<open>tracer/tracer.c\<close>) drains the trace ring into an archive, dumps the archive on request and carries the
    console rings of the other domains to the serial line and to the ring of the panel;
  \<^item> \<^emph>\<open>uartrx\<close> (\<^verbatim>\<open>uartrx/uartrx.c\<close>) edits and parses the typed lines, traces every one, hands commands to the VMM over the
    command page and waits for their completion, and samples stuck processors;
  \<^item> \<^emph>\<open>fbcon\<close> (\<^verbatim>\<open>fbcon/fbcon.c\<close>) shows the console text on the panel; \<^emph>\<open>freezewatch\<close> (\<^verbatim>\<open>freezewatch/freezewatch.c\<close>) reports a
    console that is stuck, with the CoreSight sampler of \<^verbatim>\<open>diag/coresight.c\<close>;
  \<^item> the guests: \<^verbatim>\<open>guests/harness/\<close>, a test program, and the first process of the Linux guest, \<^verbatim>\<open>guests/linux/init.c\<close>;
  \<^item> \<^verbatim>\<open>tools/trace-decode.py\<close> on the host, which reads a serial log and checks the trace found in it.

  \<^bold>\<open>Foundations.\<close>
  \<^item> \<open>Prelude\<close>: the C integer types as words, the arithmetic of rings with free-running 64-bit counters, options.
  \<^item> \<open>Text_Render\<close>: decimal and hexadecimal output, once for all the routines of this form.
  \<^item> \<open>Ring_Interface\<close>: the locale of a shared ring, interpreted by the console rings, the trace ring and the command ring.
  \<^item> \<open>Machine\<close>: volatile accesses on a device whose answers are a parameter, every access logged.

  \<^bold>\<open>The trace.\<close>
  \<^item> \<open>Trace_Format\<close> (\<^verbatim>\<open>include/trace/trace.h\<close>), \<open>Trace_Archive\<close> (\<^verbatim>\<open>include/trace/trace_archive.h\<close>, \<open>archive_record\<close>).
  \<^item> \<open>Trace_Producer\<close> (\<^verbatim>\<open>vmm/trace_producer.c\<close>): any number of producers and the tracer as a step relation, one step per shared
    access.  The lemmas show mutual exclusion, that a full ring makes the producer wait, that sequence numbers have no gap, that
    every record taken from the ring is archived or, beyond the capacity of the archive, counted, and that the system can always finish.
  \<^item> \<open>Console_Ring\<close> (\<^verbatim>\<open>include/trace/console_ring.h\<close>, \<^verbatim>\<open>vmm/console_putchar.c\<close>): the writers against the drain loop; the text
    arrives in order and nothing is lost.
  \<^item> \<open>Tracer\<close> (\<^verbatim>\<open>tracer/tracer.c\<close>): dump lines, the mirror to the panel and the notification handler.
  \<^item> \<open>Trace_Print\<close>, \<open>Trace_Decode\<close>, \<open>Trace_Log\<close> (\<^verbatim>\<open>tools/trace-decode.py\<close>): how a record is printed, the decoder, and the logs it reads:
    decoding a dump gives back the archive, and a gap in it is one error.
  \<^item> \<open>Trace_Typing\<close>: the record types of \<^verbatim>\<open>docs/trace-format.md\<close>, which every record of the VMM and \<open>uartrx\<close> has.  \<open>Trace_Pipeline\<close> puts all of it
    together, from \<open>trace_emit\<close> to the decoded log; \<open>Guest_Lines\<close> compares the guest's console as printed and as traced.

  \<^bold>\<open>The VMM.\<close>  All its files are linked into one domain, so they share the state \<open>vmm\<close> of \<open>Vmm_State\<close>: the fields \<open>v_\<dots>\<close> are the
  static variables and the shared pages, \<open>v_k\<close> is the state of everything outside, and \<open>v_out\<close> lists the effects in order (calls of
  libvmm and Microkit, log lines, traced records).  libvmm and Microkit are the operations of the parameter \<open>platform\<close>.
  \<^item> \<open>Cmd_Ring\<close> (\<^verbatim>\<open>include/trace/cmd_ring.h\<close>), \<open>Breadcrumb\<close>, \<open>Guest_Stats\<close>, \<open>Mmio\<close> (\<^verbatim>\<open>mmio_trace.c\<close>, \<^verbatim>\<open>mmio_forward.c\<close>,
    \<^verbatim>\<open>exynos_uart_emul.c\<close>), \<open>Smc\<close> (\<^verbatim>\<open>smc_policy.c\<close>, \<^verbatim>\<open>smc_trace.c\<close>), \<open>Guest_Image\<close> (the three \<^verbatim>\<open>guest_image_*.c\<close>).
  \<^item> \<open>Guest_Control\<close> (\<^verbatim>\<open>guest_control.c\<close>): the operations, then the life cycle they form (\<open>gc_reach\<close>) and its invariant.
  \<^item> \<open>Vmm\<close> (\<^verbatim>\<open>vmm.c\<close>): \<open>init\<close>, \<open>notified\<close> and \<open>fault\<close>; the invariants hold after any sequence of them.

  \<^bold>\<open>The console.\<close>
  \<^item> \<open>Uartrx_Parse\<close>, \<open>Uartrx\<close>, \<open>Uartrx_Exchange\<close>: the parser against a grammar, the line editor, the command handlers, and the
    waiting loop; \<open>Command_Path\<close> joins \<open>uartrx\<close> with the VMM, and the last property of this file is about the two together.
  \<^item> \<open>Coresight\<close>, \<open>Freezewatch\<close>: the register sequence of a sample; a stall is reported once, and only when nothing moved throughout.
  \<^item> \<open>Fbcon\<close>, \<open>Fbcon_Pixels\<close>, \<open>Fbcon_Text\<close>, \<open>Fbcon_Panel\<close>, \<open>Panel_Console\<close>: the code, the pixels each loop writes, the text grid
    against a teletype, and the domain as a whole: the panel shows the end of what was mirrored to it.
    \<open>Console_Panel\<close> joins it with the tracer: the panel shows the end of what the tracer printed, with a report for
    each run the mirror had to drop.  Reachable panels (\<open>panel_run\<close>) are those refused and those with room for a text row.

  \<^bold>\<open>The guests.\<close>  \<open>Harness\<close>, \<open>Harness_Run\<close>, \<open>Harness_Tables\<close> (\<^verbatim>\<open>harness.c\<close>, \<^verbatim>\<open>harness_uart.c\<close>, \<^verbatim>\<open>lab.c\<close>): what a run prints and calls, and
  that the page tables translate every mapped address to itself.  \<open>Hosted_Guest\<close>, \<open>Hosted_Run\<close>: the same code with the VMM as its
  machine: every device access and call of the guest traps and goes through the VMM's \<open>fault\<close>, and from boot both consoles show the lines of
  its run until the policy stops it.  \<open>Linux_Init\<close> (\<^verbatim>\<open>guests/linux/init.c\<close>): the system calls of the process.

  \<^bold>\<open>Bounds and loops.\<close>  There is no fuel for a loop of the VMM, the tracer or the decoder: each is a total function whose measure
  is the distance of its two counters, or a structural recursion.  A loop that polls a device or waits for another domain is
  a \<open>partial_function\<close> into an option, where \<open>None\<close> is never returning, and that it returns is proved under a named condition on the
  device or the other side (\<open>uart_drains\<close> for a transmitter, \<open>ticking\<close> for a clock, \<open>hosts\<close> for the kernel and libvmm under a guest).  \<open>drain_loop\<close> of \<open>Fbcon\<close> takes what the tracer mirrors
  meanwhile as an argument; \<open>tail\<close> is stored only at its end, so the room of the ring bounds what can arrive and the loop ends
  whatever the tracer does.  The endless loops of \<open>watch_forever\<close>, the lab modes and \<open>init.c\<close> are given as
  one iteration and as the first \<open>n\<close> iterations, for every \<open>n\<close>.

  \<^bold>\<open>Not modelled.\<close>  The assembly (\<^verbatim>\<open>guests/harness/start.S\<close>, \<^verbatim>\<open>guests/harness/vectors.S\<close>, \<^verbatim>\<open>vmm/images_*.S\<close>), the system description, the
  device trees, the build files and the shell and Python tools other than the decoder are not in the model; nor are the patches
  under \<^verbatim>\<open>patches/\<close>, whose target projects are not in the repository.  libvmm, Microkit, the font and the trace stamp (generated by
  the build) are parameters.  Of the decoder, the wording of its error lines and the reading of its arguments are left
  out.  Between lab iterations interrupts arrive as the parameter \<open>cpu\<close> says; they are not taken in the middle of one.  Of memory
  ordering the model has what the source asks for: accesses to shared pages happen one at a time, in program order.
  The handlers \<open>tracer_notified\<close>, \<open>run_commands\<close> and, in \<open>Console_Panel\<close>, \<open>fbcon_notified\<close> run without arrivals in the middle of a drain; the
  interleavings of the trace ring and the console rings are in \<open>Trace_Producer\<close> and \<open>Console_Ring\<close>, those of a panel drain in \<open>drain_loop\<close>.
\<close>

section \<open>From the keyboard to the guest\<close>

text \<open>
  C27. A typed start command reaches the guest as typed: on an idle command page, the line \<open>guest-start\<close> with a guest and a vCPU leaves one
  accepted record in \<open>uartrx\<close>'s trace, the VMM runs exactly \<open>guest_control_start\<close> with a selection whose fields are the ones typed,
  and \<open>uartrx\<close> sees the command's id completed and the page empty.
\<close>

theorem typed_start_reaches_guest:
  assumes "io_dev s = (d, v)" and "cmd_ok (rx_cmd s)" and "cmd_live (rx_cmd s) = []" and "choice_ok g" and "vc \<le> 0xff"
  shows "\<exists>s' d' v' v1 sel. run_line (joined M P C) (start_line g vc) s = Some s' \<and> io_dev s' = (d', v')
    \<and> GUEST_SELECT_VCPU sel = vc \<and> GUEST_SELECT_GUEST sel = choice_code g
    \<and> rx_emitted (rx_out s') = rx_emitted (rx_out s)
        @ [cmd_record TRACE_CMD_VERB_GUEST_START (rx_commands_received s + 1) TRACE_CMD_ACCEPTED sel]
    \<and> same_guest v v1 \<and> v_out v1 = v_out v
    \<and> same_guest (guest_control_start P C sel v1) v' \<and> v_out v' = v_out (guest_control_start P C sel v1)
    \<and> cmd_live (rx_cmd s') = [] \<and> cq_completed_id (rx_cmd s') = rx_commands_received s + 1"
proof -
  let ?sel = "choice_code g OR push_bit 16 vc" and ?i = "rx_commands_received s + 1"
  let ?s1 = "record_command TRACE_CMD_VERB_GUEST_START ?i TRACE_CMD_ACCEPTED ?sel (s\<lparr>rx_commands_received := ?i, rx_command_arg := ?sel\<rparr>)"
  let ?e = "\<lparr>ce_id = ?i, ce_verb = TRACE_CMD_VERB_GUEST_START, ce_arg = ?sel\<rparr>"
  let ?v = "v\<lparr>v_cmd := cmd_push ?e (rx_cmd s)\<rparr>"
  have s1: "io_dev ?s1 = (d, v)" "rx_cmd ?s1 = rx_cmd s" "rx_command_arg ?s1 = ?sel"
    using assms(1) by (simp_all add: record_command_def rx_do_def)
  obtain s' d' where s': "cmd_to_vmm (joined M P C) ?i TRACE_CMD_VERB_GUEST_START ?s1 = Some s'"
      "io_dev s' = (d', vmm_notified P C CH_UARTRX ?v)" "rx_out s' = rx_out ?s1 @ [NotifyVmm]"
      "rx_cmd s' = v_cmd (vmm_notified P C CH_UARTRX ?v)"
    using joined_command [OF s1(1), where M = M and P = P and C = C and i = ?i and verb = TRACE_CMD_VERB_GUEST_START] s1 assms(2,3) by auto
  have q: "cmd_ok (v_cmd ?v)" "cmd_live (v_cmd ?v) = [?e]"
    using cmd.push_law [of "rx_cmd s" ?e] assms(2,3) by (simp_all add: cmd_room_eq)
  obtain v1 where v1: "same_guest ?v v1" "v_out v1 = v_out ?v" "same_guest (run_command P C ?e v1) (vmm_notified P C CH_UARTRX ?v)"
      "v_out (vmm_notified P C CH_UARTRX ?v) = v_out (run_command P C ?e v1)"
    using notified_single [OF q, of P C] by blast
  have run: "run_command P C ?e v1 = guest_control_start P C ?sel v1" by (simp add: run_command_def)
  have g: "same_guest v v1" "v_out v1 = v_out v" using v1(1,2) by (simp_all add: same_guest_def)
  have em: "rx_emitted (rx_out s') = rx_emitted (rx_out s) @ [cmd_record TRACE_CMD_VERB_GUEST_START ?i TRACE_CMD_ACCEPTED ?sel]"
    by (simp add: s'(3) record_command_def rx_do_def)
  have "cmd_live (rx_cmd s') = []" "cq_completed_id (rx_cmd s') = ?i"
    using notified_page(3,4) [OF q(1), of P C] q(2) by (simp_all add: s'(4))
  then show ?thesis
    using run_start_line [OF assms(4,5), of "joined M P C" s] s'(1,2) choice_fields(1,2) [OF assms(4,5)] g v1(3,4) em
    unfolding run
    by (rule_tac x = s' in exI, rule_tac x = d' in exI, rule_tac x = "vmm_notified P C CH_UARTRX ?v" in exI,
        rule_tac x = v1 in exI, rule_tac x = ?sel in exI) simp
qed

theorem typed_start_reaches_guest_witness:
  "\<exists>s' d' v' sel. run_line (joined demo_machine demo_platform demo_config) (start_line (HarnessGuest 3) 0)
      (uartrx_boot (0, demo_vmm) empty_cmd_ring) = Some s' \<and> io_dev s' = (d', v') \<and> GUEST_SELECT_GUEST sel = 0x103
    \<and> rx_emitted (rx_out s') = [cmd_record TRACE_CMD_VERB_GUEST_START 1 TRACE_CMD_ACCEPTED sel]
    \<and> cq_completed_id (rx_cmd s') = 1"
proof -
  let ?s = "uartrx_boot (0, demo_vmm) empty_cmd_ring"
  have "io_dev ?s = (0, demo_vmm)" "cmd_ok (rx_cmd ?s)" "cmd_live (rx_cmd ?s) = []" "choice_ok (HarnessGuest 3)" "(0 :: u64) \<le> 0xff"
    by (simp_all add: uartrx_boot_def empty_cmd_ring_def cmd_ok_iff cmd_live_def ring_contents_empty choice_ok_def)
  from typed_start_reaches_guest [OF this, of demo_machine demo_platform demo_config]
  show ?thesis by (auto simp: uartrx_boot_def)
qed

end
